(* ===== verification/Prelude.thy ===== *)
theory Prelude
  imports Main "HOL-Library.Word" "HOL-Library.Monad_Syntax"
begin

text \<open>
  Shared vocabulary of the development: the machine integers of the program as words, byte
  strings, the result type of operations that can fail, and the generic facts on lists and
  results that the components use.  \<^bold>\<open>Results.\<close>  An operation of the program that throws,
  aborts on an \<^verbatim>\<open>assert\<close> or runs into undefined behaviour is a function into
  \<open>fault + 'a\<close>; the left injection names the way it stops.
\<close>

unbundle bit_operations_syntax

type_synonym u8 = "8 word"
type_synonym u16 = "16 word"
type_synonym u32 = "32 word"
type_synonym u64 = "64 word"
type_synonym u256 = "256 word"
type_synonym bytes = "u8 list"

text \<open>
  The ways in which an operation stops without a result.  \<open>Indeterminate\<close> is a read of an object
  that was never written (a short read leaves the local buffer of \<^verbatim>\<open>SerReadData\<close> unset),
  \<open>Assertion\<close> a failed \<^verbatim>\<open>ASSERT\<close> or \<^verbatim>\<open>assert\<close>, \<open>Undefined\<close> any other undefined behaviour (an index
  past the end, a dereferenced end iterator, an invalidated iterator).
\<close>

datatype fault =
    OutOfRange            \<comment> \<open>\<^verbatim>\<open>std::out_of_range\<close>\<close>
  | NonCanonical          \<comment> \<open>\<^verbatim>\<open>ios_base::failure\<close>, non-canonical variable length integer\<close>
  | TooLarge              \<comment> \<open>\<^verbatim>\<open>ios_base::failure\<close>, size too large\<close>
  | RuntimeError          \<comment> \<open>\<^verbatim>\<open>std::runtime_error\<close>\<close>
  | Indeterminate
  | Assertion
  | Undefined

type_synonym 'a res = "fault + 'a"

definition res_bind :: "'a res \<Rightarrow> ('a \<Rightarrow> 'b res) \<Rightarrow> 'b res" where
  "res_bind m f = (case m of Inl e \<Rightarrow> Inl e | Inr x \<Rightarrow> f x)"

lemma res_bind_Inr [simp]: "res_bind (Inr x) f = f x"
  by (simp add: res_bind_def)

lemma res_bind_Inl [simp]: "res_bind (Inl e) f = Inl e"
  by (simp add: res_bind_def)

lemma res_bind_eq_Inr: "res_bind m f = Inr y \<longleftrightarrow> (\<exists>x. m = Inr x \<and> f x = Inr y)"
  by (cases m) auto

lemma res_bind_assoc: "res_bind (res_bind m f) g = res_bind m (\<lambda>x. res_bind (f x) g)"
  by (cases m) auto

lemma res_bind_cong [fundef_cong]:
  "m = m' \<Longrightarrow> (\<And>x. m' = Inr x \<Longrightarrow> f x = f' x) \<Longrightarrow> res_bind m f = res_bind m' f'"
  by (cases m') auto

definition res_ok :: "'a res \<Rightarrow> bool" where
  "res_ok m = (case m of Inl _ \<Rightarrow> False | Inr _ \<Rightarrow> True)"

lemma res_ok_simps [simp]: "res_ok (Inr x)" "\<not> res_ok (Inl e)"
  by (simp_all add: res_ok_def)

lemma res_okD: "res_ok m \<Longrightarrow> \<exists>x. m = Inr x"
  by (cases m) auto

text \<open>Collections: \<open>ser_simps\<close> drives the codec proofs, \<open>inv_defs\<close> unfolds the invariants.\<close>

named_theorems ser_simps \<open>unfolding rules of the wire codecs\<close>
named_theorems size_simps \<open>lengths of encodings\<close>
named_theorems const_defs \<open>values of the constants\<close>
named_theorems cmd_defs \<open>the command names\<close>
named_theorems op_defs \<open>opcode values\<close>
named_theorems status_defs \<open>block status values\<close>
named_theorems inv_defs \<open>definitions of the component invariants\<close>

subsection \<open>Lists\<close>

text \<open>The last \<open>n\<close> elements of a list: what a bounded queue of capacity \<open>n\<close> retains.\<close>

definition last_n :: "nat \<Rightarrow> 'a list \<Rightarrow> 'a list" where
  "last_n n xs = drop (length xs - n) xs"

lemma length_last_n [simp]: "length (last_n n xs) = min n (length xs)"
  by (auto simp: last_n_def)

lemma last_n_short [simp]: "length xs \<le> n \<Longrightarrow> last_n n xs = xs"
  by (simp add: last_n_def)

lemma last_n_snoc_full: "length xs = n \<Longrightarrow> 0 < n \<Longrightarrow> last_n n (xs @ [x]) = tl xs @ [x]"
  by (cases xs) (auto simp: last_n_def)

lemma last_n_last_n_append: "last_n n (last_n n ys @ xs) = last_n n (ys @ xs)"
proof (cases "length ys \<le> n")
  case False
  then obtain k where k: "length ys = n + k" by (metis le_add_diff_inverse nat_le_linear)
  then show ?thesis by (simp add: last_n_def add.commute)
qed simp

lemma set_last_n_subset: "set (last_n n xs) \<subseteq> set xs"
  by (auto simp: last_n_def dest: in_set_dropD)

lemma append_eq_take_drop: "length xs = n \<Longrightarrow> take n (xs @ ys) = xs \<and> drop n (xs @ ys) = ys"
  by simp

lemma sum_list_map_length_concat: "length (concat (map f xs)) = (\<Sum>x\<leftarrow>xs. length (f x))"
  by (induction xs) auto

lemma sum_list_map_const: "(\<And>x. x \<in> set xs \<Longrightarrow> f x = c) \<Longrightarrow> (\<Sum>x\<leftarrow>xs. f x) = length xs * (c::nat)"
  by (induction xs) auto

text \<open>A text literal as the bytes of a \<^verbatim>\<open>char\<close> array.\<close>

definition ascii :: "string \<Rightarrow> bytes" where
  "ascii s = map of_char s"

lemma length_ascii [simp]: "length (ascii s) = length s"
  by (simp add: ascii_def)

end
