(* ===== verification/Constants.thy ===== *)
theory Constants
  imports Prelude
begin

text \<open>
  \<^verbatim>\<open>src/utility/include/constants.h\<close>: the limits, magic numbers, timeouts and command names that
  the components share, at the width the code gives them where the arithmetic depends on it.
\<close>

definition kHashSize :: "nat" where [const_defs]: "kHashSize = 32"
definition kMaxVardataSize :: "nat" where [const_defs]: "kMaxVardataSize = 0x02000000"
definition kMaxBlockSize :: "nat" where [const_defs]: "kMaxBlockSize = 1000000"
definition kMaxBlockLoactorSize :: "nat" where [const_defs]: "kMaxBlockLoactorSize = 32"
definition kMaxMessageSize :: "nat" where [const_defs]: "kMaxMessageSize = 4 * 1000 * 1000"
definition kMaxSubVersionSize :: "nat" where [const_defs]: "kMaxSubVersionSize = 256"
definition kMaxRejectMessageLength :: "nat" where [const_defs]: "kMaxRejectMessageLength = 111"
definition kMaxAddrToSend :: "nat" where [const_defs]: "kMaxAddrToSend = 1000"
definition kVarint16bits :: "u8" where [const_defs]: "kVarint16bits = 0xfd"
definition kVarint32bits :: "u8" where [const_defs]: "kVarint32bits = 0xfe"
definition kVarint64bits :: "u8" where [const_defs]: "kVarint64bits = 0xff"
definition kSatoshiPerBitcoin :: "u64" where [const_defs]: "kSatoshiPerBitcoin = 100000000"
definition kMaxSatoshiAmount :: "u64" where [const_defs]: "kMaxSatoshiAmount = 21000000 * kSatoshiPerBitcoin"
definition kMainnetMagic :: "u32" where [const_defs]: "kMainnetMagic = 0xD9B4BEF9"
definition kTestnetMagic :: "u32" where [const_defs]: "kTestnetMagic = 0x0709110B"
definition kRegtestMagic :: "u32" where [const_defs]: "kRegtestMagic = 0xDAB5BFFA"
definition kIpByteSize :: "nat" where [const_defs]: "kIpByteSize = 16"
definition kNullIp :: "bytes" where [const_defs]: "kNullIp = replicate kIpByteSize 0"
definition kPchIpv4 :: "bytes" where [const_defs]: "kPchIpv4 = [0, 0, 0, 0, 0, 0, 0, 0, 0, 0, 0xff, 0xff]"
definition kPchOnionCat :: "bytes" where [const_defs]: "kPchOnionCat = [0xFD, 0x87, 0xD8, 0x7E, 0xEB, 0x43]"
definition kBtcIpPrefix :: "bytes" where [const_defs]: "kBtcIpPrefix = [0xFD, 0x6B, 0x88, 0xC0, 0x87, 0x24]"
definition kMaxPeerConnections :: "nat" where [const_defs]: "kMaxPeerConnections = 125"
definition kMaxOutboundConnections :: "nat" where [const_defs]: "kMaxOutboundConnections = 8"
definition kMaxInboundConnections :: "nat" where [const_defs]: "kMaxInboundConnections = kMaxPeerConnections - kMaxOutboundConnections"
definition kDefaultMisbehavingBantime :: "nat" where [const_defs]: "kDefaultMisbehavingBantime = 60 * 60 * 24"
definition kBrphanTxExpireTime :: "int" where [const_defs]: "kBrphanTxExpireTime = 20 * 60"
definition kOrphanTxExpireInterval :: "int" where [const_defs]: "kOrphanTxExpireInterval = 5 * 60"
definition kNoMsgTimeout :: "nat" where [const_defs]: "kNoMsgTimeout = 60"
definition kNoSendingTimeout :: "nat" where [const_defs]: "kNoSendingTimeout = 2 * 60"
definition kNoReceivingTimeoutBip31 :: "nat" where [const_defs]: "kNoReceivingTimeoutBip31 = 2 * 60"
definition kNoReceivingTimeout :: "nat" where [const_defs]: "kNoReceivingTimeout = 90 * 60"
definition kShakeHandsTimeout :: "nat" where [const_defs]: "kShakeHandsTimeout = 60"
definition kPingInterval :: "nat" where [const_defs]: "kPingInterval = 2 * 60"
definition kAdvertiseLocalInterval :: "nat" where [const_defs]: "kAdvertiseLocalInterval = 24 * 60 * 60"
definition kRelayAddrsInterval :: "nat" where [const_defs]: "kRelayAddrsInterval = 30"
definition kMaxTimedataSamples :: "nat" where [const_defs]: "kMaxTimedataSamples = 200"
definition kPeerHorizonDays :: "int" where [const_defs]: "kPeerHorizonDays = 30"
definition kPeerRetries :: "nat" where [const_defs]: "kPeerRetries = 3"
definition kMaxPeerFailures :: "nat" where [const_defs]: "kMaxPeerFailures = 10"
definition kMinPeerFailDays :: "int" where [const_defs]: "kMinPeerFailDays = 7"
definition kMaxGetaddrPct :: "nat" where [const_defs]: "kMaxGetaddrPct = 23"
definition kMaxGetaddrCount :: "nat" where [const_defs]: "kMaxGetaddrCount = 2500"
definition kDefaultBanscoreThreshold :: "u32" where [const_defs]: "kDefaultBanscoreThreshold = 100"

text \<open>\<^verbatim>\<open>msg_command\<close>: the command names, without the terminating zero.\<close>

definition kMsgVersion :: bytes where [cmd_defs]: "kMsgVersion = ascii ''version''"
definition kMsgVerack :: bytes where [cmd_defs]: "kMsgVerack = ascii ''verack''"
definition kMsgAddr :: bytes where [cmd_defs]: "kMsgAddr = ascii ''addr''"
definition kMsgInv :: bytes where [cmd_defs]: "kMsgInv = ascii ''inv''"
definition kMsgGetData :: bytes where [cmd_defs]: "kMsgGetData = ascii ''getdata''"
definition kMsgMerkleBlock :: bytes where [cmd_defs]: "kMsgMerkleBlock = ascii ''merkleblock''"
definition kMsgGetBlocks :: bytes where [cmd_defs]: "kMsgGetBlocks = ascii ''getblocks''"
definition kMsgGetHeaders :: bytes where [cmd_defs]: "kMsgGetHeaders = ascii ''getheaders''"
definition kMsgTx :: bytes where [cmd_defs]: "kMsgTx = ascii ''tx''"
definition kMsgHeaders :: bytes where [cmd_defs]: "kMsgHeaders = ascii ''headers''"
definition kMsgBlock :: bytes where [cmd_defs]: "kMsgBlock = ascii ''block''"
definition kMsgGetAddr :: bytes where [cmd_defs]: "kMsgGetAddr = ascii ''getaddr''"
definition kMsgMempool :: bytes where [cmd_defs]: "kMsgMempool = ascii ''mempool''"
definition kMsgPing :: bytes where [cmd_defs]: "kMsgPing = ascii ''ping''"
definition kMsgPong :: bytes where [cmd_defs]: "kMsgPong = ascii ''pong''"
definition kMsgNotFound :: bytes where [cmd_defs]: "kMsgNotFound = ascii ''notfound''"
definition kMsgFilterLoad :: bytes where [cmd_defs]: "kMsgFilterLoad = ascii ''filterload''"
definition kMsgFilterAdd :: bytes where [cmd_defs]: "kMsgFilterAdd = ascii ''filteradd''"
definition kMsgFilterClear :: bytes where [cmd_defs]: "kMsgFilterClear = ascii ''filterclear''"
definition kMsgReject :: bytes where [cmd_defs]: "kMsgReject = ascii ''reject''"
definition kMsgSendHeaders :: bytes where [cmd_defs]: "kMsgSendHeaders = ascii ''sendheaders''"
definition kMsgFeeFilter :: bytes where [cmd_defs]: "kMsgFeeFilter = ascii ''feefilter''"
definition kMsgSendCmpct :: bytes where [cmd_defs]: "kMsgSendCmpct = ascii ''sendcmpct''"
definition kMsgCmpctBlock :: bytes where [cmd_defs]: "kMsgCmpctBlock = ascii ''cmpctblock''"
definition kMsgGetBlockTxn :: bytes where [cmd_defs]: "kMsgGetBlockTxn = ascii ''getblocktxn''"
definition kMsgBlockTxn :: bytes where [cmd_defs]: "kMsgBlockTxn = ascii ''blocktxn''"

lemma kMaxSatoshiAmount_val: "kMaxSatoshiAmount = 2100000000000000"
  by (simp add: kMaxSatoshiAmount_def kSatoshiPerBitcoin_def)

end
