(* ===== verification/Circular_Buffer.thy ===== *)
theory Circular_Buffer
  imports Prelude
begin

text \<open>
  \<^verbatim>\<open>util::CircularBuffer\<close> (\<^verbatim>\<open>src/utility/include/circular_buffer.h\<close>): a ring of \<^verbatim>\<open>max_size_\<close>
  slots with a head and a tail index and a \<^verbatim>\<open>full_\<close> flag.  The locale \<open>bounded_fifo\<close> states the
  contract (a queue that keeps the last \<open>cap\<close> items); it is interpreted on the model of the code.
\<close>

record 'a cbuf =
  buf :: "'a list"
  head :: nat
  tail :: nat
  max_size :: nat
  full :: bool

text \<open>\<^verbatim>\<open>new T[max_size]\<close> leaves scalars unset: \<open>mem\<close> is what the allocation holds.\<close>

definition cb_new :: "'a list \<Rightarrow> 'a cbuf" where
  "cb_new mem = \<lparr>buf = mem, head = 0, tail = 0, max_size = length mem, full = False\<rparr>"

definition cb_empty :: "'a cbuf \<Rightarrow> bool" where
  "cb_empty b = (\<not> full b \<and> head b = tail b)"

definition cb_size :: "'a cbuf \<Rightarrow> nat" where
  "cb_size b =
     (if full b then max_size b
      else if head b \<le> tail b then tail b - head b
      else tail b + max_size b - head b)"

definition cb_clear :: "'a cbuf \<Rightarrow> 'a cbuf" where
  "cb_clear b = b\<lparr>head := tail b, full := False\<rparr>"

text \<open>The store is out of bounds and the remainder undefined when \<^verbatim>\<open>max_size_\<close> is 0.\<close>

definition cb_push_back :: "'a \<Rightarrow> 'a cbuf \<Rightarrow> 'a cbuf res" where
  "cb_push_back x b =
     (if max_size b = 0 then Inl Undefined
      else let h = (if full b then (head b + 1) mod max_size b else head b);
               t = (tail b + 1) mod max_size b
           in Inr (b\<lparr>buf := (buf b)[tail b := x], head := h, tail := t, full := (h = t)\<rparr>))"

text \<open>\<open>dflt\<close> is the value \<^verbatim>\<open>T()\<close>.\<close>

definition cb_pop_front :: "'a \<Rightarrow> 'a cbuf \<Rightarrow> 'a \<times> 'a cbuf" where
  "cb_pop_front dflt b =
     (if cb_empty b then (dflt, b)
      else (buf b ! head b, b\<lparr>head := (head b + 1) mod max_size b, full := False\<rparr>))"

definition cb_at :: "nat \<Rightarrow> 'a cbuf \<Rightarrow> 'a res" where
  "cb_at n b = (if n \<ge> cb_size b then Inl OutOfRange else Inr (buf b ! ((head b + n) mod max_size b)))"

text \<open>\<^verbatim>\<open>exist\<close> looks at the slots from 0 up to the size, wherever the head is.\<close>

definition cb_exist :: "'a \<Rightarrow> 'a cbuf \<Rightarrow> bool" where
  "cb_exist x b = (x \<in> set (take (cb_size b) (buf b)))"

definition cb_inv :: "'a cbuf \<Rightarrow> bool" where
  [inv_defs]: "cb_inv b =
     (length (buf b) = max_size b \<and> 0 < max_size b \<and> head b < max_size b \<and> tail b < max_size b \<and>
      (if full b then head b = tail b else True))"

definition cb_contents :: "'a cbuf \<Rightarrow> 'a list" where
  "cb_contents b = map (\<lambda>i. buf b ! ((head b + i) mod max_size b)) [0..<cb_size b]"

subsection \<open>The contract of a bounded queue\<close>

text \<open>A client's sequence of calls, run on an implementation, and the queue it should see.\<close>

datatype 'a cop = PushBack 'a | PopFront

fun queue_run ::
  "('a \<Rightarrow> 's \<Rightarrow> 's res) \<Rightarrow> ('a \<Rightarrow> 's \<Rightarrow> 'a \<times> 's) \<Rightarrow> 'a \<Rightarrow> 'a cop list \<Rightarrow> 's \<Rightarrow> ('a list \<times> 's) res" where
  "queue_run push pop d [] s = Inr ([], s)"
| "queue_run push pop d (PushBack x # ops) s = res_bind (push x s) (queue_run push pop d ops)"
| "queue_run push pop d (PopFront # ops) s =
     res_bind (queue_run push pop d ops (snd (pop d s))) (\<lambda>(outs, s'). Inr (fst (pop d s) # outs, s'))"

fun fifo_run :: "nat \<Rightarrow> 'a \<Rightarrow> 'a cop list \<Rightarrow> 'a list \<Rightarrow> 'a list \<times> 'a list" where
  "fifo_run n d [] q = ([], q)"
| "fifo_run n d (PushBack x # ops) q = fifo_run n d ops (last_n n (q @ [x]))"
| "fifo_run n d (PopFront # ops) q =
     (let (outs, q') = fifo_run n d ops (tl q) in ((case q of [] \<Rightarrow> d | x # _ \<Rightarrow> x) # outs, q'))"

locale bounded_fifo =
  fixes push :: "'a \<Rightarrow> 's \<Rightarrow> 's res"
    and pop :: "'a \<Rightarrow> 's \<Rightarrow> 'a \<times> 's"
    and abs :: "'s \<Rightarrow> 'a list"
    and inv :: "'s \<Rightarrow> bool"
    and cap :: "'s \<Rightarrow> nat"
  assumes push_ok: "inv s \<Longrightarrow> \<exists>s'. push x s = Inr s' \<and> inv s' \<and> cap s' = cap s \<and>
                      abs s' = last_n (cap s) (abs s @ [x])"
    and pop_ok: "inv s \<Longrightarrow> inv (snd (pop d s)) \<and> cap (snd (pop d s)) = cap s \<and>
                      abs (snd (pop d s)) = tl (abs s)"
    and pop_val: "inv s \<Longrightarrow> fst (pop d s) = (case abs s of [] \<Rightarrow> d | x # _ \<Rightarrow> x)"
    and within: "inv s \<Longrightarrow> length (abs s) \<le> cap s"
begin

lemma run_refines:
  "inv s \<Longrightarrow> \<exists>outs s'. queue_run push pop d ops s = Inr (outs, s') \<and> inv s' \<and>
     fifo_run (cap s) d ops (abs s) = (outs, abs s')"
proof (induction ops arbitrary: s)
  case (Cons op ops)
  show ?case
  proof (cases op)
    case (PushBack x)
    obtain s1 where "push x s = Inr s1" "inv s1" "cap s1 = cap s" "abs s1 = last_n (cap s) (abs s @ [x])"
      using push_ok[OF Cons.prems] by blast
    then show ?thesis using Cons.IH[of s1] PushBack by simp
  next
    case PopFront
    then show ?thesis
      using Cons.IH[of "snd (pop d s)"] pop_ok[OF Cons.prems, of d] pop_val[OF Cons.prems, of d]
      by fastforce
  qed
qed simp

end

subsection \<open>The ring implements the contract\<close>

lemma cb_size_le: "cb_inv b \<Longrightarrow> cb_size b \<le> max_size b"
  by (auto simp: cb_inv_def cb_size_def)

lemma length_cb_contents [simp]: "length (cb_contents b) = cb_size b"
  by (simp add: cb_contents_def)

lemma cb_new_inv: "mem \<noteq> [] \<Longrightarrow> cb_inv (cb_new mem)"
  by (simp add: cb_inv_def cb_new_def)

lemma wrap_mod: "h < m \<Longrightarrow> i \<le> m \<Longrightarrow> (h + i) mod m = (if h + i < m then h + i else h + i - m)" for m :: nat
  by (auto simp: mod_if)

lemma cb_tail: "cb_inv b \<Longrightarrow> tail b = (head b + cb_size b) mod max_size b"
  by (auto simp: cb_inv_def cb_size_def)

lemma cb_size_less: "cb_inv b \<Longrightarrow> \<not> full b \<Longrightarrow> cb_size b < max_size b"
  by (auto simp: cb_inv_def cb_size_def)

lemma cb_empty_size: "cb_inv b \<Longrightarrow> cb_empty b \<longleftrightarrow> cb_size b = 0"
  by (auto simp: cb_inv_def cb_size_def cb_empty_def split: if_splits)

lemma cb_contents_nth: "i < cb_size b \<Longrightarrow> cb_contents b ! i = buf b ! ((head b + i) mod max_size b)"
  by (simp add: cb_contents_def)

text \<open>Two offsets below the capacity address different slots.\<close>

lemma slot_inj_le:
  assumes "(h + i) mod m = (h + j) mod m" "j \<le> i" "i < m" shows "i = (j::nat)"
proof -
  obtain q where "h + i = h + j + m * q" using assms(1,2) by (metis add_le_cancel_left mod_eq_nat1E)
  then show ?thesis using assms(3) by (cases q) auto
qed

lemma slot_inj: "i < m \<Longrightarrow> j < m \<Longrightarrow> (h + i) mod m = (h + j) mod m \<longleftrightarrow> i = j" for m :: nat
  by (metis slot_inj_le nat_le_linear)

lemma push_inv:
  assumes "cb_inv b" "cb_push_back x b = Inr b'"
  shows "cb_inv b'" "max_size b' = max_size b"
  using assms by (auto simp: cb_inv_def cb_push_back_def Let_def split: if_splits)

lemma push_size:
  assumes "cb_inv b" "cb_push_back x b = Inr b'"
  shows "cb_size b' = min (max_size b) (cb_size b + 1)"
  using assms
  by (auto simp: cb_inv_def cb_push_back_def cb_size_def Let_def mod_Suc min_def split: if_splits)

lemma push_contents:
  assumes inv: "cb_inv b" and p: "cb_push_back x b = Inr b'"
  shows "cb_contents b' = last_n (max_size b) (cb_contents b @ [x])"
proof (cases "full b")
  case True
  let ?m = "max_size b"
  have m: "0 < ?m" "length (buf b) = ?m" "head b < ?m" "tail b = head b" "cb_size b = ?m"
    using inv True by (auto simp: cb_inv_def cb_size_def)
  have b': "buf b' = (buf b)[head b := x]" "head b' = (head b + 1) mod ?m" "max_size b' = ?m"
      "cb_size b' = ?m"
    using p True m push_size[OF inv p] by (auto simp: cb_push_back_def Let_def)
  have "cb_contents b' = tl (cb_contents b) @ [x]"
  proof (rule nth_equalityI)
    fix i assume "i < length (cb_contents b')"
    then have i: "i < ?m" using b' by simp
    have slot: "((head b + 1) mod ?m + i) mod ?m = (head b + Suc i) mod ?m"
      by (simp add: mod_add_left_eq)
    show "cb_contents b' ! i = (tl (cb_contents b) @ [x]) ! i"
    proof (cases "Suc i = ?m")
      case True
      then show ?thesis using b' m i slot by (auto simp: cb_contents_nth nth_append)
    next
      case False
      then have "(head b + Suc i) mod ?m \<noteq> head b"
        using slot_inj[of "Suc i" ?m 0 "head b"] i m by auto
      then show ?thesis using False b' m i slot
        by (auto simp: cb_contents_nth nth_append nth_tl)
    qed
  qed (use b' m in auto)
  then show ?thesis using m by (simp add: last_n_snoc_full)
next
  case False
  let ?m = "max_size b"
  have m: "0 < ?m" "length (buf b) = ?m" "cb_size b < ?m" "tail b = (head b + cb_size b) mod ?m"
      "tail b < ?m"
    using inv cb_size_less[OF inv False] cb_tail[OF inv] by (auto simp: cb_inv_def)
  have b': "buf b' = (buf b)[tail b := x]" "head b' = head b" "max_size b' = ?m"
      "cb_size b' = cb_size b + 1"
    using p False m push_size[OF inv p] by (auto simp: cb_push_back_def Let_def)
  have "cb_contents b' ! i = (cb_contents b @ [x]) ! i" if "i < cb_size b'" for i
    using that b' m slot_inj[of i ?m "cb_size b" "head b"]
    by (auto simp: cb_contents_nth nth_append less_Suc_eq)
  then have "cb_contents b' = cb_contents b @ [x]" using b' by (intro nth_equalityI) auto
  then show ?thesis using m by simp
qed

lemma pop_facts:
  assumes inv: "cb_inv b"
  shows "cb_inv (snd (cb_pop_front d b))" "max_size (snd (cb_pop_front d b)) = max_size b"
    "cb_size (snd (cb_pop_front d b)) = cb_size b - 1"
    "fst (cb_pop_front d b) = (case cb_contents b of [] \<Rightarrow> d | x # _ \<Rightarrow> x)"
proof -
  show "cb_inv (snd (cb_pop_front d b))" "max_size (snd (cb_pop_front d b)) = max_size b"
    using inv by (auto simp: cb_inv_def cb_pop_front_def)
  show "cb_size (snd (cb_pop_front d b)) = cb_size b - 1"
    using inv
    by (auto simp: cb_inv_def cb_pop_front_def cb_size_def cb_empty_def mod_Suc split: if_splits)
  show "fst (cb_pop_front d b) = (case cb_contents b of [] \<Rightarrow> d | x # _ \<Rightarrow> x)"
  proof (cases "cb_size b")
    case 0
    then show ?thesis using inv by (simp add: cb_pop_front_def cb_empty_size cb_contents_def)
  next
    case (Suc n)
    then have "cb_contents b = buf b ! head b # tl (cb_contents b)"
      using inv by (auto simp: cb_contents_def upt_rec cb_inv_def)
    then show ?thesis using inv Suc by (metis cb_empty_size cb_pop_front_def fst_conv list.simps(5)
        nat.distinct(2))
  qed
qed

lemma pop_contents:
  assumes inv: "cb_inv b"
  shows "cb_contents (snd (cb_pop_front d b)) = tl (cb_contents b)"
proof (cases "cb_empty b")
  case True
  then show ?thesis using inv by (simp add: cb_pop_front_def cb_empty_size cb_contents_def)
next
  case False
  then have "head (snd (cb_pop_front d b)) = (head b + 1) mod max_size b"
      "buf (snd (cb_pop_front d b)) = buf b"
    by (auto simp: cb_pop_front_def)
  moreover have "((head b + 1) mod max_size b + i) mod max_size b = (head b + Suc i) mod max_size b" for i
    by (simp add: mod_add_left_eq)
  ultimately show ?thesis
    using pop_facts(2,3)[OF inv, of d]
    by (intro nth_equalityI) (auto simp: cb_contents_nth nth_tl)
qed

interpretation cb: bounded_fifo cb_push_back cb_pop_front cb_contents cb_inv max_size
proof unfold_locales
  fix s :: "'a cbuf" and x
  assume inv: "cb_inv s"
  then obtain s' where s': "cb_push_back x s = Inr s'" by (auto simp: cb_push_back_def cb_inv_def Let_def)
  then show "\<exists>s'. cb_push_back x s = Inr s' \<and> cb_inv s' \<and> max_size s' = max_size s \<and>
      cb_contents s' = last_n (max_size s) (cb_contents s @ [x])"
    using push_inv[OF inv s'] push_contents[OF inv s'] by blast
qed (auto simp: pop_facts pop_contents cb_size_le)

subsection \<open>Properties\<close>

lemma cb_new_contents [simp]: "cb_contents (cb_new mem) = []" "max_size (cb_new mem) = length mem"
  by (simp_all add: cb_contents_def cb_new_def cb_size_def)

text \<open>C6: Any sequence of \<^verbatim>\<open>push_back\<close> and \<^verbatim>\<open>pop_front\<close> calls on a new circular buffer of positive
  capacity runs without undefined behaviour and returns what a first-in first-out queue that keeps
  the last \<^verbatim>\<open>capacity\<close> items returns; the items left in the ring are those of the queue.\<close>
theorem cb_refines_bounded_queue:
  assumes "mem \<noteq> []"
  shows "\<exists>outs b. queue_run cb_push_back cb_pop_front d ops (cb_new mem) = Inr (outs, b) \<and> cb_inv b \<and>
    fifo_run (length mem) d ops [] = (outs, cb_contents b)"
  using cb.run_refines[OF cb_new_inv[OF assms], of d ops] by simp

lemma cb_refines_bounded_queue_witness:
  "\<exists>outs b. queue_run cb_push_back cb_pop_front 0 [PushBack 1, PushBack 2, PushBack 3, PopFront]
      (cb_new [0, 0 :: nat]) = Inr (outs, b) \<and> cb_inv b \<and> (outs, cb_contents b) = ([2], [3])"
  using cb_refines_bounded_queue[of "[0, 0 :: nat]" 0 "[PushBack 1, PushBack 2, PushBack 3, PopFront]"]
  by (simp add: last_n_def eq_commute)

lemma cb_at_contents:
  "cb_inv b \<Longrightarrow> cb_at n b = (if n < length (cb_contents b) then Inr (cb_contents b ! n) else Inl OutOfRange)"
  by (simp add: cb_at_def cb_contents_nth)

lemma cb_clear_contents: "cb_inv b \<Longrightarrow> cb_inv (cb_clear b) \<and> cb_contents (cb_clear b) = []"
  by (simp add: cb_inv_def cb_clear_def cb_contents_def cb_size_def)

lemma set_cb_contents_full:
  assumes "cb_inv b" "cb_size b = max_size b"
  shows "set (cb_contents b) = set (buf b)"
proof -
  let ?m = "max_size b"
  have "inj_on (\<lambda>i. (head b + i) mod ?m) {0..<?m}"
    by (auto simp: inj_on_def slot_inj)
  then have "(\<lambda>i. (head b + i) mod ?m) ` {0..<?m} = {0..<?m}"
    by (intro endo_inj_surj) (use assms in \<open>auto simp: cb_inv_def\<close>)
  moreover have "set (cb_contents b) = (!) (buf b) ` (\<lambda>i. (head b + i) mod ?m) ` {0..<?m}"
    unfolding cb_contents_def using assms(2) by (simp add: image_image)
  ultimately have "set (cb_contents b) = (!) (buf b) ` {0..<?m}" by (simp only:)
  also have "\<dots> = set (buf b)" using assms by (auto simp: cb_inv_def set_conv_nth)
  finally show ?thesis .
qed

text \<open>Membership by \<^verbatim>\<open>exist\<close> is membership in the queue as long as the ring is full or its head
  is at slot 0; after a pop it scans the wrong slots: it reports a removed item and misses a live
  one.\<close>
theorem cb_exist_only_unshifted:
  "(cb_inv b \<and> (full b \<or> head b = 0) \<longrightarrow> cb_exist x b = (x \<in> set (cb_contents b))) \<and>
   (\<exists>b'. queue_run cb_push_back cb_pop_front 0 [PushBack 1, PushBack 2, PopFront] (cb_new [0, 0, 0 :: nat])
        = Inr ([1], b') \<and> cb_contents b' = [2] \<and> cb_exist 1 b' \<and> \<not> cb_exist 2 b')"
proof
  show "cb_inv b \<and> (full b \<or> head b = 0) \<longrightarrow> cb_exist x b = (x \<in> set (cb_contents b))"
  proof
    assume a: "cb_inv b \<and> (full b \<or> head b = 0)"
    show "cb_exist x b = (x \<in> set (cb_contents b))"
    proof (cases "full b")
      case True
      then show ?thesis using a set_cb_contents_full[of b]
        by (auto simp: cb_exist_def cb_size_def cb_inv_def)
    next
      case False
      then have "cb_contents b = take (cb_size b) (buf b)"
        using a cb_size_less[of b]
        by (intro nth_equalityI) (auto simp: cb_contents_nth cb_inv_def)
      then show ?thesis by (simp add: cb_exist_def)
    qed
  qed
qed (simp add: cb_push_back_def cb_pop_front_def cb_new_def cb_empty_def cb_contents_def cb_size_def
    cb_exist_def Let_def)

lemma cb_exist_only_unshifted_witness:
  "let b = \<lparr>buf = [7::nat, 8], head = 1, tail = 1, max_size = 2, full = True\<rparr>
   in cb_exist 7 b = (7 \<in> set (cb_contents b))"
  using cb_exist_only_unshifted[of "\<lparr>buf = [7::nat, 8], head = 1, tail = 1, max_size = 2, full = True\<rparr>" 7]
  by (simp add: cb_inv_def)

end
