(* ===== verification/Endian.thy ===== *)
theory Endian
  imports Prelude
begin

text \<open>
  Byte order conversions, \<^verbatim>\<open>src/utility/include/util_endian.h\<close>.  The loops of the templates run
  \<^verbatim>\<open>sizeof(T)\<close> times, so the byte count is the first argument of the writers; each turn stores the
  low byte and shifts the value.
\<close>

fun to_little_endian :: "nat \<Rightarrow> 'a::len word \<Rightarrow> bytes" where
  "to_little_endian 0 w = []"
| "to_little_endian (Suc n) w = ucast w # to_little_endian n (drop_bit 8 w)"

fun to_big_endian :: "nat \<Rightarrow> 'a::len word \<Rightarrow> bytes" where
  "to_big_endian 0 w = []"
| "to_big_endian (Suc n) w = to_big_endian n (drop_bit 8 w) @ [ucast w]"

fun from_le_loop :: "nat \<Rightarrow> 'a::len word \<Rightarrow> bytes \<Rightarrow> 'a word" where
  "from_le_loop i out [] = out"
| "from_le_loop i out (b # bs) = from_le_loop (Suc i) (out OR push_bit (8 * i) (ucast b)) bs"

definition from_little_endian :: "bytes \<Rightarrow> 'a::len word" where
  "from_little_endian bs = from_le_loop 0 0 bs"

fun from_be_loop :: "'a::len word \<Rightarrow> bytes \<Rightarrow> 'a word" where
  "from_be_loop out [] = out"
| "from_be_loop out (b # bs) = from_be_loop (push_bit 8 out OR ucast b) bs"

definition from_big_endian :: "bytes \<Rightarrow> 'a::len word" where
  "from_big_endian bs = from_be_loop 0 bs"

text \<open>\<^verbatim>\<open>sizeof(T)\<close> of an integer of type \<open>'a word\<close>.\<close>

definition sizeof :: "'a::len itself \<Rightarrow> nat" where
  "sizeof t = LENGTH('a) div 8"

lemma sizeof_words [simp]:
  "sizeof TYPE(8) = 1" "sizeof TYPE(16) = 2" "sizeof TYPE(32) = 4" "sizeof TYPE(64) = 8"
  "sizeof TYPE(256) = 32"
  by (simp_all add: sizeof_def)

lemma length_to_little_endian [simp, size_simps]: "length (to_little_endian n w) = n"
  by (induction n arbitrary: w) auto

lemma length_to_big_endian [simp, size_simps]: "length (to_big_endian n w) = n"
  by (induction n arbitrary: w) auto

lemma from_le_loop_out:
  "from_le_loop i out bs = out OR from_le_loop i 0 bs"
proof (induction bs arbitrary: i out)
  case (Cons b bs)
  show ?case
    using Cons[of "Suc i" "out OR push_bit (8 * i) (ucast b)"] Cons[of "Suc i" "push_bit (8 * i) (ucast b)"]
    by (simp add: or.assoc)
qed simp

lemma from_le_loop_to_little_endian:
  fixes w :: "'a::len word"
  shows "from_le_loop i (0 :: 'a word) (to_little_endian n w) = push_bit (8 * i) (take_bit (8 * n) w)"
proof (induction n arbitrary: i w)
  case (Suc n)
  have split: "push_bit (8 * i) (ucast (ucast w :: u8)) OR
      push_bit (8 * Suc i) (take_bit (8 * n) (drop_bit 8 w)) = push_bit (8 * i) (take_bit (8 * Suc n) w)"
  proof (rule bit_word_eqI)
    fix k assume k: "k < LENGTH('a)"
    show "bit (push_bit (8 * i) (ucast (ucast w :: u8)) OR
        push_bit (8 * Suc i) (take_bit (8 * n) (drop_bit 8 w))) k =
      bit (push_bit (8 * i) (take_bit (8 * Suc n) w)) k"
    proof (cases "k < 8 * i")
      case False
      then obtain j where "k = 8 * i + j" by (metis add_diff_inverse_nat)
      then show ?thesis using k by (cases "j < 8") (auto simp: bit_simps)
    qed (use k in \<open>auto simp: bit_simps\<close>)
  qed
  have "from_le_loop i (0 :: 'a word) (to_little_endian (Suc n) w) =
      push_bit (8 * i) (ucast (ucast w :: u8)) OR from_le_loop (Suc i) (0 :: 'a word) (to_little_endian n (drop_bit 8 w))"
    using from_le_loop_out by simp
  then show ?case by (simp only: Suc.IH split)
qed simp

lemma from_to_little_endian:
  fixes w :: "'a::len word"
  assumes "LENGTH('a) \<le> 8 * n"
  shows "from_little_endian (to_little_endian n w) = w"
proof -
  have "take_bit (8 * n) w = w"
    by (rule bit_word_eqI) (use assms in \<open>auto simp: bit_simps\<close>)
  then show ?thesis by (simp add: from_little_endian_def from_le_loop_to_little_endian)
qed

lemma bit_from_le_loop_low: "k < 8 * i \<Longrightarrow> \<not> bit (from_le_loop i (0 :: 'a::len word) bs) k"
proof (induction bs arbitrary: i)
  case (Cons b bs)
  have "from_le_loop i 0 (b # bs) = push_bit (8 * i) (ucast b) OR from_le_loop (Suc i) (0 :: 'a word) bs"
    using from_le_loop_out by simp
  then show ?case using Cons.prems Cons.IH[of "Suc i"] by (simp only:) (auto simp: bit_simps)
qed simp

lemma drop_from_le_loop:
  "8 * (i + length bs) \<le> LENGTH('a) \<Longrightarrow> 
   to_little_endian (length bs) (drop_bit (8 * i) (from_le_loop i (0 :: 'a::len word) bs)) = bs"
proof (induction bs arbitrary: i)
  case (Cons b bs)
  let ?r = "from_le_loop (Suc i) (0 :: 'a word) bs"
  have l: "from_le_loop i (0 :: 'a word) (b # bs) = push_bit (8 * i) (ucast b) OR ?r"
    using from_le_loop_out[of "Suc i" "push_bit (8 * i) (ucast b :: 'a word)" bs] by simp
  have "(ucast (drop_bit (8 * i) (push_bit (8 * i) (ucast b) OR ?r)) :: u8) = b"
  proof (rule bit_word_eqI)
    fix k assume "k < LENGTH(8)"
    then show "bit (ucast (drop_bit (8 * i) (push_bit (8 * i) (ucast b) OR ?r)) :: u8) k = bit b k"
      using Cons.prems bit_from_le_loop_low[of "8 * i + k" "Suc i" bs, where 'a='a]
      by (auto simp: bit_simps)
  qed
  moreover have "drop_bit (8 + 8 * i) (push_bit (8 * i) (ucast b) OR ?r) = drop_bit (8 * Suc i) ?r"
  proof (rule bit_word_eqI)
    fix k assume "k < LENGTH('a)"
    have "\<not> bit (push_bit (8 * i) (ucast b :: 'a word)) (8 + 8 * i + k)"
      by (auto simp: bit_simps dest: bit_imp_le_length)
    then show "bit (drop_bit (8 + 8 * i) (push_bit (8 * i) (ucast b) OR ?r)) k = bit (drop_bit (8 * Suc i) ?r) k"
      by (simp add: bit_drop_bit_eq bit_or_iff add.commute)
  qed
  ultimately show ?case using Cons.IH[of "Suc i"] Cons.prems l by (simp add: drop_bit_drop_bit add.commute)
qed simp

lemma to_from_little_endian:
  assumes "8 * length bs \<le> LENGTH('a)"
  shows "to_little_endian (length bs) (from_little_endian bs :: 'a::len word) = bs"
  using drop_from_le_loop[of 0 bs, where 'a='a] assms by (simp add: from_little_endian_def)

lemma unat_lt2p: "unat (w :: 'a::len word) < 2 ^ LENGTH('a)"
  by (rule unsigned_less)

text \<open>Shifts, masks and widening as arithmetic on the unsigned value.\<close>

lemma unat_drop_bit: "unat (drop_bit n w) = unat w div 2 ^ n" for w :: "'a::len word"
proof -
  have "unat (drop_bit n w) = drop_bit n (take_bit LENGTH('a) (unat w))" by (rule unsigned_drop_bit_eq)
  also have "\<dots> = unat w div 2 ^ n"
    by (simp only: drop_bit_eq_div take_bit_nat_eq_self[OF unat_lt2p])
  finally show ?thesis .
qed

lemma unat_take_bit: "unat (take_bit n w) = unat w mod 2 ^ n" for w :: "'a::len word"
proof -
  have "unat (take_bit n w) = take_bit n (unat w)" by (rule unsigned_take_bit_eq)
  then show ?thesis by (simp only: take_bit_eq_mod)
qed

lemma unat_and_mask: "unat (w AND mask n) = unat w mod 2 ^ n" for w :: "'a::len word"
  by (simp only: take_bit_eq_mask[symmetric] unat_take_bit)

lemma unat_push_bit: "unat (push_bit n w) = (unat w * 2 ^ n) mod 2 ^ LENGTH('a)" for w :: "'a::len word"
proof -
  have "unat (push_bit n w) = take_bit LENGTH('a) (push_bit n (unat w))" by (rule unsigned_push_bit_eq)
  then show ?thesis by (simp only: push_bit_eq_mult take_bit_eq_mod)
qed

lemma unat_ucast: "unat (ucast w :: 'b::len word) = unat w mod 2 ^ LENGTH('b)" for w :: "'a::len word"
proof -
  have "unat (ucast w :: 'b word) = take_bit LENGTH('b) (unat w)" by (rule unsigned_ucast_eq)
  then show ?thesis by (simp only: take_bit_eq_mod)
qed

lemma unat_ucast_up:
  fixes w :: "'a::len word"
  assumes "LENGTH('a) \<le> LENGTH('b::len)" shows "unat (ucast w :: 'b word) = unat w"
proof -
  have "unat w < 2 ^ LENGTH('b)"
    using unat_lt2p[of w] assms by (meson less_le_trans one_le_numeral power_increasing)
  then show ?thesis by (simp only: unat_ucast mod_less)
qed

lemma unat_or_disjoint:
  fixes x y :: "'a::len word"
  assumes "x AND y = 0" and "unat x + unat y < 2 ^ LENGTH('a)"
  shows "unat (x OR y) = unat x + unat y"
proof -
  have "x OR y = x + y" using word_plus_and_or[of x y] assms(1) by simp
  then show ?thesis using assms(2) by (simp only: unat_plus_if' if_True)
qed

lemma unat_or_push_bit:
  fixes x y :: "'a::len word"
  assumes "unat x < 2 ^ n" and "unat x + unat y * 2 ^ n < 2 ^ LENGTH('a)"
  shows "unat (x OR push_bit n y) = unat x + unat y * 2 ^ n"
proof -
  have "x = take_bit n x" using assms(1) by (simp only: word_unat_eq_iff unat_take_bit mod_less)
  then have "x AND push_bit n y = take_bit n x AND push_bit n y" by (simp only:)
  also have "\<dots> = 0" by (rule bit_word_eqI) (auto simp: bit_simps)
  finally have d: "x AND push_bit n y = 0" .
  have u: "unat (push_bit n y) = unat y * 2 ^ n" using assms(2) by (simp only: unat_push_bit) (rule mod_less, linarith)
  show ?thesis using unat_or_disjoint[OF d] assms(2) by (simp only: u)
qed

text \<open>Narrowing and widening back is the identity on values that fit.\<close>

lemma ucast_narrow_widen:
  fixes x :: "'a::len word"
  assumes "unat x < 2 ^ LENGTH('b::len)"
  shows "ucast (ucast x :: 'b word) = x"
proof -
  have "unat (ucast (ucast x :: 'b word) :: 'a word) = take_bit LENGTH('a) (take_bit LENGTH('b) (unat x))"
    by (subst unsigned_ucast_eq, subst unsigned_ucast_eq, rule refl)
  also have "\<dots> = unat x"
    using assms unat_lt2p[of x] by (simp add: take_bit_nat_eq_self del: take_bit_take_bit)
  finally show ?thesis by (simp only: word_unat_eq_iff)
qed

subsection \<open>Big endian\<close>

lemma from_be_loop_snoc: "from_be_loop out (bs @ [b]) = push_bit 8 (from_be_loop out bs) OR ucast b"
  by (induction bs arbitrary: out) auto

lemma take_bit_step:
  fixes w :: "'a::len word"
  shows "push_bit 8 (take_bit (8 * n) (drop_bit 8 w)) OR ucast (ucast w :: u8) = take_bit (8 * Suc n) w"
proof (rule bit_word_eqI)
  fix k assume k: "k < LENGTH('a)"
  show "bit (push_bit 8 (take_bit (8 * n) (drop_bit 8 w)) OR ucast (ucast w :: u8)) k =
      bit (take_bit (8 * Suc n) w) k"
  proof (cases "k < 8")
    case False
    then obtain j where "k = 8 + j" by (metis add_diff_inverse_nat)
    then show ?thesis using k by (auto simp: bit_simps)
  qed (use k in \<open>auto simp: bit_simps\<close>)
qed

lemma from_be_to_big_endian:
  "from_be_loop (0 :: 'a::len word) (to_big_endian n w) = take_bit (8 * n) w"
  by (induction n arbitrary: w) (use take_bit_step in \<open>auto simp: from_be_loop_snoc\<close>)

lemma to_big_endian_rev: "to_big_endian n w = rev (to_little_endian n w)"
  by (induction n arbitrary: w) auto

text \<open>The little and the big endian conversions of \<^verbatim>\<open>util_endian.h\<close> invert each other for an
  unsigned integer of any width that the byte count covers, and the two orders are mirror images.\<close>
theorem endian_roundtrip:
  fixes w :: "'a::len word"
  assumes "LENGTH('a) \<le> 8 * n"
  shows "from_little_endian (to_little_endian n w) = w \<and> from_big_endian (to_big_endian n w) = w \<and>
    to_big_endian n w = rev (to_little_endian n w)"
proof -
  have "take_bit (8 * n) w = w"
    by (rule bit_word_eqI) (use assms in \<open>auto simp: bit_simps\<close>)
  then have "from_big_endian (to_big_endian n w) = w"
    by (simp add: from_big_endian_def from_be_to_big_endian)
  then show ?thesis using assms by (simp add: from_to_little_endian to_big_endian_rev)
qed

lemma endian_roundtrip_witness:
  "from_little_endian (to_little_endian 4 (0xd9b4bef9 :: u32)) = (0xd9b4bef9 :: u32) \<and>
   to_little_endian 4 (0xd9b4bef9 :: u32) = [0xf9, 0xbe, 0xb4, 0xd9]"
  using endian_roundtrip[where n = 4 and w = "0xd9b4bef9 :: u32"]
  by (simp del: to_little_endian.simps to_big_endian.simps) code_simp

end
