(* ===== verification/Serialize.thy ===== *)
theory Serialize
  imports Constants Endian
begin

text \<open>
  The wire format: \<^verbatim>\<open>Serializer\<close> and \<^verbatim>\<open>Deserializer\<close> of \<^verbatim>\<open>src/utility/include/serialize.h\<close>, the
  byte source and sink of \<^verbatim>\<open>blob.h\<close> and \<^verbatim>\<open>MemoryStream\<close> of \<^verbatim>\<open>stream.h\<close>.  A writer is a function
  from a value to the bytes it appends, a reader takes the bytes left in the source.  The locale
  \<open>codec\<close> is the contract between a reader and its writer; every class of the protocol
  interprets it.
\<close>

subsection \<open>Byte source, byte sink and MemoryStream\<close>

text \<open>\<^verbatim>\<open>MemoryStream\<close>: one vector, a sink that appends to it, a source with its own position.\<close>

record mstream =
  vec :: bytes
  position :: nat

definition mstream_new :: mstream where
  "mstream_new = \<lparr>vec = [], position = 0\<rparr>"

definition sink_write :: "bytes \<Rightarrow> mstream \<Rightarrow> mstream" where
  "sink_write data s = s\<lparr>vec := vec s @ data\<rparr>"

definition mstream_clear :: "mstream \<Rightarrow> mstream" where
  "mstream_clear s = s\<lparr>vec := []\<rparr>"

definition mstream_size :: "mstream \<Rightarrow> nat" where
  "mstream_size s = length (vec s)"

text \<open>\<^verbatim>\<open>ContainerSource::read\<close>: the returned count (-1 at the end), the bytes stored into the
  caller's buffer and the source afterwards; it throws when the position is past the end.\<close>

definition source_read :: "nat \<Rightarrow> mstream \<Rightarrow> (int \<times> bytes \<times> mstream) res" where
  "source_read n s =
     (if position s > length (vec s) then Inl OutOfRange
      else if position s = length (vec s) then Inr (-1, [], s)
      else let amount = length (vec s) - position s;
               result = min n amount
           in Inr (int result, take result (drop (position s) (vec s)), s\<lparr>position := position s + result\<rparr>))"

text \<open>The bytes a source has left; the readers below work on these.\<close>

definition unread :: "mstream \<Rightarrow> bytes" where
  "unread s = drop (position s) (vec s)"

definition src_read :: "nat \<Rightarrow> bytes \<Rightarrow> int \<times> bytes \<times> bytes" where
  "src_read n s = (if s = [] then (-1, [], []) else (int (min n (length s)), take n s, drop n s))"

lemma source_read_unread:
  "position s \<le> length (vec s) \<Longrightarrow>
   \<exists>s'. source_read n s = Inr (fst (src_read n (unread s)), fst (snd (src_read n (unread s))), s') \<and>
        unread s' = snd (snd (src_read n (unread s))) \<and> position s' \<le> length (vec s') \<and> vec s' = vec s"
  by (auto simp: source_read_def src_read_def unread_def Let_def min_def add.commute)

lemma sink_write_unread: "position s \<le> length (vec s) \<Longrightarrow> unread (sink_write data s) = unread s @ data"
  by (simp add: sink_write_def unread_def)

subsection \<open>Writers\<close>

definition ser_write_data :: "'a::len word \<Rightarrow> bytes" where
  [ser_simps]: "ser_write_data x = to_little_endian (sizeof TYPE('a)) x"

definition ser_write_varint :: "u64 \<Rightarrow> bytes" where
  "ser_write_varint count =
     (if count < ucast kVarint16bits then ser_write_data (ucast count :: u8)
      else if count \<le> 0xffff then ser_write_data kVarint16bits @ ser_write_data (ucast count :: u16)
      else if count \<le> 0xffffffff then ser_write_data kVarint32bits @ ser_write_data (ucast count :: u32)
      else ser_write_data kVarint64bits @ ser_write_data count)"

text \<open>A \<^verbatim>\<open>std::string\<close>, an \<^verbatim>\<open>std::array\<close> of bytes, a vector of bytes and a vector of objects.\<close>

definition ser_write_string :: "bytes \<Rightarrow> bytes" where
  "ser_write_string s = ser_write_varint (of_nat (length s)) @ s"

definition ser_write_array :: "bytes \<Rightarrow> bytes" where
  "ser_write_array xs = xs"

definition ser_write_bytes :: "bytes \<Rightarrow> bytes" where
  "ser_write_bytes xs = ser_write_varint (of_nat (length xs)) @ xs"

definition ser_write_vec :: "('a \<Rightarrow> bytes) \<Rightarrow> 'a list \<Rightarrow> bytes" where
  "ser_write_vec enc xs = ser_write_varint (of_nat (length xs)) @ concat (map enc xs)"

definition VarIntSize :: "nat \<Rightarrow> nat" where
  "VarIntSize n = (if n < 0xfd then 1 else if n \<le> 0xffff then 3 else if n \<le> 0xffffffff then 5 else 9)"

subsection \<open>Readers\<close>

text \<open>\<^verbatim>\<open>SerReadData\<close> ignores the count of \<^verbatim>\<open>read\<close>: after a short read the rest of its local buffer is
  unset and the value indeterminate.\<close>

definition read_raw :: "nat \<Rightarrow> bytes \<Rightarrow> (bytes \<times> bytes) res" where
  "read_raw n s =
     (let (cnt, data, rest) = src_read n s in if length data < n then Inl Indeterminate else Inr (data, rest))"

definition ser_read_data :: "bytes \<Rightarrow> ('a::len word \<times> bytes) res" where
  "ser_read_data s =
     res_bind (read_raw (sizeof TYPE('a)) s) (\<lambda>(data, rest). Inr (from_little_endian data, rest))"

text \<open>
  What the language leaves open, as a parameter: \<open>cc\<close> is the compiled program.  \<^verbatim>\<open>SerReadVarInt\<close> reads 16 and 32
  bit sizes through a pointer into an unset 64 bit local whose high bytes keep what was there;
  \<open>uninit\<close> gives that word for each read (a function of the bytes left).  The overload of \<^verbatim>\<open>Deserialize\<close> for
  classes has no return statement: \<open>missing_return\<close> is \<open>None\<close> where flowing off its end is undefined, as the
  standard has it, or the number that the caller finds where the result should be.
\<close>

record compiler =
  uninit :: "bytes \<Rightarrow> u64"
  missing_return :: "bytes \<Rightarrow> u64 option"

definition overlay :: "nat \<Rightarrow> u64 \<Rightarrow> u64 \<Rightarrow> u64" where
  "overlay n old new = push_bit n (drop_bit n old) OR new"

definition ser_read_varint :: "compiler \<Rightarrow> bytes \<Rightarrow> (u64 \<times> bytes) res" where
  "ser_read_varint cc s =
     res_bind (ser_read_data s) (\<lambda>(count :: u8, s1).
     res_bind
      (if count < kVarint16bits then Inr (ucast count, s1)
       else if count = kVarint16bits then
         res_bind (ser_read_data s1) (\<lambda>(v :: u16, s2).
           let varint = overlay 16 (uninit cc s) (ucast v)
           in if varint < ucast kVarint16bits then Inl NonCanonical else Inr (varint, s2))
       else if count = kVarint32bits then
         res_bind (ser_read_data s1) (\<lambda>(v :: u32, s2).
           let varint = overlay 32 (uninit cc s) (ucast v)
           in if varint \<le> 0xffff then Inl NonCanonical else Inr (varint, s2))
       else
         res_bind (ser_read_data s1) (\<lambda>(varint :: u64, s2).
           if varint \<le> 0xffffffff then Inl NonCanonical else Inr (varint, s2)))
      (\<lambda>(varint, s3). if varint > of_nat kMaxVardataSize then Inl TooLarge else Inr (varint, s3)))"

text \<open>The string reader takes one character at a time and stops at a zero byte without taking the
  rest; at the end of the stream \<^verbatim>\<open>read\<close> leaves the local \<^verbatim>\<open>c\<close> as it was.\<close>

fun read_chars :: "nat \<Rightarrow> u8 option \<Rightarrow> bytes \<Rightarrow> (bytes \<times> bytes) res" where
  "read_chars 0 c s = Inr ([], s)"
| "read_chars (Suc n) c (b # s) =
     (if b = 0 then Inr ([], s)
      else res_bind (read_chars n (Some b) s) (\<lambda>(out, s'). Inr (b # out, s')))"
| "read_chars (Suc n) None [] = Inl Indeterminate"
| "read_chars (Suc n) (Some b) [] =
     res_bind (read_chars n (Some b) []) (\<lambda>(out, s'). Inr (b # out, s'))"

definition ser_read_string :: "compiler \<Rightarrow> bytes \<Rightarrow> (bytes \<times> bytes) res" where
  "ser_read_string cc s =
     res_bind (ser_read_varint cc s) (\<lambda>(size, s1). read_chars (unat size) None s1)"

fun read_n :: "(bytes \<Rightarrow> ('a \<times> bytes) res) \<Rightarrow> nat \<Rightarrow> bytes \<Rightarrow> ('a list \<times> bytes) res" where
  "read_n dec 0 s = Inr ([], s)"
| "read_n dec (Suc n) s =
     res_bind (dec s) (\<lambda>(x, s1). res_bind (read_n dec n s1) (\<lambda>(xs, s2). Inr (x # xs, s2)))"

text \<open>An array of \<open>n\<close> bytes (its length is part of the type), and the vectors.  A vector whose size
  passes \<^verbatim>\<open>kMaxBlockSize\<close> is read all the same; the code also requests a shutdown then, see
  \<open>vec_interrupts\<close>.\<close>

definition ser_read_array :: "nat \<Rightarrow> bytes \<Rightarrow> (bytes \<times> bytes) res" where
  "ser_read_array n s = read_n ser_read_data n s"

definition ser_read_bytes :: "compiler \<Rightarrow> bytes \<Rightarrow> (bytes \<times> bytes) res" where
  "ser_read_bytes cc s =
     res_bind (ser_read_varint cc s) (\<lambda>(count, s1). read_n ser_read_data (unat count) s1)"

definition vec_interrupts :: "u64 \<Rightarrow> nat \<Rightarrow> bool" where
  "vec_interrupts count elem_size = (unat (count * of_nat elem_size) > kMaxBlockSize)"

definition ser_read_vec ::
  "(compiler \<Rightarrow> bytes \<Rightarrow> ('a \<times> bytes) res) \<Rightarrow> compiler \<Rightarrow> bytes \<Rightarrow> ('a list \<times> bytes) res" where
  "ser_read_vec dec cc s =
     res_bind (ser_read_varint cc s) (\<lambda>(count, s1). read_n (dec cc) (unat count) s1)"

text \<open>The overload for classes: \<open>dec\<close> is the member function.  Vectors of objects read their elements through it and
  add up what it returns; passing \<^verbatim>\<open>kMaxBlockSize\<close> requests a shutdown and changes nothing else.\<close>

definition ser_read_class :: "(compiler \<Rightarrow> bytes \<Rightarrow> ('a \<times> bytes) res) \<Rightarrow> compiler \<Rightarrow> bytes \<Rightarrow> ('a \<times> bytes) res" where
  "ser_read_class dec cc s =
     res_bind (dec cc s) (\<lambda>r. case missing_return cc s of None \<Rightarrow> Inl Undefined | Some _ \<Rightarrow> Inr r)"

fun class_vec_interrupts ::
  "(compiler \<Rightarrow> bytes \<Rightarrow> ('a \<times> bytes) res) \<Rightarrow> compiler \<Rightarrow> nat \<Rightarrow> u64 \<Rightarrow> bytes \<Rightarrow> bool" where
  "class_vec_interrupts dec cc 0 acc s = False"
| "class_vec_interrupts dec cc (Suc n) acc s =
     (case ser_read_class dec cc s of Inl _ \<Rightarrow> False
      | Inr (_, s1) \<Rightarrow>
          let acc1 = acc + (case missing_return cc s of Some v \<Rightarrow> v | None \<Rightarrow> 0) in
          of_nat kMaxBlockSize < acc1 \<or> class_vec_interrupts dec cc n acc1 s1)"

text \<open>What a compiled program has to do for the readers to work: the unset local happens to hold zeros above the bytes
  that are read into it, and the function without a return statement returns.  Nothing guarantees it.\<close>

definition clean :: "compiler \<Rightarrow> bool" where
  "clean cc = (\<forall>s. drop_bit 16 (uninit cc s) = 0 \<and> missing_return cc s \<noteq> None)"

definition tidy :: compiler where
  "tidy = \<lparr>uninit = (\<lambda>_. 0), missing_return = (\<lambda>_. Some 0)\<rparr>"

definition standard :: "compiler \<Rightarrow> bool" where
  "standard cc = (\<forall>s. missing_return cc s = None)"

lemma clean_tidy [simp]: "clean tidy"
  by (simp add: clean_def tidy_def)

lemma ser_read_class_clean [simp]:
  assumes "clean cc"
  shows "ser_read_class dec cc s = dec cc s"
proof -
  obtain v where "missing_return cc s = Some v" using assms unfolding clean_def by blast
  then show ?thesis by (simp add: ser_read_class_def res_bind_def split: sum.split)
qed

lemma ser_read_class_standard: "standard cc \<Longrightarrow> ser_read_class dec cc s \<noteq> Inr r"
  by (simp add: ser_read_class_def standard_def res_bind_eq_Inr)

lemma overlay_clean:
  assumes "clean cc"
  shows "overlay 16 (uninit cc s) x = x" "overlay 32 (uninit cc s) x = x"
proof -
  have a: "drop_bit 16 (uninit cc s) = 0" using assms by (simp add: clean_def)
  then show "overlay 16 (uninit cc s) x = x" by (simp add: overlay_def)
  have "drop_bit (16 + 16) (uninit cc s) = drop_bit 16 (drop_bit 16 (uninit cc s))"
    by (simp only: drop_bit_drop_bit)
  moreover have "16 + 16 = (32::nat)" by simp
  ultimately have "drop_bit 32 (uninit cc s) = 0" by (simp only: a drop_bit_of_0)
  then show "overlay 32 (uninit cc s) x = x" by (simp add: overlay_def)
qed

subsection \<open>Contracts of readers and writers\<close>

text \<open>A reader that inverts its writer on the values \<open>ok\<close> and leaves the bytes that follow alone.\<close>

locale codec =
  fixes enc :: "'a \<Rightarrow> bytes"
    and dec :: "compiler \<Rightarrow> bytes \<Rightarrow> ('a \<times> bytes) res"
    and ok :: "'a \<Rightarrow> bool"
  assumes dec_enc: "clean cc \<Longrightarrow> ok x \<Longrightarrow> dec cc (enc x @ rest) = Inr (x, rest)"
begin

lemma enc_prefix_free: "ok x \<Longrightarrow> ok y \<Longrightarrow> enc x @ r = enc y @ r' \<Longrightarrow> x = y \<and> r = r'"
  by (metis Pair_inject clean_tidy dec_enc sum.inject(2))

lemma enc_inj: "ok x \<Longrightarrow> ok y \<Longrightarrow> enc x = enc y \<Longrightarrow> x = y"
  using enc_prefix_free[of x y "[]" "[]"] by simp

lemma dec_all: "clean cc \<Longrightarrow> ok x \<Longrightarrow> dec cc (enc x) = Inr (x, [])"
  using dec_enc[of cc x "[]"] by simp

lemma read_n_concat:
  "clean cc \<Longrightarrow> list_all ok xs \<Longrightarrow> read_n (dec cc) (length xs) (concat (map enc xs) @ rest) = Inr (xs, rest)"
  by (induction xs) (auto simp: dec_enc)

end

text \<open>A codec whose \<^verbatim>\<open>SerializedSize\<close> is the length of what it writes.\<close>

locale sized_codec = codec enc dec ok for enc :: "'a \<Rightarrow> bytes" and dec and ok +
  fixes sz :: "'a \<Rightarrow> nat"
  assumes enc_size: "ok x \<Longrightarrow> length (enc x) = sz x"
begin

lemma enc_vec_size: "list_all ok xs \<Longrightarrow> length (concat (map enc xs)) = (\<Sum>x\<leftarrow>xs. sz x)"
  by (induction xs) (auto simp: enc_size)

end

text \<open>A codec that accepts nothing but what it writes: decoding consumes the canonical encoding.\<close>

locale canon_codec = codec enc dec ok for enc :: "'a \<Rightarrow> bytes" and dec and ok +
  assumes dec_canon: "clean cc \<Longrightarrow> dec cc s = Inr (x, rest) \<Longrightarrow> s = enc x @ rest \<and> ok x"
begin

lemma dec_iff: "clean cc \<Longrightarrow> dec cc s = Inr (x, rest) \<longleftrightarrow> ok x \<and> s = enc x @ rest"
  using dec_canon dec_enc by blast

lemma read_n_canon:
  "clean cc \<Longrightarrow> read_n (dec cc) n s = Inr (xs, rest) \<Longrightarrow>
   s = concat (map enc xs) @ rest \<and> length xs = n \<and> list_all ok xs"
proof (induction n arbitrary: s xs)
  case (Suc n)
  from Suc.prems(2) obtain y s1 ys where
    y: "dec cc s = Inr (y, s1)" and ys: "read_n (dec cc) n s1 = Inr (ys, rest)" and xs: "xs = y # ys"
    by (auto simp: res_bind_eq_Inr split: prod.splits)
  show ?case using dec_canon[OF Suc.prems(1) y] Suc.IH[OF Suc.prems(1) ys] xs by simp
qed simp

end

text \<open>Reading through the overload for classes.\<close>

context canon_codec begin

lemma class_canon_codec: "canon_codec enc (ser_read_class dec) ok"
  by unfold_locales (simp_all add: dec_enc dec_canon)

end

subsection \<open>The primitive codecs\<close>

lemma read_raw_append: "length d = n \<Longrightarrow> read_raw n (d @ rest) = Inr (d, rest)"
  by (auto simp: read_raw_def src_read_def Let_def)

lemma read_raw_eq_Inr: "read_raw n s = Inr (d, rest) \<longleftrightarrow> length d = n \<and> s = d @ rest"
  using read_raw_append[of d n rest]
  by (auto simp: read_raw_def src_read_def split: if_splits)

text \<open>An integer whose width is a whole number of bytes.\<close>

lemma ser_read_write_data:
  fixes x :: "'a::len word"
  assumes "8 * sizeof TYPE('a) = LENGTH('a)"
  shows "ser_read_data (ser_write_data x @ rest) = Inr (x, rest)"
  using assms
  by (simp add: ser_read_data_def ser_write_data_def read_raw_append from_to_little_endian)

lemma ser_read_data_canon:
  assumes "8 * sizeof TYPE('a) = LENGTH('a)" and "ser_read_data s = Inr (x :: 'a::len word, rest)"
  shows "s = ser_write_data x @ rest"
proof -
  obtain d where "length d = sizeof TYPE('a)" "s = d @ rest" "x = from_little_endian d"
    using assms(2) by (auto simp: ser_read_data_def res_bind_eq_Inr read_raw_eq_Inr)
  then show ?thesis using assms(1) to_from_little_endian[of d, where 'a='a] by (simp add: ser_write_data_def)
qed

interpretation u8c: canon_codec ser_write_data "\<lambda>_. ser_read_data" "\<lambda>_ :: u8. True"
  by unfold_locales (simp_all add: ser_read_write_data ser_read_data_canon)

interpretation u16c: canon_codec ser_write_data "\<lambda>_. ser_read_data" "\<lambda>_ :: u16. True"
  by unfold_locales (simp_all add: ser_read_write_data ser_read_data_canon)

interpretation u32c: canon_codec ser_write_data "\<lambda>_. ser_read_data" "\<lambda>_ :: u32. True"
  by unfold_locales (simp_all add: ser_read_write_data ser_read_data_canon)

interpretation u64c: canon_codec ser_write_data "\<lambda>_. ser_read_data" "\<lambda>_ :: u64. True"
  by unfold_locales (simp_all add: ser_read_write_data ser_read_data_canon)

interpretation u8s: sized_codec ser_write_data "\<lambda>_. ser_read_data" "\<lambda>_ :: u8. True" "\<lambda>_. 1"
  by unfold_locales (simp add: ser_write_data_def)

interpretation u32s: sized_codec ser_write_data "\<lambda>_. ser_read_data" "\<lambda>_ :: u32. True" "\<lambda>_. 4"
  by unfold_locales (simp add: ser_write_data_def)

interpretation u64s: sized_codec ser_write_data "\<lambda>_. ser_read_data" "\<lambda>_ :: u64. True" "\<lambda>_. 8"
  by unfold_locales (simp add: ser_write_data_def)

lemma length_ser_write_data [simp, size_simps]: "length (ser_write_data (x :: 'a::len word)) = sizeof TYPE('a)"
  by (simp add: ser_write_data_def)

lemma ser_write_data_u8 [simp]: "ser_write_data (b :: u8) = [b]"
  by (simp add: ser_write_data_def)

lemma ser_read_data_u8 [simp]: "ser_read_data (b # s) = Inr (b :: u8, s)"
  using u8c.dec_enc[of tidy b s] by simp

lemma concat_bytes [simp]: "concat (map (ser_write_data :: u8 \<Rightarrow> bytes) xs) = xs"
  by (induction xs) auto

lemma concat_singles [simp]: "concat (map (\<lambda>b. [b]) xs) = xs"
  by (induction xs) auto

subsection \<open>Variable length integers\<close>

lemma varint_thresholds [simp]:
  "(ucast kVarint16bits :: u64) = 0xfd" "kVarint16bits = 0xfd" "kVarint32bits = 0xfe" "kVarint64bits = 0xff"
  by (simp_all add: const_defs)

lemma ser_read_data_append_u16: "ser_read_data (ser_write_data (x :: u16) @ rest) = Inr (x, rest)"
  by (simp add: ser_read_write_data)

lemma ser_read_data_append_u32: "ser_read_data (ser_write_data (x :: u32) @ rest) = Inr (x, rest)"
  by (simp add: ser_read_write_data)

lemma ser_read_data_append_u64: "ser_read_data (ser_write_data (x :: u64) @ rest) = Inr (x, rest)"
  by (simp add: ser_read_write_data)

lemmas read_append = ser_read_data_append_u16 ser_read_data_append_u32 ser_read_data_append_u64

lemma u64_less_unat: "x < y \<longleftrightarrow> unat x < unat y" "x \<le> y \<longleftrightarrow> unat x \<le> unat y" for x y :: u64
  by (simp_all add: word_less_nat_alt word_le_nat_alt)

definition varint_ok :: "u64 \<Rightarrow> bool" where
  "varint_ok n = (n \<le> of_nat kMaxVardataSize)"

lemma varint_max: "(of_nat kMaxVardataSize :: u64) = 0x02000000"
  by (simp add: kMaxVardataSize_def)

lemma varint_dec_enc:
  assumes cc: "clean cc" and ok: "varint_ok n"
  shows "ser_read_varint cc (ser_write_varint n @ rest) = Inr (n, rest)"
proof -
  have n: "n \<le> 0x02000000" "unat n \<le> 0x02000000"
    using ok by (simp_all add: varint_ok_def varint_max u64_less_unat)
  have max: "\<not> n > of_nat kMaxVardataSize" using n by (simp add: varint_max not_less)
  consider "n < 0xfd" | "\<not> n < 0xfd" "n \<le> 0xffff" | "\<not> n < 0xfd" "\<not> n \<le> 0xffff" "n \<le> 0xffffffff"
    using n by (auto simp: u64_less_unat)
  then show ?thesis
  proof cases
    case 1
    then have w: "ucast (ucast n :: u8) = n" by (intro ucast_narrow_widen) (simp add: u64_less_unat)
    have "(ucast n :: u8) < 0xfd"
      using 1 by (simp add: u64_less_unat word_less_nat_alt unsigned_ucast_eq take_bit_nat_eq_self)
    then show ?thesis using 1 max w
      by (simp add: ser_write_varint_def ser_read_varint_def)
  next
    case 2
    then have w: "ucast (ucast n :: u16) = n" by (intro ucast_narrow_widen) (simp add: u64_less_unat)
    then show ?thesis using 2 max
      by (simp add: ser_write_varint_def ser_read_varint_def read_append overlay_clean[OF cc] Let_def)
  next
    case 3
    then have w: "ucast (ucast n :: u32) = n" by (intro ucast_narrow_widen) (simp add: u64_less_unat)
    then show ?thesis using 3 max
      by (simp add: ser_write_varint_def ser_read_varint_def read_append overlay_clean[OF cc] Let_def)
  qed
qed

lemma ser_read_data_cases:
  "ser_read_data s = Inr (x :: u8, r) \<Longrightarrow> s = x # r"
  "ser_read_data s = Inr (y :: u16, r) \<Longrightarrow> s = ser_write_data y @ r"
  "ser_read_data s = Inr (z :: u32, r) \<Longrightarrow> s = ser_write_data z @ r"
  "ser_read_data s = Inr (u :: u64, r) \<Longrightarrow> s = ser_write_data u @ r"
  using u8c.dec_canon[of tidy s x r] by (simp_all add: ser_read_data_canon)

lemma varint_canon:
  assumes cc: "clean cc" and d: "ser_read_varint cc s = Inr (n, rest)"
  shows "s = ser_write_varint n @ rest \<and> varint_ok n"
proof -
  obtain c s1 where c: "ser_read_data s = Inr (c :: u8, s1)" and ok: "\<not> n > of_nat kMaxVardataSize"
    and rest: "(if c < kVarint16bits then Inr (ucast c, s1)
       else if c = kVarint16bits then
         res_bind (ser_read_data s1) (\<lambda>(v :: u16, s2).
           if (ucast v :: u64) < ucast kVarint16bits then Inl NonCanonical else Inr (ucast v, s2))
       else if c = kVarint32bits then
         res_bind (ser_read_data s1) (\<lambda>(v :: u32, s2).
           if (ucast v :: u64) \<le> 0xffff then Inl NonCanonical else Inr (ucast v, s2))
       else
         res_bind (ser_read_data s1) (\<lambda>(varint :: u64, s2).
           if varint \<le> 0xffffffff then Inl NonCanonical else Inr (varint, s2))) = Inr (n, rest)"
    using d unfolding ser_read_varint_def overlay_clean[OF cc] Let_def
    by (auto simp: res_bind_eq_Inr split: prod.splits if_splits)
  have s: "s = c # s1" using c by (rule ser_read_data_cases)
  consider "c < 0xfd" | "c = 0xfd" | "c = 0xfe" | "c = 0xff"
  proof -
    have "unat c < 256" using unat_lt2p[of c] by simp
    then show ?thesis using that by (force simp: word_less_nat_alt word_unat_eq_iff)
  qed
  then have "s = ser_write_varint n @ rest"
  proof cases
    case 1
    then have n: "n = ucast c" "rest = s1" using rest by auto
    have "n < 0xfd" using 1 by (simp add: n word_less_nat_alt unsigned_ucast_eq take_bit_nat_eq_self)
    moreover have "(ucast n :: u8) = c" unfolding n by (rule ucast_narrow_widen) (use unat_lt2p[of c] in simp)
    ultimately show ?thesis using s n by (simp add: ser_write_varint_def)
  next
    case 2
    then obtain v where v: "ser_read_data s1 = Inr (v :: u16, rest)" "n = ucast v" "\<not> n < 0xfd"
      using rest by (auto simp: res_bind_eq_Inr split: prod.splits if_splits)
    have "n \<le> 0xffff" using unat_lt2p[of v] by (simp add: v u64_less_unat unsigned_ucast_eq take_bit_nat_eq_self)
    moreover have "(ucast n :: u16) = v" unfolding v by (rule ucast_narrow_widen) (use unat_lt2p[of v] in simp)
    ultimately show ?thesis using s v ser_read_data_cases(2)[OF v(1)] 2 by (simp add: ser_write_varint_def)
  next
    case 3
    then obtain v where v: "ser_read_data s1 = Inr (v :: u32, rest)" "n = ucast v" "\<not> n \<le> 0xffff"
      using rest by (auto simp: res_bind_eq_Inr split: prod.splits if_splits)
    have "n \<le> 0xffffffff" using unat_lt2p[of v] by (simp add: v u64_less_unat unsigned_ucast_eq take_bit_nat_eq_self)
    moreover have "\<not> n < 0xfd" using v(3) by (simp add: u64_less_unat)
    moreover have "(ucast n :: u32) = v" unfolding v by (rule ucast_narrow_widen) (use unat_lt2p[of v] in simp)
    ultimately show ?thesis using s v ser_read_data_cases(3)[OF v(1)] 3 by (simp add: ser_write_varint_def)
  next
    case 4
    then have v: "ser_read_data s1 = Inr (n, rest)" "\<not> n \<le> 0xffffffff"
      using rest by (auto simp: res_bind_eq_Inr split: prod.splits if_splits)
    then have "\<not> n < 0xfd" "\<not> n \<le> 0xffff" by (auto simp: u64_less_unat)
    then show ?thesis using s v ser_read_data_cases(4)[OF v(1)] 4 by (simp add: ser_write_varint_def)
  qed
  then show ?thesis using ok by (simp add: varint_ok_def not_less)
qed

interpretation varint: canon_codec ser_write_varint ser_read_varint varint_ok
  by unfold_locales (use varint_dec_enc varint_canon in blast)+

lemma varint_size [simp, size_simps]: "length (ser_write_varint n) = VarIntSize (unat n)"
  by (simp add: ser_write_varint_def VarIntSize_def u64_less_unat)

interpretation varint_s: sized_codec ser_write_varint ser_read_varint varint_ok "\<lambda>n. VarIntSize (unat n)"
  by unfold_locales simp

subsection \<open>Arrays, vectors and strings\<close>

lemma read_n_bytes:
  "read_n ser_read_data n s = (if length s < n then Inl Indeterminate else Inr (take n s :: bytes, drop n s))"
proof (induction n arbitrary: s)
  case (Suc n)
  then show ?case
  proof (cases s)
    case Nil
    then show ?thesis by (simp add: ser_read_data_def read_raw_def src_read_def)
  qed auto
qed simp

lemma read_array_append: "length d = n \<Longrightarrow> ser_read_array n (d @ rest) = Inr (d, rest)"
  by (simp add: ser_read_array_def read_n_bytes)

lemma read_array_eq_Inr: "ser_read_array n s = Inr (d, rest) \<longleftrightarrow> length d = n \<and> s = d @ rest"
  by (auto simp: ser_read_array_def read_n_bytes)

text \<open>A 256 bit hash is \<^verbatim>\<open>std::array<uint8_t, 32>\<close>.\<close>

definition hash_ok :: "bytes \<Rightarrow> bool" where
  "hash_ok h = (length h = kHashSize)"

interpretation hash: canon_codec ser_write_array "\<lambda>_. ser_read_array kHashSize" hash_ok
  by unfold_locales (auto simp: ser_write_array_def hash_ok_def read_array_append read_array_eq_Inr)

interpretation hash_s: sized_codec ser_write_array "\<lambda>_. ser_read_array kHashSize" hash_ok "\<lambda>_. kHashSize"
  by unfold_locales (simp add: ser_write_array_def hash_ok_def)

definition len_ok :: "'a list \<Rightarrow> bool" where
  "len_ok xs = (length xs \<le> kMaxVardataSize)"

lemma count_varint:
  "n \<le> kMaxVardataSize \<Longrightarrow> varint_ok (of_nat n)"
  "n \<le> kMaxVardataSize \<Longrightarrow> unat (of_nat n :: u64) = n"
  by (simp_all add: varint_ok_def u64_less_unat unat_of_nat kMaxVardataSize_def)

lemma len_ok_varint [simp]:
  "len_ok xs \<Longrightarrow> varint_ok (of_nat (length xs))" "len_ok xs \<Longrightarrow> unat (of_nat (length xs) :: u64) = length xs"
  by (simp_all add: len_ok_def count_varint)

lemma varint_count:
  "varint_ok n \<Longrightarrow> length xs = unat n \<Longrightarrow> len_ok xs \<and> n = of_nat (length xs)"
  by (simp add: len_ok_def varint_ok_def varint_max u64_less_unat kMaxVardataSize_def)

interpretation varbytes: canon_codec ser_write_bytes ser_read_bytes len_ok
proof unfold_locales
  fix cc :: compiler and x rest :: bytes
  assume "clean cc" "len_ok x"
  then show "ser_read_bytes cc (ser_write_bytes x @ rest) = Inr (x, rest)"
    by (simp add: ser_read_bytes_def ser_write_bytes_def varint_dec_enc read_n_bytes)
next
  fix cc :: compiler and s x rest :: bytes
  assume j: "clean cc" and d: "ser_read_bytes cc s = Inr (x, rest)"
  then obtain n s1 where n: "ser_read_varint cc s = Inr (n, s1)" "read_n ser_read_data (unat n) s1 = Inr (x, rest)"
    by (auto simp: ser_read_bytes_def res_bind_eq_Inr)
  then have "length x = unat n" "s1 = x @ rest" by (auto simp: read_n_bytes split: if_splits)
  then show "s = ser_write_bytes x @ rest \<and> len_ok x"
    using varint_canon[OF j n(1)] varint_count[of n x] by (simp add: ser_write_bytes_def)
qed

interpretation varbytes_s: sized_codec ser_write_bytes ser_read_bytes len_ok
    "\<lambda>x. VarIntSize (length x) + length x"
  by unfold_locales (simp add: ser_write_bytes_def)

definition string_ok :: "bytes \<Rightarrow> bool" where
  "string_ok s = (len_ok s \<and> 0 \<notin> set s)"

lemma read_chars_append: "0 \<notin> set x \<Longrightarrow> read_chars (length x) c (x @ rest) = Inr (x, rest)"
  by (induction x arbitrary: c) auto

interpretation str: sized_codec ser_write_string ser_read_string string_ok
    "\<lambda>x. VarIntSize (length x) + length x"
proof unfold_locales
  fix cc :: compiler and x rest :: bytes
  assume "clean cc" "string_ok x"
  then show "ser_read_string cc (ser_write_string x @ rest) = Inr (x, rest)"
    by (simp add: ser_read_string_def ser_write_string_def varint_dec_enc read_chars_append string_ok_def)
qed (simp add: ser_write_string_def string_ok_def)

definition vec_ok :: "('a \<Rightarrow> bool) \<Rightarrow> 'a list \<Rightarrow> bool" where
  "vec_ok ok xs = (len_ok xs \<and> list_all ok xs)"

context codec begin

lemma vec_dec_enc:
  "clean cc \<Longrightarrow> vec_ok ok xs \<Longrightarrow> ser_read_vec dec cc (ser_write_vec enc xs @ rest) = Inr (xs, rest)"
  by (simp add: ser_read_vec_def ser_write_vec_def varint_dec_enc read_n_concat vec_ok_def)

lemma vec_codec: "codec (ser_write_vec enc) (ser_read_vec dec) (vec_ok ok)"
  by unfold_locales (rule vec_dec_enc)

end

context sized_codec begin

lemma vec_size:
  "vec_ok ok xs \<Longrightarrow> length (ser_write_vec enc xs) = VarIntSize (length xs) + (\<Sum>x\<leftarrow>xs. sz x)"
  by (simp add: ser_write_vec_def vec_ok_def enc_vec_size)

lemma vec_sized_codec:
  "sized_codec (ser_write_vec enc) (ser_read_vec dec) (vec_ok ok)
     (\<lambda>xs. VarIntSize (length xs) + (\<Sum>x\<leftarrow>xs. sz x))"
  by unfold_locales (simp_all add: vec_dec_enc vec_size)

end

context canon_codec begin

lemma vec_canon:
  assumes j: "clean cc" and d: "ser_read_vec dec cc s = Inr (xs, rest)"
  shows "s = ser_write_vec enc xs @ rest \<and> vec_ok ok xs"
proof -
  obtain n s1 where n: "ser_read_varint cc s = Inr (n, s1)" "read_n (dec cc) (unat n) s1 = Inr (xs, rest)"
    using d by (auto simp: ser_read_vec_def res_bind_eq_Inr)
  show ?thesis
    using read_n_canon[OF j n(2)] varint_canon[OF j n(1)] varint_count[of n xs]
    by (simp add: ser_write_vec_def vec_ok_def)
qed

lemma vec_canon_codec: "canon_codec (ser_write_vec enc) (ser_read_vec dec) (vec_ok ok)"
  by unfold_locales (simp_all add: vec_dec_enc vec_canon)

end

subsection \<open>Properties\<close>

text \<open>What an unset local that is not zero does: the value that was written and the high bytes of the local.\<close>

lemma overlay_eq:
  assumes "drop_bit k x = 0"
  shows "overlay k old x = x \<longleftrightarrow> drop_bit k old = 0"
proof
  assume e: "overlay k old x = x"
  have "drop_bit k (overlay k old x) = drop_bit k old" using assms
    by (simp add: overlay_def bit_eq_iff bit_simps) (auto simp: bit_eq_iff bit_simps dest: bit_imp_le_length)
  then show "drop_bit k old = 0" using e assms by simp
qed (simp add: overlay_def)

lemma drop_bit_ucast: "drop_bit 16 (ucast (x :: u16) :: u64) = 0" "drop_bit 32 (ucast (y :: u32) :: u64) = 0"
  by (auto simp: bit_eq_iff bit_simps dest: bit_imp_le_length)

lemma written_read_back:
  assumes "varint_ok n" and s_def: "s = ser_write_varint n @ rest"
  shows "ser_read_varint cc s = Inr (n, rest) \<longleftrightarrow> n < 0xfd \<or> drop_bit (if n \<le> 0xffff then 16 else 32) (uninit cc s) = 0"
proof -
  have n: "n \<le> 0x02000000" "unat n \<le> 0x02000000"
    using assms(1) by (simp_all add: varint_ok_def varint_max u64_less_unat)
  have max: "\<not> n > of_nat kMaxVardataSize" using n by (simp add: varint_max not_less)
  consider "n < 0xfd" | "\<not> n < 0xfd" "n \<le> 0xffff" | "\<not> n < 0xfd" "\<not> n \<le> 0xffff" "n \<le> 0xffffffff"
    using n by (auto simp: u64_less_unat)
  then show ?thesis
  proof cases
    case 1
    then have w: "ucast (ucast n :: u8) = n" by (intro ucast_narrow_widen) (simp add: u64_less_unat)
    have "(ucast n :: u8) < 0xfd"
      using 1 by (simp add: u64_less_unat word_less_nat_alt unsigned_ucast_eq take_bit_nat_eq_self)
    then show ?thesis using 1 max w by (simp add: s_def ser_write_varint_def ser_read_varint_def)
  next
    case 2
    then have w: "ucast (ucast n :: u16) = n" by (intro ucast_narrow_widen) (simp add: u64_less_unat)
    have d: "drop_bit 16 n = 0" using w by (metis drop_bit_ucast(1))
    have "ser_read_varint cc s = Inr (n, rest) \<longleftrightarrow> overlay 16 (uninit cc s) n = n"
      using 2 max w by (auto simp: s_def ser_write_varint_def ser_read_varint_def read_append Let_def)
    then show ?thesis using 2 overlay_eq[OF d] by simp
  next
    case 3
    then have w: "ucast (ucast n :: u32) = n" by (intro ucast_narrow_widen) (simp add: u64_less_unat)
    have d: "drop_bit 32 n = 0" using w by (metis drop_bit_ucast(2))
    have "ser_read_varint cc s = Inr (n, rest) \<longleftrightarrow> overlay 32 (uninit cc s) n = n"
      using 3 max w by (auto simp: s_def ser_write_varint_def ser_read_varint_def read_append Let_def)
    then show ?thesis using 3 overlay_eq[OF d] by simp
  qed
qed

text \<open>C8: Reading back a variable length integer that \<^verbatim>\<open>SerWriteVarInt\<close> wrote succeeds if and only if it has one byte or
  the unset local of \<^verbatim>\<open>SerReadVarInt\<close> happens to hold zeros above the 16 or 32 bits read into it; and
  when it always does, a read succeeds on nothing but what \<^verbatim>\<open>SerWriteVarInt\<close> writes for a size up to
  \<^verbatim>\<open>kMaxVardataSize\<close>, of \<^verbatim>\<open>VarIntSize\<close> bytes.\<close>
theorem varint_read_iff_written:
  "(unat n \<le> kMaxVardataSize \<longrightarrow>
     (ser_read_varint cc (ser_write_varint n @ rest) = Inr (n, rest) \<longleftrightarrow>
      n < 0xfd \<or> drop_bit (if n \<le> 0xffff then 16 else 32) (uninit cc (ser_write_varint n @ rest)) = 0)) \<and>
   (clean cc \<longrightarrow>
     (ser_read_varint cc s = Inr (n, rest) \<longleftrightarrow>
      unat n \<le> kMaxVardataSize \<and> s = ser_write_varint n @ rest \<and> length s = VarIntSize (unat n) + length rest))"
  using varint.dec_iff[of cc s n rest] written_read_back[of n _ rest cc, OF _ refl]
  by (auto simp: varint_ok_def varint_max u64_less_unat kMaxVardataSize_def)

text \<open>A local that holds a one above bit 25 makes the reader refuse the size 256 as too large.\<close>

definition untidy :: compiler where
  "untidy = tidy\<lparr>uninit := (\<lambda>_. 0x100000000000)\<rparr>"

lemma varint_read_iff_written_witness:
  "ser_read_varint tidy [0xfd, 0x00, 0x01, 7] = Inr (0x100, [7]) \<and>
   ser_read_varint untidy (ser_write_varint 0x100 @ [7]) \<noteq> Inr (0x100, [7]) \<and>
   ser_read_varint untidy (ser_write_varint 0xfc @ [7]) = Inr (0xfc, [7])"
proof -
  have "[0xfd, 0x00, 0x01, 7] = ser_write_varint 0x100 @ [7 :: u8]" by (simp add: ser_write_varint_def ser_simps) code_simp
  then show ?thesis
    using varint_read_iff_written[of "0x100" tidy "[7]" "[0xfd, 0x00, 0x01, 7]"]
      varint_read_iff_written[of "0x100" untidy "[7]" "[]"] varint_read_iff_written[of "0xfc" untidy "[7]" "[]"]
    by (simp add: kMaxVardataSize_def untidy_def VarIntSize_def)
qed

theorem varint_uninitialised_local:
  "ser_read_varint untidy (ser_write_varint 0x100 @ rest) = Inl TooLarge \<and>
   ser_read_varint untidy (ser_write_varint 0x10000 @ rest) = Inl TooLarge \<and>
   ser_read_varint untidy (ser_write_varint 0xfc @ rest) = Inr (0xfc, rest)"
  by (simp_all add: ser_write_varint_def ser_read_varint_def read_append overlay_def varint_max Let_def untidy_def)

lemma read_chars_zero: "0 \<notin> set x \<Longrightarrow> read_chars (Suc (length x + n)) d (x @ 0 # r) = Inr (x, r)"
  by (induction x arbitrary: d) auto

lemma read_chars_end: "c \<noteq> 0 \<Longrightarrow> read_chars k (Some c) [] = Inr (replicate k c, [])"
  by (induction k) auto

lemma read_chars_cut:
  "0 \<notin> set x \<Longrightarrow> c \<noteq> 0 \<Longrightarrow> read_chars (Suc (length x + k)) d (x @ [c]) = Inr (x @ c # replicate k c, [])"
  by (induction x arbitrary: d) (auto simp: read_chars_end)

text \<open>A \<^verbatim>\<open>std::string\<close> is read back only up to its first zero byte: the reader stops there and
  leaves the bytes after the zero in the stream for the next field; and a string cut short by the
  end of the stream is filled up with copies of its last character.\<close>
theorem string_reader_stops_and_pads:
  assumes "0 \<notin> set x" and "c \<noteq> 0" and "length x + length y + k < kMaxVardataSize" and "clean cc"
  shows "ser_read_string cc (ser_write_string (x @ 0 # y) @ rest) = Inr (x, y @ rest) \<and>
    ser_read_string cc (ser_write_varint (of_nat (length x + 1 + k)) @ x @ [c])
       = Inr (x @ c # replicate k c, [])"
  using assms read_chars_zero[OF assms(1), of "length y" None "y @ rest"]
    read_chars_cut[OF assms(1,2), of k None] count_varint[of "Suc (length x + length y)"]
    count_varint[of "Suc (length x + k)"]
  by (simp_all add: ser_read_string_def ser_write_string_def varint_dec_enc del: of_nat_Suc of_nat_add)

lemma string_reader_stops_and_pads_witness:
  "ser_read_string tidy (ser_write_string [65, 0, 66] @ [1]) = Inr ([65], [66, 1])"
  using string_reader_stops_and_pads[where x = "[65]" and y = "[66]" and rest = "[1]" and c = 67
      and k = 0 and cc = tidy]
  by (simp add: kMaxVardataSize_def)

text \<open>A memory stream hands back what was written to it in the order of writing: reads of given
  sizes return consecutive pieces, whatever is appended in between; after \<^verbatim>\<open>Clear\<close> the position
  stays, and a read throws if anything had been read before.\<close>
theorem mstream_fifo:
  assumes "position s \<le> length (vec s)" and "n \<le> length (unread s)" and "unread s \<noteq> []"
  shows "(\<exists>s'. source_read n (sink_write data s) = Inr (int n, take n (unread s), s') \<and>
        unread s' = drop n (unread s) @ data \<and> position s' \<le> length (vec s')) \<and>
    source_read n (mstream_clear s) = (if 0 < position s then Inl OutOfRange else Inr (-1, [], mstream_clear s))"
  using assms
  by (auto simp: source_read_def sink_write_def unread_def mstream_clear_def Let_def min_def add.commute)

lemma mstream_fifo_witness:
  "source_read 2 (mstream_clear \<lparr>vec = [1, 2, 3], position = 1\<rparr>) = Inl OutOfRange"
  using mstream_fifo[where s = "\<lparr>vec = [1, 2, 3], position = 1\<rparr>" and n = 2] by (simp add: unread_def)

end
