(* ===== verification/Compact.thy ===== *)
theory Compact
  imports Endian
begin

text \<open>
  \<^verbatim>\<open>consensus::Compact\<close> (\<^verbatim>\<open>src/consensus/src/compact.cpp\<close>): the 32 bit floating point form of a
  256 bit target.  \<^verbatim>\<open>uint256_t\<close> is a 256 bit word whose shifts drop what leaves the word.  The
  abstract specification is \<open>compact_value\<close>, the number that a compact form denotes.
\<close>

record compact =
  normal :: u256
  compact_bits :: u32
  negative :: bool
  overflowed :: bool

lemma drop_bit_8_less: "w \<noteq> 0 \<Longrightarrow> unat (drop_bit 8 w) < unat w"
  by (simp add: unat_drop_bit unat_gt_0)

function LogicalSize :: "u256 \<Rightarrow> nat" where
  "LogicalSize value = (if value = 0 then 0 else Suc (LogicalSize (drop_bit 8 value)))"
  by auto
termination by (relation "measure unat") (auto simp: drop_bit_8_less)

declare LogicalSize.simps [simp del]

definition SetCompact :: "u32 \<Rightarrow> compact \<Rightarrow> compact" where
  "SetCompact c st =
     (let size = unat (drop_bit 24 c);
          word0 = c AND 0x007fffff;
          word = (if size \<le> 3 then drop_bit (8 * (3 - size)) word0 else word0)
      in st\<lparr>normal := (if size \<le> 3 then ucast word else push_bit (8 * (size - 3)) (ucast word)),
            negative := (word \<noteq> 0 \<and> c AND 0x00800000 \<noteq> 0),
            overflowed := (word \<noteq> 0 \<and> (size > 34 \<or> word > 0xff \<and> size > 33 \<or> word > 0xffff \<and> size > 32))\<rparr>)"

definition GetCompact :: "compact \<Rightarrow> compact res" where
  "GetCompact st =
     (let size0 = LogicalSize (normal st);
          c0 = (if size0 \<le> 3 then ucast (push_bit (8 * (3 - size0)) (ucast (normal st) :: u64))
                else ucast (ucast (drop_bit (8 * (size0 - 3)) (normal st)) :: u64)) :: u32;
          adj = (c0 AND 0x00800000 \<noteq> 0);
          c1 = (if adj then drop_bit 8 c0 else c0);
          size1 = (if adj then size0 + 1 else size0)
      in if c1 AND NOT 0x007fffff \<noteq> 0 then Inl Assertion
         else if \<not> size1 < 256 then Inl Assertion
         else Inr (st\<lparr>compact_bits := c1 OR ucast (push_bit 24 (of_nat size1 :: u64))\<rparr>))"

definition compact_init :: compact where
  "compact_init = \<lparr>normal = 0, compact_bits = 0, negative = False, overflowed = False\<rparr>"

definition Compact_of_bits :: "u32 \<Rightarrow> compact res" where
  "Compact_of_bits c = GetCompact (SetCompact c compact_init)"

definition Compact_of_normal :: "u256 \<Rightarrow> compact res" where
  "Compact_of_normal v = GetCompact (compact_init\<lparr>normal := v\<rparr>)"

text \<open>The number a compact form stands for, sign apart.\<close>

definition compact_value :: "u32 \<Rightarrow> nat" where
  "compact_value c = (unat c mod 2 ^ 23) * 256 ^ (unat c div 2 ^ 24) div 256 ^ 3"

subsection \<open>Decoding\<close>

lemma mask23: "(0x007fffff :: u32) = mask 23"
  by (simp add: mask_eq_exp_minus_1)

lemma pow256: "(256::nat) ^ n = 2 ^ (8 * n)"
  by (simp add: power_mult)

lemma SetCompact_normal:
  "unat (normal (SetCompact c st)) = compact_value c mod 2 ^ 256"
proof -
  let ?s = "unat c div 2 ^ 24" and ?w = "unat c mod 2 ^ 23"
  have s: "unat (drop_bit 24 c) = ?s" by (simp add: unat_drop_bit)
  have w: "unat (c AND 0x007fffff) = ?w" by (simp only: mask23 unat_and_mask)
  show ?thesis
  proof (cases "?s \<le> 3")
    case True
    have "?w * 256 ^ ?s div 256 ^ 3 = ?w div 2 ^ (8 * (3 - ?s))"
    proof -
      have "(256::nat) ^ 3 = 256 ^ (3 - ?s) * 256 ^ ?s"
        using True by (simp only: power_add[symmetric] le_add_diff_inverse2)
      then have "?w * 256 ^ ?s div 256 ^ 3 = ?w * 256 ^ ?s div (256 ^ (3 - ?s) * 256 ^ ?s)" by (simp only:)
      also have "\<dots> = ?w div 256 ^ (3 - ?s)" by (rule div_mult_mult2) simp
      finally have "?w * 256 ^ ?s div 256 ^ 3 = ?w div 256 ^ (3 - ?s)" .
      then show ?thesis by (simp only: pow256)
    qed
    moreover have "?w div 2 ^ (8 * (3 - ?s)) < 2 ^ 256"
      by (rule le_less_trans[OF div_le_dividend]) (rule less_trans[OF mod_less_divisor], simp_all)
    ultimately have "compact_value c mod 2 ^ 256 = ?w div 2 ^ (8 * (3 - ?s))"
      by (simp only: compact_value_def mod_less)
    moreover have "normal (SetCompact c st) = ucast (drop_bit (8 * (3 - ?s)) (c AND 0x007fffff))"
      using True by (simp add: SetCompact_def Let_def s del: drop_bit_and)
    moreover have "unat (ucast (drop_bit (8 * (3 - ?s)) (c AND 0x007fffff)) :: u256) = ?w div 2 ^ (8 * (3 - ?s))"
      by (subst unat_ucast_up, simp) (simp only: unat_drop_bit w)
    ultimately show ?thesis by (simp only:)
  next
    case False
    then have "3 \<le> ?s" by (simp only: not_le less_imp_le)
    then have "(256::nat) ^ ?s = 256 ^ (?s - 3) * 256 ^ 3"
      by (simp only: power_add[symmetric] le_add_diff_inverse2)
    then have "?w * 256 ^ ?s = (?w * 256 ^ (?s - 3)) * 256 ^ 3" by (simp only: mult.assoc)
    then have "?w * 256 ^ ?s div 256 ^ 3 = (?w * 256 ^ (?s - 3)) * 256 ^ 3 div 256 ^ 3" by (simp only:)
    also have "\<dots> = ?w * 256 ^ (?s - 3)" by (rule nonzero_mult_div_cancel_right) simp
    finally have "?w * 256 ^ ?s div 256 ^ 3 = ?w * 256 ^ (?s - 3)" .
    then have "compact_value c = ?w * 2 ^ (8 * (?s - 3))" by (simp only: compact_value_def pow256)
    then show ?thesis using False
      by (simp add: SetCompact_def Let_def s w unat_ucast_up unat_push_bit)
  qed
qed

lemma compact_value_large:
  assumes "3 < unat c div 2 ^ 24"
  shows "compact_value c = unat c mod 2 ^ 23 * 256 ^ (unat c div 2 ^ 24 - 3)"
proof -
  let ?s = "unat c div 2 ^ 24" and ?w = "unat c mod 2 ^ 23"
  have "(256::nat) ^ ?s = 256 ^ (?s - 3) * 256 ^ 3"
    using assms by (simp only: power_add[symmetric] le_add_diff_inverse2 less_imp_le)
  then have "?w * 256 ^ ?s = (?w * 256 ^ (?s - 3)) * 256 ^ 3" by (simp only: mult.assoc)
  then show ?thesis unfolding compact_value_def
    by (simp only: nonzero_mult_div_cancel_right power_not_zero numeral_eq_one_iff zero_neq_numeral[symmetric] not_False_eq_True)
qed

lemma SetCompact_overflow_large:
  assumes s: "3 < unat c div 2 ^ 24"
  shows "overflowed (SetCompact c st) \<longleftrightarrow>
    (let w = unat c mod 2 ^ 23; n = unat c div 2 ^ 24
     in w \<noteq> 0 \<and> (n > 34 \<or> w > 255 \<and> n > 33 \<or> w > 65535 \<and> n > 32))"
proof -
  have w: "unat (c AND 0x007fffff) = unat c mod 2 ^ 23" by (simp only: mask23 unat_and_mask)
  have n: "unat (drop_bit 24 c) = unat c div 2 ^ 24" by (rule unat_drop_bit)
  have z: "(c AND 0x007fffff = 0) = (unat c mod 2 ^ 23 = 0)" using w by (metis unat_0 unat_eq_zero)
  have g: "(0xff < c AND 0x007fffff) = (255 < unat c mod 2 ^ 23)" "(0xffff < c AND 0x007fffff) = (65535 < unat c mod 2 ^ 23)"
    unfolding word_less_nat_alt w by simp_all
  have "overflowed (SetCompact c st) \<longleftrightarrow> c AND 0x007fffff \<noteq> 0 \<and>
      (unat c div 2 ^ 24 > 34 \<or> 0xff < c AND 0x007fffff \<and> unat c div 2 ^ 24 > 33 \<or>
       0xffff < c AND 0x007fffff \<and> unat c div 2 ^ 24 > 32)"
    using s by (simp add: SetCompact_def Let_def n)
  then show ?thesis by (simp only: g z Let_def)
qed

lemma overflow_nat:
  fixes w n :: nat
  assumes "w < 2 ^ 23" "3 < n"
  shows "(w \<noteq> 0 \<and> (n > 34 \<or> w > 255 \<and> n > 33 \<or> w > 65535 \<and> n > 32)) \<longleftrightarrow> 256 ^ 32 \<le> w * 256 ^ (n - 3)"
proof -
  consider "n > 34" | "n = 34" | "n = 33" | "n \<le> 32" by linarith
  then show ?thesis
  proof cases
    case 1
    then have "(256::nat) ^ 32 \<le> 256 ^ (n - 3)" by (intro power_increasing) auto
    then have "w \<noteq> 0 \<Longrightarrow> 256 ^ 32 \<le> w * 256 ^ (n - 3)" by (metis One_nat_def Suc_leI mult_le_mono nat_mult_1 not_gr_zero)
    then show ?thesis using 1 by (cases w) auto
  next
    case 2 then show ?thesis by auto
  next
    case 3 then show ?thesis by auto
  next
    case 4
    then have "(256::nat) ^ (n - 3) \<le> 256 ^ 29" by (intro power_increasing) auto
    then have "w * 256 ^ (n - 3) < 2 ^ 23 * 256 ^ 29" using assms(1)
      by (meson mult_le_less_imp_less mult_less_le_imp_less zero_le zero_less_power le_less_trans mult_le_mono2 mult_less_mono1 zero_less_numeral less_le_trans)
    then show ?thesis using 4 by auto
  qed
qed

lemma compact_value_small:
  assumes "unat c div 2 ^ 24 \<le> 3" shows "compact_value c < 2 ^ 23"
proof -
  have "(256::nat) ^ (unat c div 2 ^ 24) \<le> 256 ^ 3" using assms by (intro power_increasing) auto
  then have "compact_value c \<le> unat c mod 2 ^ 23 * 256 ^ 3 div 256 ^ 3"
    unfolding compact_value_def by (intro div_le_mono mult_le_mono2)
  also have "\<dots> = unat c mod 2 ^ 23" by (rule nonzero_mult_div_cancel_right) simp
  also have "\<dots> < 2 ^ 23" by simp
  finally show ?thesis .
qed

lemma overflow_flag_size:
  "overflowed (st\<lparr>normal := a, negative := b, overflowed := (P \<and> (n > 34 \<or> Q \<and> n > 33 \<or> R \<and> n > 32))\<rparr>)
   \<Longrightarrow> 32 < (n::nat)"
  by auto

lemma SetCompact_overflowed_size: "overflowed (SetCompact c st) \<Longrightarrow> 32 < unat (drop_bit 24 c)"
  unfolding SetCompact_def Let_def by (rule overflow_flag_size)

lemma SetCompact_overflow: "overflowed (SetCompact c st) \<longleftrightarrow> 256 ^ 32 \<le> compact_value c"
proof (cases "3 < unat c div 2 ^ 24")
  case True
  have w: "unat c mod 2 ^ 23 < 2 ^ 23" by (rule mod_less_divisor) simp
  show ?thesis
    by (simp only: SetCompact_overflow_large[OF True] overflow_nat[OF w True] Let_def compact_value_large[OF True])
next
  case False
  have "\<not> overflowed (SetCompact c st)"
  proof
    assume "overflowed (SetCompact c st)"
    then have "32 < unat (drop_bit 24 c)" by (rule SetCompact_overflowed_size)
    then have "32 < unat c div 2 ^ 24" by (simp only: unat_drop_bit)
    then show False using False by linarith
  qed
  moreover have "\<not> 256 ^ 32 \<le> compact_value c"
  proof -
    have "compact_value c < 2 ^ 23" using False by (intro compact_value_small) (simp only: not_less)
    also have "(2::nat) ^ 23 < 256 ^ 32" by simp
    finally show ?thesis by (simp only: not_le)
  qed
  ultimately show ?thesis by blast
qed

subsection \<open>Encoding\<close>

lemma LogicalSize_upper: "unat v < 256 ^ LogicalSize v"
proof (induction v rule: LogicalSize.induct)
  case (1 v)
  show ?case
  proof (cases "v = 0")
    case True then show ?thesis by (simp add: LogicalSize.simps[of v])
  next
    case False
    then have "unat v div 256 < 256 ^ LogicalSize (drop_bit 8 v)" using 1 by (simp add: unat_drop_bit)
    then have "unat v < 256 ^ LogicalSize (drop_bit 8 v) * 256" by (simp add: div_less_iff_less_mult)
    then show ?thesis using False by (simp add: LogicalSize.simps[of v] mult.commute)
  qed
qed

lemma LogicalSize_lower: "v \<noteq> 0 \<Longrightarrow> 256 ^ (LogicalSize v - 1) \<le> unat v"
proof (induction v rule: LogicalSize.induct)
  case (1 v)
  show ?case
  proof (cases "drop_bit 8 v = 0")
    case True
    then have "LogicalSize v = 1" using 1 by (simp add: LogicalSize.simps[of v] LogicalSize.simps[of 0])
    then show ?thesis using 1 by (simp add: Suc_le_eq unat_gt_0)
  next
    case False
    then have i: "256 ^ (LogicalSize (drop_bit 8 v) - 1) \<le> unat v div 256"
      using 1 by (simp add: unat_drop_bit)
    have "LogicalSize (drop_bit 8 v) = Suc (LogicalSize (drop_bit 8 v) - 1)"
      using False by (subst (1 2) LogicalSize.simps) simp
    then have "(256::nat) ^ LogicalSize (drop_bit 8 v) = 256 ^ (LogicalSize (drop_bit 8 v) - 1) * 256"
      by (metis mult.commute power_Suc)
    also have "\<dots> \<le> unat v" using i by (simp add: less_eq_div_iff_mult_less_eq)
    finally show ?thesis using 1 by (simp add: LogicalSize.simps[of v])
  qed
qed

lemma LogicalSize_unique:
  assumes "256 ^ (n - 1) \<le> unat v" "unat v < 256 ^ n" "v \<noteq> 0"
  shows "LogicalSize v = n"
proof (rule ccontr)
  assume "LogicalSize v \<noteq> n"
  then consider "LogicalSize v \<le> n - 1" | "n \<le> LogicalSize v - 1" by linarith
  then show False
  proof cases
    case 1
    then have "(256::nat) ^ LogicalSize v \<le> 256 ^ (n - 1)" by (intro power_increasing) auto
    then show ?thesis using LogicalSize_upper[of v] assms by linarith
  next
    case 2
    then have "(256::nat) ^ n \<le> 256 ^ (LogicalSize v - 1)" by (intro power_increasing) auto
    then show ?thesis using LogicalSize_lower[of v] assms by linarith
  qed
qed

lemma LogicalSize_le: "LogicalSize v \<le> 32"
proof (rule ccontr)
  assume n: "\<not> LogicalSize v \<le> 32"
  then have "v \<noteq> 0" by (auto simp: LogicalSize.simps[of 0])
  moreover have "(256::nat) ^ 32 \<le> 256 ^ (LogicalSize v - 1)" using n by (intro power_increasing) auto
  moreover have "unat v < 256 ^ 32" using unat_lt2p[of v] by simp
  ultimately show False using LogicalSize_lower[of v] by linarith
qed

text \<open>The mantissa before and after the sign adjustment, as numbers.\<close>

definition mant0 :: "nat \<Rightarrow> nat \<Rightarrow> nat" where
  "mant0 v n = (if n \<le> 3 then v * 256 ^ (3 - n) else v div 256 ^ (n - 3))"

definition mant :: "nat \<Rightarrow> nat \<Rightarrow> nat" where
  "mant v n = (if 2 ^ 23 \<le> mant0 v n then mant0 v n div 256 else mant0 v n)"

definition expo :: "nat \<Rightarrow> nat \<Rightarrow> nat" where
  "expo v n = (if 2 ^ 23 \<le> mant0 v n then n + 1 else n)"

lemma mant0_bound: assumes "v < 256 ^ n" shows "mant0 v n < 2 ^ 24"
proof (cases "n \<le> 3")
  case True
  have "v * 256 ^ (3 - n) < 256 ^ n * 256 ^ (3 - n)" using assms by simp
  also have "\<dots> = 256 ^ 3" using True by (simp only: power_add[symmetric] le_add_diff_inverse)
  finally show ?thesis using True by (simp add: mant0_def)
next
  case False
  then have "(256::nat) ^ n = 256 ^ 3 * 256 ^ (n - 3)" by (simp only: power_add[symmetric] le_add_diff_inverse not_le less_imp_le)
  then have "v div 256 ^ (n - 3) < 256 ^ 3" using assms by (simp add: div_less_iff_less_mult)
  then show ?thesis using False by (simp add: mant0_def)
qed

lemma mant_bound: "v < 256 ^ n \<Longrightarrow> mant v n < 2 ^ 23"
  using mant0_bound[of v n] by (auto simp: mant_def)

lemma bit_23: "(c AND 0x00800000 \<noteq> 0) = (2 ^ 23 \<le> unat c)" if "unat c < 2 ^ 24" for c :: u32
proof -
  have "(c AND 0x00800000 \<noteq> 0) = bit c 23"
    using bit_iff_and_push_bit_not_eq_0[of c 23] by simp
  also have "\<dots> = odd (unat c div 2 ^ 23)"
    using bit_unsigned_iff[of c 23, where 'a = nat] by (simp add: bit_iff_odd)
  also have "\<dots> = (2 ^ 23 \<le> unat c)"
  proof (cases "2 ^ 23 \<le> unat c")
    case True
    then have "unat c div 2 ^ 23 = 1" using that by (intro div_nat_eqI) auto
    then show ?thesis using True by simp
  qed simp
  finally show ?thesis .
qed

lemma mask_test: "(c AND NOT 0x007fffff = 0) = (unat c < 2 ^ 23)" for c :: u32
proof -
  have "(c AND NOT (mask 23) = 0) = (take_bit 23 c = c)"
    by (auto simp: bit_eq_iff bit_simps)
  moreover have "(unat c mod 2 ^ 23 = unat c) = (unat c < 2 ^ 23)"
    by (metis mod_less mod_less_divisor zero_less_numeral zero_less_power)
  ultimately show ?thesis by (simp only: mask23 word_unat_eq_iff unat_take_bit)
qed

lemma ucast_shift_mantissa:
  assumes n: "LogicalSize v = n"
  shows "unat (if n \<le> 3 then ucast (push_bit (8 * (3 - n)) (ucast v :: u64))
     else ucast (ucast (drop_bit (8 * (n - 3)) v) :: u64) :: u32) = mant0 (unat v) n"
proof -
  have b: "mant0 (unat v) n < 2 ^ 24" using LogicalSize_upper[of v] n mant0_bound by blast
  show ?thesis
  proof (cases "n \<le> 3")
    case True
    have "unat v < 256 ^ n" using LogicalSize_upper[of v] n by simp
    also have "(256::nat) ^ n \<le> 256 ^ 3" using True by (intro power_increasing) auto
    finally have v: "unat (ucast v :: u64) = unat v" by (simp add: unat_ucast)
    have m: "mant0 (unat v) n = unat v * 2 ^ (8 * (3 - n))" using True by (simp only: mant0_def pow256 if_True)
    have "unat (push_bit (8 * (3 - n)) (ucast v :: u64)) = mant0 (unat v) n"
      unfolding unat_push_bit v m[symmetric] using b by (intro mod_less) simp
    then show ?thesis using True b by (simp add: unat_ucast)
  next
    case False
    have m: "unat (drop_bit (8 * (n - 3)) v) = mant0 (unat v) n"
      using False by (simp only: unat_drop_bit mant0_def pow256 if_False)
    have "unat (ucast (drop_bit (8 * (n - 3)) v) :: u64) = mant0 (unat v) n"
      unfolding unat_ucast m using b by (intro mod_less) simp
    then show ?thesis using False b by (simp add: unat_ucast)
  qed
qed

lemma GetCompact_value:
  defines "bits st \<equiv> mant (unat (normal st)) (LogicalSize (normal st)) + expo (unat (normal st)) (LogicalSize (normal st)) * 2 ^ 24"
  shows "\<exists>st'. GetCompact st = Inr st' \<and> st' = st\<lparr>compact_bits := compact_bits st'\<rparr> \<and> unat (compact_bits st') = bits st"
proof -
  let ?v = "normal st" and ?n = "LogicalSize (normal st)"
  define c0 :: u32 where "c0 = (if ?n \<le> 3 then ucast (push_bit (8 * (3 - ?n)) (ucast ?v :: u64))
     else ucast (ucast (drop_bit (8 * (?n - 3)) ?v) :: u64))"
  define m where "m = mant0 (unat ?v) ?n"
  have c0: "unat c0 = m" unfolding c0_def m_def by (rule ucast_shift_mantissa) simp
  have mb: "m < 2 ^ 24" unfolding m_def by (rule mant0_bound[OF LogicalSize_upper])
  have adj: "(c0 AND 0x00800000 \<noteq> 0) = (2 ^ 23 \<le> m)" using bit_23[of c0] mb by (simp only: c0)
  define c1 where "c1 = (if c0 AND 0x00800000 \<noteq> 0 then drop_bit 8 c0 else c0)"
  define s1 where "s1 = (if c0 AND 0x00800000 \<noteq> 0 then ?n + 1 else ?n)"
  have c1: "unat c1 = mant (unat ?v) ?n"
    by (simp add: c1_def mant_def adj unat_drop_bit c0 m_def[symmetric])
  have s1: "s1 = expo (unat ?v) ?n" by (simp only: s1_def expo_def adj m_def)
  have M: "mant (unat ?v) ?n < 2 ^ 23" by (rule mant_bound[OF LogicalSize_upper])
  have a1: "c1 AND NOT 0x007fffff = 0" using M by (simp only: mask_test c1)
  have a2: "s1 \<le> 33" using LogicalSize_le[of ?v] by (simp add: s1_def)
  define r where "r = c1 OR ucast (push_bit 24 (of_nat s1 :: u64))"
  have "GetCompact st = Inr (st\<lparr>compact_bits := r\<rparr>)"
    unfolding GetCompact_def Let_def c0_def[symmetric] c1_def[symmetric] s1_def[symmetric] r_def[symmetric]
    using a1 a2 by simp
  moreover have "unat r = bits st"
  proof -
    have e: "unat (of_nat s1 :: u32) = s1" using a2 by (simp add: unat_of_nat)
    have "(ucast (push_bit 24 (of_nat s1 :: u64)) :: u32) = push_bit 24 (of_nat s1)"
      using a2 by (simp add: word_unat_eq_iff unat_ucast unat_push_bit unat_of_nat del: push_bit_of_nat)
    then have "r = c1 OR push_bit 24 (of_nat s1)" by (simp only: r_def)
    also have "unat \<dots> = unat c1 + s1 * 2 ^ 24"
      using M a2 unat_or_push_bit[of c1 24 "of_nat s1"] by (simp add: c1 e del: push_bit_of_nat)
    finally show ?thesis by (simp only: c1 s1 bits_def)
  qed
  ultimately show ?thesis by (intro exI[of _ "st\<lparr>compact_bits := r\<rparr>"]) simp
qed

text \<open>Decoding an encoding keeps the leading bytes and clears the rest.\<close>

lemma mul_div_256: "x * 256 ^ (n + 3) div 256 ^ 3 = x * (256::nat) ^ n"
  by (simp only: power_add mult.assoc[symmetric] nonzero_mult_div_cancel_right) simp

lemma decode_mant:
  assumes "v < 256 ^ n"
  shows "mant v n * 256 ^ expo v n div 256 ^ 3 = v div 256 ^ (expo v n - 3) * 256 ^ (expo v n - 3)"
proof -
  have small: "v * 256 ^ (3 - k) * 256 ^ k div 256 ^ 3 = v" if "k \<le> 3" for k
  proof -
    have "v * 256 ^ (3 - k) * 256 ^ k = v * 256 ^ 3"
      using that by (simp only: mult.assoc power_add[symmetric] le_add_diff_inverse2)
    then show ?thesis by (simp only: nonzero_mult_div_cancel_right) simp
  qed
  consider "n \<le> 3" "mant0 v n < 2 ^ 23" | "n \<le> 2" "2 ^ 23 \<le> mant0 v n" | "n = 3" "2 ^ 23 \<le> mant0 v n"
    | "3 < n" "mant0 v n < 2 ^ 23" | "3 < n" "2 ^ 23 \<le> mant0 v n" by linarith
  then show ?thesis
  proof cases
    case 1
    then show ?thesis using small[of n] by (simp add: mant_def expo_def mant0_def)
  next
    case 2
    then have "3 - n = Suc (2 - n)" by simp
    then have "mant0 v n = v * 256 ^ (2 - n) * 256" using 2 by (simp add: mant0_def)
    then have "mant0 v n div 256 = v * 256 ^ (3 - Suc n)" using 2 by simp
    then show ?thesis using 2 small[of "Suc n"] by (simp add: mant_def expo_def)
  next
    case 3
    then show ?thesis using mul_div_256[of "v div 256" 1] by (simp add: mant_def expo_def mant0_def)
  next
    case 4
    then show ?thesis using mul_div_256[of "v div 256 ^ (n - 3)" "n - 3"]
      by (simp add: mant_def expo_def mant0_def)
  next
    case 5
    then have "n - 2 = Suc (n - 3)" by simp
    then have "(256::nat) ^ (n - 2) = 256 ^ (n - 3) * 256" by (simp only: power_Suc mult.commute)
    then have "v div 256 ^ (n - 3) div 256 = v div 256 ^ (n - 2)" by (simp only: div_mult2_eq)
    then show ?thesis using 5 mul_div_256[of "v div 256 ^ (n - 2)" "n - 2"]
      by (simp add: mant_def expo_def mant0_def)
  qed
qed

lemma bits_split:
  assumes "M < 2 ^ 23" "unat c = M + S * 2 ^ 24"
  shows "unat c mod 2 ^ 23 = M" "unat c div 2 ^ 24 = S"
proof -
  have "unat c = M + 2 ^ 23 * (2 * S)" using assms(2) by simp
  then have "unat c mod 2 ^ 23 = M mod 2 ^ 23" by (simp only: mod_mult_self2)
  then show "unat c mod 2 ^ 23 = M" using assms(1) by simp
  show "unat c div 2 ^ 24 = S" using assms by simp
qed

lemma compact_value_encoded:
  assumes "GetCompact st = Inr st'"
  defines "e \<equiv> expo (unat (normal st)) (LogicalSize (normal st)) - 3"
  shows "compact_value (compact_bits st') = unat (normal st) div 256 ^ e * 256 ^ e"
proof -
  let ?v = "unat (normal st)" and ?n = "LogicalSize (normal st)"
  have "unat (compact_bits st') = mant ?v ?n + expo ?v ?n * 2 ^ 24"
    using GetCompact_value[of st] assms(1) by auto
  note b = bits_split[OF mant_bound[OF LogicalSize_upper] this]
  show ?thesis unfolding compact_value_def b e_def by (rule decode_mant[OF LogicalSize_upper])
qed

text \<open>Clearing the bytes below the mantissa changes neither the size nor the mantissa.\<close>

lemma truncate_same:
  assumes v: "256 ^ (n - 1) \<le> v" "v < 256 ^ n" "0 < v" "0 < n"
  defines "w \<equiv> v div 256 ^ (expo v n - 3) * 256 ^ (expo v n - 3)"
  shows "256 ^ (n - 1) \<le> w" "w < 256 ^ n" "mant w n = mant v n" "expo w n = expo v n"
proof -
  let ?e = "expo v n - 3"
  have wv: "w \<le> v" unfolding w_def by simp
  then show "w < 256 ^ n" using v(2) by linarith
  have e: "?e \<le> n - 1" using v(4) unfolding expo_def by (simp split: if_splits) linarith
  have split: "(256::nat) ^ (n - 1) = 256 ^ (n - 1 - ?e) * 256 ^ ?e"
    using e by (simp only: power_add[symmetric] le_add_diff_inverse2)
  have "256 ^ (n - 1 - ?e) \<le> v div 256 ^ ?e"
    using v(1) split by (simp add: less_eq_div_iff_mult_less_eq)
  then show "256 ^ (n - 1) \<le> w" unfolding w_def split by simp
  have same: "mant w n = mant v n \<and> expo w n = expo v n"
  proof (cases "n < 3")
    case True
    then have "?e = 0" by (simp add: expo_def)
    then have "w = v" by (simp add: w_def)
    then show ?thesis by simp
  next
    case False
    have m: "mant0 x n = x div 256 ^ (n - 3)" for x using False by (auto simp: mant0_def)
    show ?thesis
    proof (cases "2 ^ 23 \<le> mant0 v n")
      case True
      then have "?e = Suc (n - 3)" using False by (simp add: expo_def)
      then have w: "w = v div 256 ^ (n - 3) div 256 * 256 * 256 ^ (n - 3)"
        unfolding w_def by (simp only: power_Suc div_mult2_eq mult.commute[of 256] mult.assoc)
      have "mant0 w n = mant0 v n div 256 * 256" unfolding m w by simp
      then show ?thesis using True by (simp add: mant_def expo_def)
    next
      case neg: False
      then have "?e = n - 3" by (simp add: expo_def)
      then have "mant0 w n = mant0 v n" unfolding m w_def by simp
      then show ?thesis using neg by (simp add: mant_def expo_def)
    qed
  qed
  then show "mant w n = mant v n" "expo w n = expo v n" by auto
qed

subsection \<open>Properties\<close>

text \<open>C13: \<^verbatim>\<open>SetCompact\<close> computes \<open>mantissa * 256 ^ (exponent - 3)\<close> modulo \<open>2 ^ 256\<close> for every 32 bit
  input, and raises the overflow flag exactly when that number does not fit into 256 bits.\<close>
theorem SetCompact_exact:
  "unat (normal (SetCompact c st)) = compact_value c mod 2 ^ 256 \<and>
   (overflowed (SetCompact c st) \<longleftrightarrow> 2 ^ 256 \<le> compact_value c)"
  using SetCompact_normal[of c st] SetCompact_overflow[of c st] by simp

text \<open>No 256 bit number makes the assertions of \<^verbatim>\<open>GetCompact\<close> fail.  The 32 bits it produces decode
  without overflow and without sign to the number with the bytes below its mantissa cleared, so to
  a lower bound of it, and encoding that again gives the same 32 bits.\<close>
theorem compact_roundtrip:
  "\<exists>st c. Compact_of_normal v = Inr st \<and> c = compact_bits st \<and>
     normal (SetCompact c compact_init) \<le> v \<and> \<not> overflowed (SetCompact c compact_init) \<and>
     \<not> negative (SetCompact c compact_init) \<and>
     (\<exists>k. unat (normal (SetCompact c compact_init)) = unat v div 256 ^ k * 256 ^ k) \<and>
     (\<exists>st'. Compact_of_bits c = Inr st' \<and> compact_bits st' = c)"
proof -
  let ?n = "LogicalSize v"
  obtain st where st: "Compact_of_normal v = Inr st"
      "unat (compact_bits st) = mant (unat v) ?n + expo (unat v) ?n * 2 ^ 24"
    using GetCompact_value[of "compact_init\<lparr>normal := v\<rparr>"] by (auto simp: Compact_of_normal_def)
  let ?c = "compact_bits st" and ?k = "expo (unat v) ?n - 3"
  have val: "compact_value ?c = unat v div 256 ^ ?k * 256 ^ ?k"
    using compact_value_encoded[of "compact_init\<lparr>normal := v\<rparr>"] st(1) by (simp add: Compact_of_normal_def)
  then have le: "compact_value ?c \<le> unat v" by simp
  then have lt: "compact_value ?c < 2 ^ 256" using unat_lt2p[of v] by simp
  have dec: "unat (normal (SetCompact ?c compact_init)) = compact_value ?c"
    unfolding SetCompact_normal using lt by (rule mod_less)
  note b = bits_split[OF mant_bound[OF LogicalSize_upper] st(2)]
  have "(?c AND 0x00800000 = 0)"
  proof -
    have "unat ?c = mant (unat v) ?n + 2 ^ 23 * (2 * expo (unat v) ?n)" using st(2) by simp
    then have "unat ?c div 2 ^ 23 = 2 * expo (unat v) ?n"
      using mant_bound[OF LogicalSize_upper, of v] by (simp add: div_mult_self2)
    then have "\<not> bit ?c 23" using bit_unsigned_iff[of ?c 23, where 'a = nat] by (simp add: bit_iff_odd)
    then show ?thesis using bit_iff_and_push_bit_not_eq_0[of ?c 23] by simp
  qed
  then have neg: "\<not> negative (SetCompact ?c compact_init)" by (simp add: SetCompact_def Let_def)
  let ?w = "normal (SetCompact ?c compact_init)"
  have w: "unat ?w = unat v div 256 ^ ?k * 256 ^ ?k" using dec val by simp
  have same: "mant (unat ?w) (LogicalSize ?w) = mant (unat v) ?n \<and> expo (unat ?w) (LogicalSize ?w) = expo (unat v) ?n"
  proof (cases "v = 0")
    case True
    then have "?w = v" using w by (simp add: word_unat_eq_iff)
    then show ?thesis by simp
  next
    case False
    then have n: "0 < ?n" by (simp add: LogicalSize.simps[of v])
    have "0 < unat v" using False by (simp add: unat_gt_0)
    note t = truncate_same[OF LogicalSize_lower[OF False] LogicalSize_upper this n, folded w]
    have "0 < unat ?w" using less_le_trans[OF _ t(1)] by simp
    then have "LogicalSize ?w = ?n" by (intro LogicalSize_unique t(1,2)) auto
    then show ?thesis using t(3,4) by simp
  qed
  have again: "\<exists>st'. Compact_of_bits ?c = Inr st' \<and> compact_bits st' = ?c"
    using GetCompact_value[of "SetCompact ?c compact_init"] same st(2)
    by (auto simp: Compact_of_bits_def word_unat_eq_iff)
  show ?thesis
    using st(1) le dec val neg again SetCompact_overflow[of ?c compact_init] lt
    by (intro exI[of _ st] exI[of _ ?c]) (auto simp: word_le_nat_alt)
qed

end
