(* ===== verification/Script.thy ===== *)
theory Script
  imports Serialize
begin

text \<open>
  Script numbers and script assembly: \<^verbatim>\<open>util::Integral\<close> (\<^verbatim>\<open>src/utility/include/arithmetic.h\<close>),
  \<^verbatim>\<open>ScriptInt\<close> and \<^verbatim>\<open>Script\<close> (\<^verbatim>\<open>src/consensus/src/script.cpp\<close>).  A script is its byte vector; an
  iterator into it is the index it points to.  \<^verbatim>\<open>int64_t\<close> values are 64 bit words read with \<open>sint\<close>.
\<close>

type_synonym i64 = "64 word"

subsection \<open>Checked integers\<close>

text \<open>The assertion of \<^verbatim>\<open>operator+\<close> requires a positive or a negative operand; the comparison with
  the limits of the type is made on a sum that has overflowed already when it could fail.\<close>

definition in_i64 :: "int \<Rightarrow> bool" where
  "in_i64 k = (- (2 ^ 63) \<le> k \<and> k < 2 ^ 63)"

definition integral_add :: "i64 \<Rightarrow> i64 \<Rightarrow> i64 res" where
  "integral_add a b =
     (if b = 0 then Inl Assertion
      else if \<not> in_i64 (sint a + sint b) then Inl Undefined
      else Inr (a + b))"

definition integral_sub :: "i64 \<Rightarrow> i64 \<Rightarrow> i64 res" where
  "integral_sub a b =
     (if b = 0 then Inl Assertion
      else if \<not> in_i64 (sint a - sint b) then Inl Undefined
      else Inr (a - b))"

definition integral_and :: "i64 \<Rightarrow> i64 \<Rightarrow> i64" where
  "integral_and a b = a AND b"

text \<open>\<^verbatim>\<open>operator|\<close> with a plain value and with another \<^verbatim>\<open>Integral\<close>.\<close>

definition integral_or_value :: "i64 \<Rightarrow> i64 \<Rightarrow> i64" where
  "integral_or_value a b = a AND b"

definition integral_or :: "i64 \<Rightarrow> i64 \<Rightarrow> i64" where
  "integral_or a b = a OR b"

subsection \<open>Opcodes\<close>

definition OP_0 :: u8 where [op_defs]: "OP_0 = 0x00"
definition OP_PUSHDATA1 :: u8 where [op_defs]: "OP_PUSHDATA1 = 0x4c"
definition OP_PUSHDATA2 :: u8 where [op_defs]: "OP_PUSHDATA2 = 0x4d"
definition OP_PUSHDATA4 :: u8 where [op_defs]: "OP_PUSHDATA4 = 0x4e"
definition OP_1NEGATE :: u8 where [op_defs]: "OP_1NEGATE = 0x4f"
definition OP_1 :: u8 where [op_defs]: "OP_1 = 0x51"
definition OP_16 :: u8 where [op_defs]: "OP_16 = 0x60"
definition OP_CHECKSIG :: u8 where [op_defs]: "OP_CHECKSIG = 0xac"

subsection \<open>Script numbers\<close>

definition script_int_max_size :: nat where
  "script_int_max_size = 4"

text \<open>The loop ORs \<^verbatim>\<open>v[i] << 8*i\<close>, an \<^verbatim>\<open>int\<close>, into the 64 bit value: a byte shifted into bit 31 is
  sign extended.\<close>

fun scriptint_loop :: "nat \<Rightarrow> i64 \<Rightarrow> bytes \<Rightarrow> i64" where
  "scriptint_loop i value [] = value"
| "scriptint_loop i value (b # bs) =
     scriptint_loop (Suc i) (value OR scast (push_bit (8 * i) (ucast b :: u32))) bs"

text \<open>With an empty vector the member keeps what the memory held (\<open>mem\<close>).\<close>

definition ScriptInt_of_bytes :: "i64 \<Rightarrow> bytes \<Rightarrow> bool \<Rightarrow> i64 res" where
  "ScriptInt_of_bytes mem v minimal =
     (if length v = 0 then Inr mem
      else if length v > script_int_max_size then Inl RuntimeError
      else if minimal \<and> last v AND 0x7f = 0 \<and> (length v < 2 \<or> (v ! (length v - 2)) AND 0x80 = 0)
      then Inl RuntimeError
      else let value = scriptint_loop 0 0 v
           in Inr (if last v AND 0x80 \<noteq> 0
                   then - (value AND NOT (push_bit (8 * (length v - 1)) 0x80))
                   else value))"

definition ScriptInt_IntValue :: "i64 \<Rightarrow> int" where
  "ScriptInt_IntValue n =
     (if sint n > 2 ^ 31 - 1 then 2 ^ 31 - 1 else if sint n < - (2 ^ 31) then - (2 ^ 31) else sint n)"

text \<open>The loop \<^verbatim>\<open>while (abs)\<close>: the shift of the signed local is arithmetic, so a negative value never
  reaches zero; \<open>None\<close> is the run that does not end.\<close>

partial_function (option) bytes_loop :: "i64 \<Rightarrow> bytes option" where
  "bytes_loop a =
     (if a = 0 then Some []
      else Option.bind (bytes_loop (signed_drop_bit 8 a)) (\<lambda>rest. Some (ucast (a AND 0xff) # rest)))"

text \<open>The argument is unsigned, \<^verbatim>\<open>value < 0\<close> is false.\<close>

definition BytesEncoding :: "u64 \<Rightarrow> bytes option" where
  "BytesEncoding value =
     (if value = 0 then Some []
      else let neg = False in
        Option.bind (bytes_loop (if neg then - value else value)) (\<lambda>result.
          Some (if last result AND 0x80 \<noteq> 0 then result @ [if neg then 0x80 else 0]
                else if neg then result @ [0x80] else result)))"

subsection \<open>Assembling and reading scripts\<close>

type_synonym script = bytes

definition Push_bytes :: "bytes \<Rightarrow> script \<Rightarrow> script" where
  "Push_bytes b s =
     (if length b < unat OP_PUSHDATA1 then s @ [of_nat (length b)]
      else if length b \<le> 0xff then s @ [OP_PUSHDATA1, of_nat (length b)]
      else if length b \<le> 0xffff then s @ OP_PUSHDATA2 # to_little_endian 2 (of_nat (length b) :: u16)
      else s @ OP_PUSHDATA4 # to_little_endian 4 (of_nat (length b) :: u32)) @ b"

definition Push_opcode :: "u8 \<Rightarrow> script \<Rightarrow> script" where
  "Push_opcode code s = s @ [code]"

definition Push_u64 :: "u64 \<Rightarrow> script \<Rightarrow> script option" where
  "Push_u64 b s =
     (if b = - 1 \<or> b \<ge> 1 \<and> b \<le> 16 then Some (s @ [ucast (b + ucast OP_1 - 1)])
      else if b = 0 then Some (s @ [OP_0])
      else Option.bind (BytesEncoding b) (\<lambda>e. Some (Push_bytes e s)))"

definition Push_scriptint :: "i64 \<Rightarrow> script \<Rightarrow> script option" where
  "Push_scriptint n s = Option.bind (BytesEncoding n) (\<lambda>e. Some (Push_bytes e s))"

text \<open>Both \<^verbatim>\<open>Pop\<close> return the flag, the iterator afterwards and, on success, what was read.\<close>

definition Pop_opcode :: "script \<Rightarrow> nat \<Rightarrow> (u8 \<times> nat) option" where
  "Pop_opcode s pc = (if pc \<ge> length s then None else Some (s ! pc, pc + 1))"

definition Pop_data :: "script \<Rightarrow> u8 \<Rightarrow> nat \<Rightarrow> bytes option \<times> nat" where
  "Pop_data s opc pc =
     (if pc \<ge> length s then (None, pc)
      else if opc = OP_0 \<or> opc > OP_PUSHDATA4 then (None, pc)
      else
        let short = (opc = OP_PUSHDATA2 \<and> pc + 2 > length s \<or> opc = OP_PUSHDATA4 \<and> pc + 4 > length s);
            (size, pc1) =
              (if opc < OP_PUSHDATA1 then (unat opc, pc)
               else if opc = OP_PUSHDATA1 then (unat (s ! pc), pc + 1)
               else if opc = OP_PUSHDATA2 then (unat (from_little_endian (take 2 (drop pc s)) :: u16), pc + 2)
               else (unat (from_little_endian (take 4 (drop pc s)) :: u32), pc + 4))
        in if short then (None, pc)
           else if pc1 + size > length s then (None, pc1)
           else (Some (take size (drop pc1 s)), pc1))"

definition Script_SerializedSize :: "script \<Rightarrow> nat" where
  "Script_SerializedSize s = length s + VarIntSize (length s)"

definition script_ser :: "script \<Rightarrow> bytes" where
  "script_ser s = ser_write_bytes s"

definition script_deser :: "compiler \<Rightarrow> bytes \<Rightarrow> (script \<times> bytes) res" where
  "script_deser cc s = ser_read_bytes cc s"

interpretation script: canon_codec script_ser script_deser len_ok
  unfolding script_ser_def script_deser_def by (rule varbytes.canon_codec_axioms)

interpretation script_s: sized_codec script_ser script_deser len_ok Script_SerializedSize
  by unfold_locales (simp add: script_ser_def varbytes_s.enc_size Script_SerializedSize_def)

subsection \<open>Encoding and decoding of script numbers\<close>

lemma from_le_loop_append:
  "from_le_loop i out (xs @ ys) = from_le_loop (i + length xs) (from_le_loop i out xs) ys"
  by (induction xs arbitrary: i out) auto

lemma length_bytes_div: "(unat w :: nat) < 2 ^ (8 * k) \<Longrightarrow> drop_bit (8 * k) w = 0" for w :: "'a::len word"
  by (simp add: word_unat_eq_iff unat_drop_bit)

lemma sint_sign: "bit a 63 = (sint a < 0)" for a :: i64
  using bit_last_iff[of a] by simp

lemma sint_nonneg_iff: "0 \<le> sint a \<longleftrightarrow> unat a < 2 ^ 63" for a :: i64
proof -
  have "0 \<le> sint a \<longleftrightarrow> \<not> bit a 63"
    by (simp add: sint_sign not_less)
  also have "bit a 63 = odd (unat a div 2 ^ 63)"
    using bit_unsigned_iff[of a 63, where 'a = nat] by (simp add: bit_iff_odd)
  also have "(\<not> odd (unat a div 2 ^ 63)) = (unat a < 2 ^ 63)"
  proof (cases "unat a < 2 ^ 63")
    case False
    then have "unat a div 2 ^ 63 = 1" using unat_lt2p[of a] by (intro div_nat_eqI) auto
    then show ?thesis using False by simp
  qed simp
  finally show ?thesis .
qed

lemma signed_drop_bit_nonneg:
  assumes "0 \<le> sint a" shows "signed_drop_bit 8 a = drop_bit 8 (a :: i64)"
proof -
  have nb: "\<not> bit a 63" using assms by (simp add: sint_sign not_less)
  show ?thesis
    by (rule bit_word_eqI) (use nb in \<open>auto simp: bit_simps min_def not_le le_less_Suc_eq dest: bit_imp_le_length\<close>)
qed

lemma bytes_loop_terminates:
  "0 \<le> sint a \<Longrightarrow> \<exists>ys. bytes_loop a = Some ys"
proof (induction "unat a" arbitrary: a rule: less_induct)
  case less
  show ?case
  proof (cases "a = 0")
    case True then show ?thesis by (simp add: bytes_loop.simps)
  next
    case False
    have d: "signed_drop_bit 8 a = drop_bit 8 a" using less.prems by (rule signed_drop_bit_nonneg)
    have l: "unat (drop_bit 8 a) < unat a" using False by (simp add: unat_drop_bit unat_gt_0)
    have "0 \<le> sint (drop_bit 8 a)" using less.prems l by (simp only: sint_nonneg_iff)
    then obtain ys where "bytes_loop (drop_bit 8 a) = Some ys" using less.hyps[OF l] by blast
    then show ?thesis using False d by (subst bytes_loop.simps) simp
  qed
qed

lemma bytes_loop_nonneg: "bytes_loop a = Some ys \<Longrightarrow> 0 \<le> sint a"
proof (rule bytes_loop.raw_induct[where P = "\<lambda>a _. 0 \<le> sint a", rotated], assumption)
  fix loop :: "i64 \<Rightarrow> bytes option" and a ys
  assume IH: "\<And>a ys. loop a = Some ys \<Longrightarrow> 0 \<le> sint a"
    and step: "(if a = 0 then Some []
      else Option.bind (loop (signed_drop_bit 8 a)) (\<lambda>rest. Some (ucast (a AND 0xff) # rest))) = Some ys"
  show "0 \<le> sint a"
  proof (cases "a = 0")
    case False
    then obtain r where "loop (signed_drop_bit 8 a) = Some r" using step by (auto split: bind_splits)
    then have "0 \<le> sint (signed_drop_bit 8 a)" by (rule IH)
    then show ?thesis by (simp add: sint_signed_drop_bit_eq)
  qed simp
qed

lemma bytes_loop_digits:
  "bytes_loop a = Some ys \<Longrightarrow> ys = to_little_endian (length ys) a \<and> drop_bit (8 * length ys) a = 0 \<and>
     (a \<noteq> 0 \<longrightarrow> ys \<noteq> [] \<and> drop_bit (8 * (length ys - 1)) a \<noteq> 0)"
proof (induction ys arbitrary: a)
  case Nil
  then have "a = 0" by (subst (asm) bytes_loop.simps) (auto split: if_splits bind_splits)
  then show ?case by simp
next
  case (Cons y ys)
  have nn: "0 \<le> sint a" using Cons.prems by (rule bytes_loop_nonneg)
  then have d: "signed_drop_bit 8 a = drop_bit 8 a" by (rule signed_drop_bit_nonneg)
  have ys: "a \<noteq> 0" "bytes_loop (drop_bit 8 a) = Some ys" "y = ucast (a AND 0xff)"
    using Cons.prems d by (subst (asm) bytes_loop.simps, auto split: if_splits bind_splits)+
  have y: "y = ucast a" 
  proof -
    have "(0xff :: i64) = mask 8" by (simp add: mask_eq_exp_minus_1)
    then have "a AND 0xff = take_bit 8 a" by (simp only: take_bit_eq_mask)
    then show ?thesis unfolding ys(3) by (simp only:) (rule bit_word_eqI, auto simp: bit_simps)
  qed
  note IH = Cons.IH[OF ys(2)]
  have "drop_bit (8 * (length (y # ys) - 1)) a \<noteq> 0"
  proof (cases "drop_bit 8 a = 0")
    case True
    then have "ys = []" using ys(2) by (subst (asm) bytes_loop.simps) simp
    then show ?thesis using ys(1) by simp
  next
    case False
    then have "drop_bit (8 * (length ys - 1)) (drop_bit 8 a) \<noteq> 0" "ys \<noteq> []" using IH by auto
    moreover have "8 * length ys = 8 * (length ys - 1) + 8" using \<open>ys \<noteq> []\<close> by (cases ys) auto
    ultimately show ?thesis by (simp only: drop_bit_drop_bit) simp
  qed
  moreover have "drop_bit (8 * length (y # ys)) a = 0"
    using IH by (simp add: drop_bit_drop_bit add.commute)
  ultimately show ?case using IH y by simp
qed

lemma to_le_nth: "j < k \<Longrightarrow> to_little_endian k w ! j = ucast (drop_bit (8 * j) w)"
proof (induction k arbitrary: w j)
  case (Suc k)
  then show ?case by (cases j) (auto simp: drop_bit_drop_bit add.commute)
qed simp

lemma to_le_snoc_zero:
  "drop_bit (8 * k) w = 0 \<Longrightarrow> to_little_endian (Suc k) w = to_little_endian k w @ [0]"
proof (induction k arbitrary: w)
  case (Suc k)
  have "drop_bit (8 * k) (drop_bit 8 w) = 0" using Suc.prems by (simp add: drop_bit_drop_bit add.commute)
  then have IH: "to_little_endian (Suc k) (drop_bit 8 w) = to_little_endian k (drop_bit 8 w) @ [0]"
    by (rule Suc.IH)
  show ?case by (simp only: to_little_endian.simps(2)[where n = "Suc k"] IH) simp
qed simp

lemma from_to_le_exact:
  "drop_bit (8 * k) w = 0 \<Longrightarrow> from_little_endian (to_little_endian k w) = (w :: 'a::len word)"
proof -
  assume "drop_bit (8 * k) w = 0"
  then have "take_bit (8 * k) w = w" using bits_ident[of "8 * k" w] by simp
  then show ?thesis by (simp add: from_little_endian_def from_le_loop_to_little_endian)
qed

lemma top_bit_u8: "(b AND 0x80 = 0) = (b < 0x80)" for b :: u8
proof -
  have "(b AND 0x80 \<noteq> 0) = bit b 7" using bit_iff_and_push_bit_not_eq_0[of b 7] by simp
  moreover have "bit b 7 = odd (unat b div 2 ^ 7)"
    using bit_unsigned_iff[of b 7, where 'a = nat] by (simp add: bit_iff_odd)
  moreover have "odd (unat b div 2 ^ 7) = (128 \<le> unat b)"
  proof (cases "128 \<le> unat b")
    case True
    then have "unat b div 2 ^ 7 = 1" using unat_lt2p[of b] by (intro div_nat_eqI) auto
    then show ?thesis using True by simp
  qed simp
  ultimately show ?thesis by (auto simp: word_less_nat_alt)
qed

text \<open>The low digits as the 64 bit reader would see them.\<close>

lemma scriptint_step:
  assumes "i < 3 \<or> i = 3 \<and> b < (0x80 :: u8)"
  shows "(scast (push_bit (8 * i) (ucast b :: u32)) :: i64) = push_bit (8 * i) (ucast b)"
proof -
  have b7: "i = 3 \<Longrightarrow> \<not> bit b 7"
    using assms top_bit_u8[of b] bit_iff_and_push_bit_not_eq_0[of b 7] by simp
  have hi: "i = 3 \<Longrightarrow> 7 \<le> m \<Longrightarrow> \<not> bit b m" for m
    using b7 bit_imp_le_length[of b m] by (cases "m = 7") auto
  have "\<not> bit (push_bit (8 * i) (ucast b :: u32)) 31"
    using assms b7 by (auto simp: bit_simps dest: bit_imp_le_length)
  then show ?thesis
    using assms hi by (intro bit_word_eqI) (auto simp: bit_simps min_def not_less dest: bit_imp_le_length)
qed

lemma scriptint_loop_from_le:
  "length v + i \<le> 4 \<Longrightarrow> (length v + i = 4 \<and> v \<noteq> [] \<longrightarrow> last v < 0x80) \<Longrightarrow>
   scriptint_loop i out v = from_le_loop i out v"
proof (induction v arbitrary: i out)
  case (Cons b bs)
  have "i < 3 \<or> i = 3 \<and> b < 0x80" using Cons.prems by (cases bs) auto
  moreover have "scriptint_loop (Suc i) o' bs = from_le_loop (Suc i) o' bs" for o'
    by (rule Cons.IH) (use Cons.prems in \<open>auto split: if_splits\<close>)
  ultimately show ?case by (simp add: scriptint_step)
qed simp

lemma BytesEncoding_returns: "(\<exists>e. BytesEncoding n = Some e) \<longleftrightarrow> unat n < 2 ^ 63"
proof -
  have "(\<exists>ys. bytes_loop n = Some ys) = (0 \<le> sint n)"
    using bytes_loop_terminates bytes_loop_nonneg by blast
  then have "n \<noteq> 0 \<Longrightarrow> (\<exists>e. BytesEncoding n = Some e) \<longleftrightarrow> unat n < 2 ^ 63"
    by (auto simp: BytesEncoding_def Let_def bind_eq_Some_conv sint_nonneg_iff)
  then show ?thesis by (cases "n = 0") (auto simp: BytesEncoding_def)
qed

text \<open>The encoding is the little endian form whose last byte has a clear top bit, without padding.\<close>

lemma BytesEncoding_shape:
  assumes "BytesEncoding n = Some e" "n \<noteq> 0"
  shows "e = to_little_endian (length e) n" "drop_bit (8 * length e) n = 0" "e \<noteq> []"
    "last e AND 0x80 = 0" "last e AND 0x7f = 0 \<longrightarrow> 2 \<le> length e \<and> e ! (length e - 2) AND 0x80 \<noteq> 0"
    "drop_bit (8 * length e - 9) n \<noteq> 0"
proof -
  obtain r where r: "bytes_loop n = Some r"
    and e: "e = (if last r AND 0x80 \<noteq> 0 then r @ [0] else r)"
    using assms by (auto simp: BytesEncoding_def Let_def bind_eq_Some_conv split: if_splits)
  have R: "r = to_little_endian (length r) n" "drop_bit (8 * length r) n = 0" "r \<noteq> []"
    "drop_bit (8 * (length r - 1)) n \<noteq> 0" using bytes_loop_digits[OF r] assms(2) by auto
  define k where "k = length r - 1"
  have k: "length r = Suc k" using R(3) by (cases r) (auto simp: k_def)
  have last: "last r = ucast (drop_bit (8 * k) n)"
  proof -
    have "last r = r ! k" using R(3) k by (simp add: last_conv_nth)
    also have "\<dots> = to_little_endian (length r) n ! k" using arg_cong[OF R(1), of "\<lambda>x. x ! k"] .
    also have "\<dots> = ucast (drop_bit (8 * k) n)" by (rule to_le_nth) (simp only: k lessI)
    finally show ?thesis .
  qed
  have small: "unat (drop_bit (8 * k) n) < 256"
  proof -
    have "drop_bit 8 (drop_bit (8 * k) n) = 0" using R(2) k by (simp add: drop_bit_drop_bit)
    then have "unat (drop_bit (8 * k) n) div 2 ^ 8 = 0" by (simp only: word_unat_eq_iff unat_drop_bit) simp
    then show ?thesis by simp
  qed
  have last0: "last r \<noteq> 0"
  proof
    assume "last r = 0"
    then have "unat (ucast (drop_bit (8 * k) n) :: u8) = 0" by (simp add: last)
    then have "unat (drop_bit (8 * k) n) = 0" using small by (simp only: unat_ucast) simp
    then show False using R(4) k by (simp add: unat_eq_zero)
  qed
  show "e = to_little_endian (length e) n" "drop_bit (8 * length e) n = 0"
    using R(1,2) to_le_snoc_zero[of "length r" n] drop_bit_drop_bit[of 8 "8 * length r" n]
    by (auto simp: e)
  show "e \<noteq> []" "last e AND 0x80 = 0" using R(3) by (auto simp: e)
  show "last e AND 0x7f = 0 \<longrightarrow> 2 \<le> length e \<and> e ! (length e - 2) AND 0x80 \<noteq> 0"
  proof (cases "last r AND 0x80 = 0")
    case True
    have ff: "(0xff :: u8) = - 1" by simp
    have "(last r AND 0x80) OR (last r AND 0x7f) = last r AND 0xff"
      by (simp add: bit.conj_disj_distrib[symmetric])
    then have "(last r AND 0x80) OR (last r AND 0x7f) = last r" by (simp only: ff and.right_neutral)
    then have "last r AND 0x7f \<noteq> 0" using True last0 by auto
    then show ?thesis using True by (simp add: e)
  next
    case False
    then show ?thesis using R(3) k by (simp add: e nth_append last_conv_nth)
  qed
  show "drop_bit (8 * length e - 9) n \<noteq> 0"
  proof (cases "last r AND 0x80 = 0")
    case True
    define d where "d = 8 * (length r - 1) - (8 * length e - 9)"
    define m where "m = 8 * length e - 9"
    have "8 * (length r - 1) = m + d" using True by (simp add: e d_def m_def)
    then have "8 * (length r - 1) = d + m" by (simp only: add.commute)
    then have nz: "drop_bit d (drop_bit m n) \<noteq> 0" using R(4) by (simp only: drop_bit_drop_bit not_False_eq_True)
    have "drop_bit m n \<noteq> 0"
    proof
      assume "drop_bit m n = 0"
      then show False using nz by (simp only: drop_bit_of_0)
    qed
    then show ?thesis by (simp only: m_def not_False_eq_True)
  next
    case False
    then have "bit (last r) 7" using bit_iff_and_push_bit_not_eq_0[of "last r" 7] by simp
    then have "bit n (8 * k + 7)" by (simp add: last bit_simps)
    then have b: "bit (drop_bit (8 * k + 7) n) 0" by (simp only: bit_drop_bit_eq add_0_right o_apply)
    have "drop_bit (8 * k + 7) n \<noteq> 0"
    proof
      assume "drop_bit (8 * k + 7) n = 0"
      then show False using b by simp
    qed
    moreover have "8 * length e - 9 = 8 * k + 7" using False k by (simp add: e)
    ultimately show ?thesis by (simp only: not_False_eq_True)
  qed
qed

lemma ScriptInt_positive:
  assumes "v \<noteq> []" "length v \<le> 4" "last v AND 0x80 = 0"
    "minimal \<and> last v AND 0x7f = 0 \<longrightarrow> 2 \<le> length v \<and> v ! (length v - 2) AND 0x80 \<noteq> 0"
  shows "ScriptInt_of_bytes mem v minimal = Inr (from_little_endian v)"
proof -
  have "last v < 0x80" using assms(3) top_bit_u8 by blast
  then have "scriptint_loop 0 0 v = from_le_loop 0 0 v" using assms(2) by (intro scriptint_loop_from_le) auto
  then show ?thesis using assms by (auto simp: ScriptInt_of_bytes_def script_int_max_size_def Let_def from_little_endian_def)
qed

lemma BytesEncoding_decode:
  assumes "0 < unat n" "unat n < 2 ^ 31"
  shows "\<exists>e. BytesEncoding n = Some e \<and> length e \<le> 4 \<and> ScriptInt_of_bytes mem e True = Inr n"
proof -
  obtain e where e: "BytesEncoding n = Some e" using BytesEncoding_returns[of n] assms(2) by auto
  have n0: "n \<noteq> 0" using assms(1) by auto
  note E = BytesEncoding_shape[OF e n0]
  have "unat n div 2 ^ (8 * length e - 9) \<noteq> 0" using E(6) by (simp add: word_unat_eq_iff unat_drop_bit)
  then have lower: "2 ^ (8 * length e - 9) \<le> unat n" by (simp add: div_eq_0_iff not_less)
  have "length e \<le> 4"
  proof (rule ccontr)
    assume "\<not> length e \<le> 4"
    then have "(2::nat) ^ 31 \<le> 2 ^ (8 * length e - 9)" by (intro power_increasing) auto
    then show False using lower assms(2) by linarith
  qed
  moreover have "from_little_endian e = n" using from_to_le_exact[OF E(2)] E(1) by simp
  ultimately show ?thesis using e ScriptInt_positive[OF E(3) _ E(4), of True mem] E(5) by auto
qed

lemma bit_from_le_loop_high:
  "bit (from_le_loop i (0 :: 'a::len word) bs) k \<Longrightarrow> k < 8 * (i + length bs)"
proof (induction bs arbitrary: i)
  case (Cons b bs)
  have "from_le_loop i 0 (b # bs) = push_bit (8 * i) (ucast b) OR from_le_loop (Suc i) (0 :: 'a word) bs"
    using from_le_loop_out by simp
  then have "bit (push_bit (8 * i) (ucast b :: 'a word)) k \<or> bit (from_le_loop (Suc i) (0 :: 'a word) bs) k"
    using Cons.prems by (simp add: bit_or_iff)
  then show ?case
  proof
    assume "bit (push_bit (8 * i) (ucast b :: 'a word)) k"
    then show ?thesis by (auto simp: bit_simps dest: bit_imp_le_length)
  next
    assume "bit (from_le_loop (Suc i) (0 :: 'a word) bs) k"
    then show ?thesis using Cons.IH[of "Suc i"] by simp
  qed
qed simp

lemma mask7: "(0x7f :: u8) = mask 7"
  by (simp add: mask_eq_exp_minus_1)

lemma from_le_snoc: "from_little_endian (u @ [c]) = from_little_endian u OR push_bit (8 * length u) (ucast c)"
  by (simp add: from_little_endian_def from_le_loop_append)

lemma unat_from_le_less:
  assumes "8 * length bs < LENGTH('a::len)"
  shows "unat (from_little_endian bs :: 'a word) < 2 ^ (8 * length bs)"
proof -
  have "take_bit (8 * length bs) (from_little_endian bs :: 'a word) = from_little_endian bs"
    using bit_from_le_loop_high[of 0 bs]
    by (intro bit_word_eqI) (auto simp: bit_simps from_little_endian_def)
  then have "unat (from_little_endian bs :: 'a word) mod 2 ^ (8 * length bs) = unat (from_little_endian bs :: 'a word)"
    by (simp only: word_unat_eq_iff unat_take_bit)
  then show ?thesis by (metis mod_less_divisor zero_less_numeral zero_less_power)
qed

lemma scast_top:
  assumes "bit c 7"
  shows "(scast (push_bit 24 (ucast (c :: u8) :: u32)) :: i64) = push_bit 24 (ucast c) OR NOT (mask 32)"
proof (rule bit_word_eqI)
  fix n assume n: "n < LENGTH(64)"
  show "bit (scast (push_bit 24 (ucast c :: u32)) :: i64) n = bit (push_bit 24 (ucast c) OR NOT (mask 32) :: i64) n"
  proof (cases "n < 32")
    case True
    then show ?thesis using assms n
      by (cases "n = 31") (auto simp: bit_simps min_def not_less le_less_Suc_eq dest: bit_imp_le_length)
  next
    case False
    then show ?thesis using assms n by (auto simp: bit_simps min_def not_less le_less_Suc_eq dest: bit_imp_le_length)
  qed
qed

lemma clear_sign:
  fixes l h :: i64 and c :: u8
  assumes i: "i \<le> 3" and low: "\<And>n. bit l n \<Longrightarrow> n < 8 * i" and high: "\<And>n. bit h n \<Longrightarrow> 32 \<le> n"
  shows "(l OR (push_bit (8 * i) (ucast c) OR h)) AND NOT (push_bit (8 * i) 0x80) =
     (l OR push_bit (8 * i) (ucast (take_bit 7 c))) OR h"
proof (rule bit_word_eqI)
  fix n assume n: "n < LENGTH(64)"
  have e: "(0x80 :: i64) = push_bit 7 1" by simp
  have p: "bit (push_bit (8 * i) 0x80 :: i64) n = (n = 8 * i + 7)"
    using n i unfolding e push_bit_push_bit by (auto simp: bit_simps)
  have l: "\<not> bit l (8 * i + 7)" using low[of "8 * i + 7"] by auto
  have h: "\<not> bit h (8 * i + 7)" using high[of "8 * i + 7"] i by auto
  show "bit ((l OR (push_bit (8 * i) (ucast c) OR h)) AND NOT (push_bit (8 * i) 0x80)) n =
      bit ((l OR push_bit (8 * i) (ucast (take_bit 7 c))) OR h) n"
  proof (cases "n = 8 * i + 7")
    case True
    then show ?thesis using n p l h by (simp add: bit_or_iff bit_and_iff bit_not_iff) (auto simp: bit_simps)
  next
    case False
    have "bit (push_bit (8 * i) (ucast c) :: i64) n = bit (push_bit (8 * i) (ucast (take_bit 7 c)) :: i64) n"
      using False n by (auto simp: bit_simps dest: bit_imp_le_length)
    then show ?thesis using False n p by (simp add: bit_or_iff bit_and_iff bit_not_iff)
  qed
qed

lemma sint_of_int_in: "in_i64 k \<Longrightarrow> sint (of_int k :: i64) = k"
  by (simp add: in_i64_def signed_of_int signed_take_bit_int_eq_self)

lemma sint_small_neg:
  assumes "0 \<le> k" "k < 2 ^ 31"
  shows "sint (of_int (2 ^ 32 - k) :: i64) = 2 ^ 32 - k" "sint (of_int (- k) :: i64) = - k"
  using assms by (auto intro!: sint_of_int_in simp only: in_i64_def) auto

lemma ScriptInt_negative:
  assumes v: "v \<noteq> []" "length v \<le> 4" "last v AND 0x80 \<noteq> 0"
  shows "\<exists>r. ScriptInt_of_bytes mem v False = Inr r \<and>
     sint r = (if length v = 4 then 2 ^ 32 else 0) - int (unat (from_little_endian (butlast v @ [last v AND 0x7f]) :: i64))"
proof -
  let ?u = "butlast v" and ?c = "last v" and ?i = "length v - 1"
  have vu: "v = ?u @ [?c]" using v(1) by simp
  have i: "?i \<le> 3" using v(2) by simp
  have lu: "length ?u = ?i" by simp
  define l :: i64 where "l = from_little_endian ?u"
  have l: "n < 8 * ?i" if "bit l n" for n
    using that bit_from_le_loop_high[of 0 ?u n] by (simp add: l_def from_little_endian_def)
  define h :: i64 where "h = (if ?i = 3 then NOT (mask 32) else 0)"
  have h: "32 \<le> n" if "bit h n" for n using that by (auto simp: h_def bit_simps split: if_splits)
  have c7: "bit ?c 7" using v(3) bit_iff_and_push_bit_not_eq_0[of ?c 7] by simp
  have step: "scast (push_bit (8 * ?i) (ucast ?c :: u32)) = push_bit (8 * ?i) (ucast ?c) OR h"
  proof (cases "?i = 3")
    case True then show ?thesis using scast_top[OF c7] by (simp add: h_def)
  next
    case False
    then have "(scast (push_bit (8 * ?i) (ucast ?c :: u32)) :: i64) = push_bit (8 * ?i) (ucast ?c)"
      using i by (intro scriptint_step) simp
    then show ?thesis using False by (simp add: h_def)
  qed
  have low: "scriptint_loop 0 0 ?u = l"
    unfolding l_def from_little_endian_def by (rule scriptint_loop_from_le) (use v(2) in auto)
  have app: "scriptint_loop k out (xs @ ys) = scriptint_loop (k + length xs) (scriptint_loop k out xs) ys"
    for k out xs ys by (induction xs arbitrary: k out) auto
  have val: "scriptint_loop 0 0 v = l OR (push_bit (8 * ?i) (ucast ?c) OR h)"
    by (subst vu, subst app) (simp only: low scriptint_loop.simps lu step add_0)
  define m :: i64 where "m = from_little_endian (?u @ [?c AND 0x7f])"
  have m: "m = l OR push_bit (8 * ?i) (ucast (take_bit 7 ?c))"
    by (simp only: m_def from_le_snoc l_def lu mask7 take_bit_eq_mask)
  have cleared: "scriptint_loop 0 0 v AND NOT (push_bit (8 * ?i) 0x80) = m OR h"
    unfolding val m by (rule clear_sign[OF i l h])
  have mb: "unat m < 2 ^ 31"
  proof -
    have "\<not> bit m n" if "31 \<le> n" for n
      using that i l[of n] unfolding m by (auto simp: bit_or_iff) (auto simp: bit_simps dest: bit_imp_le_length)
    then have "take_bit 31 m = m" by (intro bit_word_eqI) (auto simp: bit_take_bit_iff not_le[symmetric])
    then have "unat m mod 2 ^ 31 = unat m" by (simp only: word_unat_eq_iff unat_take_bit)
    then show ?thesis by (metis mod_less_divisor zero_less_numeral zero_less_power)
  qed
  have r: "ScriptInt_of_bytes mem v False = Inr (- (m OR h))"
    using v cleared by (simp add: ScriptInt_of_bytes_def script_int_max_size_def Let_def)
  have mb': "int (unat m) < 2 ^ 31"
    using of_nat_less_iff[of "unat m" "2 ^ 31", where 'a = int] mb by (simp only: of_nat_power of_nat_numeral)
  have mb0: "0 \<le> int (unat m)" by (rule of_nat_0_le_iff)
  have "sint (- (m OR h)) = (if length v = 4 then 2 ^ 32 else 0) - int (unat m)"
  proof (cases "?i = 3")
    case True
    have "m AND NOT (mask 32) = 0"
    proof -
      have "\<not> bit m n" if "32 \<le> n" for n
        using that i l[of n] unfolding m by (auto simp: bit_or_iff) (auto simp: bit_simps dest: bit_imp_le_length)
      then show ?thesis by (intro bit_word_eqI) (auto simp: bit_simps simp flip: not_le)
    qed
    then have "m OR h = m + NOT (mask 32)" using True word_plus_and_or[of m "NOT (mask 32)"] by (simp add: h_def)
    then have "- (m OR h) = of_int (2 ^ 32 - int (unat m))" by (simp add: mask_eq_exp_minus_1)
    moreover have "sint (of_int (2 ^ 32 - int (unat m)) :: i64) = 2 ^ 32 - int (unat m)"
      by (rule sint_small_neg[OF mb0 mb'])
    moreover have "length v = 4" using True by simp
    ultimately show ?thesis by (simp only: if_True simp_thms)
  next
    case False
    then have "- (m OR h) = of_int (- int (unat m))" by (simp add: h_def)
    moreover have "sint (of_int (- int (unat m)) :: i64) = - int (unat m)"
      by (rule sint_small_neg[OF mb0 mb'])
    moreover have "length v \<noteq> 4" using False by auto
    ultimately show ?thesis by (simp only: if_False diff_0 simp_thms)
  qed
  then show ?thesis using r by (simp only: m_def) blast
qed

subsection \<open>Pushing and popping data\<close>

definition push_header :: "nat \<Rightarrow> bytes" where
  "push_header n =
     (if n < unat OP_PUSHDATA1 then [of_nat n]
      else if n \<le> 0xff then [OP_PUSHDATA1, of_nat n]
      else if n \<le> 0xffff then OP_PUSHDATA2 # to_little_endian 2 (of_nat n :: u16)
      else OP_PUSHDATA4 # to_little_endian 4 (of_nat n :: u32))"

lemma Push_bytes_header: "Push_bytes b s = s @ push_header (length b) @ b"
  by (simp add: Push_bytes_def push_header_def)

lemma unat_of_nat_small: "n < 2 ^ LENGTH('a::len) \<Longrightarrow> unat (of_nat n :: 'a word) = n"
  by (simp add: unat_of_nat)

lemma pop_pushed:
  assumes n: "0 < length b" "length b < 2 ^ 32"
  shows "\<exists>opc. Pop_opcode (Push_bytes b s @ t) (length s) = Some (opc, length s + 1) \<and>
     Pop_data (Push_bytes b s @ t) opc (length s + 1) = (Some b, length s + length (push_header (length b)))"
proof -
  let ?n = "length b"
  have p1: "unat OP_PUSHDATA1 = 76" by (simp add: OP_PUSHDATA1_def)
  consider "?n < 76" | "76 \<le> ?n" "?n \<le> 0xff" | "0xff < ?n" "?n \<le> 0xffff" | "0xffff < ?n" by linarith
  then show ?thesis
  proof cases
    case 1
    then have u: "unat (of_nat ?n :: u8) = ?n" by (simp add: unat_of_nat)
    have "(of_nat ?n :: u8) \<noteq> 0" "(of_nat ?n :: u8) < 0x4c" "\<not> 0x4e < (of_nat ?n :: u8)"
      using 1 n(1) u by (auto simp: word_less_nat_alt)
    then show ?thesis using 1 u p1 n(1)
      by (auto simp: Pop_opcode_def Pop_data_def Push_bytes_header push_header_def op_defs Let_def nth_append)
  next
    case 2
    then have u: "unat (of_nat ?n :: u8) = ?n" by (simp add: unat_of_nat)
    show ?thesis using 2 u n(1)
      by (simp add: Pop_opcode_def Pop_data_def Push_bytes_header push_header_def op_defs Let_def nth_append)
  next
    case 3
    then have u: "unat (from_little_endian (to_little_endian 2 (of_nat ?n :: u16)) :: u16) = ?n"
      by (simp add: from_to_little_endian unat_of_nat del: to_little_endian.simps)
    show ?thesis using 3 u n(1)
      by (simp add: Pop_opcode_def Pop_data_def Push_bytes_header push_header_def op_defs Let_def nth_append
          del: to_little_endian.simps)
  next
    case 4
    then have u: "unat (from_little_endian (to_little_endian 4 (of_nat ?n :: u32)) :: u32) = ?n"
      using n(2) by (simp add: from_to_little_endian unat_of_nat del: to_little_endian.simps)
    show ?thesis using 4 u n(1)
      by (simp add: Pop_opcode_def Pop_data_def Push_bytes_header push_header_def op_defs Let_def nth_append
          del: to_little_endian.simps)
  qed
qed

subsection \<open>Properties\<close>

text \<open>\<^verbatim>\<open>BytesEncoding\<close> returns exactly for values below \<open>2 ^ 63\<close>.  For the others, so for every
  negative \<^verbatim>\<open>ScriptInt\<close>, its loop does not end: pushing one onto a script never returns.\<close>
theorem BytesEncoding_returns_iff:
  "((\<exists>e. BytesEncoding n = Some e) \<longleftrightarrow> unat n < 2 ^ 63) \<and>
   ((\<exists>s'. Push_scriptint n s = Some s') \<longleftrightarrow> 0 \<le> sint n)"
  using BytesEncoding_returns[of n] by (auto simp: Push_scriptint_def bind_eq_Some_conv sint_nonneg_iff)

text \<open>A script number from 1 to \<open>2 ^ 31 - 1\<close> is encoded in at most four bytes, in a form the
  minimality check of \<^verbatim>\<open>ScriptInt\<close> accepts, and decoded to the same number.\<close>
theorem script_number_roundtrip:
  assumes "0 < unat n" and "unat n < 2 ^ 31"
  shows "\<exists>e. BytesEncoding n = Some e \<and> length e \<le> script_int_max_size \<and> ScriptInt_of_bytes mem e True = Inr n"
  using BytesEncoding_decode[OF assms] by (simp add: script_int_max_size_def)

lemma script_number_roundtrip_witness:
  "\<exists>e. BytesEncoding 255 = Some e \<and> length e \<le> script_int_max_size \<and> ScriptInt_of_bytes 0 e True = Inr 255"
  by (rule script_number_roundtrip) simp_all

text \<open>A negative script number of one to three bytes is decoded to minus its magnitude; one of
  four bytes, which the size limit allows, comes out \<open>2 ^ 32\<close> too large, as a positive number.\<close>
theorem ScriptInt_negative_value:
  assumes "v \<noteq> []" and "length v \<le> script_int_max_size" and "last v AND 0x80 \<noteq> 0"
  shows "\<exists>r. ScriptInt_of_bytes mem v False = Inr r \<and>
     sint r = (if length v = 4 then 2 ^ 32 else 0) -
       int (unat (from_little_endian (butlast v @ [last v AND 0x7f]) :: i64))"
  using ScriptInt_negative[OF assms(1) _ assms(3), of mem] assms(2) by (simp add: script_int_max_size_def)

lemma ScriptInt_negative_value_witness:
  "\<exists>r. ScriptInt_of_bytes 0 [1, 0, 0, 0x80] False = Inr r \<and> sint r = 2 ^ 32 - 1"
  using ScriptInt_negative_value[where v = "[1, 0, 0, 0x80]" and mem = 0]
  by (simp add: script_int_max_size_def from_little_endian_def)

text \<open>What \<^verbatim>\<open>Push\<close> appends to any script, the two \<^verbatim>\<open>Pop\<close> read back wherever the script goes on,
  for data of 1 to \<open>2 ^ 32 - 1\<close> bytes; but the iterator is left at the start of the data, not behind
  it.\<close>
theorem push_pop_roundtrip:
  assumes "0 < length b" and "length b < 2 ^ 32"
  shows "\<exists>opc pc. Pop_opcode (Push_bytes b s @ t) (length s) = Some (opc, length s + 1) \<and>
     Pop_data (Push_bytes b s @ t) opc (length s + 1) = (Some b, pc) \<and>
     pc + length b = length (Push_bytes b s)"
  using pop_pushed[OF assms, of s t] by (fastforce simp: Push_bytes_header)

lemma push_pop_roundtrip_witness:
  "\<exists>opc pc. Pop_opcode (Push_bytes [7, 8] [] @ []) (length ([] :: script)) = Some (opc, length ([] :: script) + 1) \<and>
     Pop_data (Push_bytes [7, 8] [] @ []) opc (length ([] :: script) + 1) = (Some [7, 8], pc) \<and>
     pc + length [7 :: u8, 8] = length (Push_bytes [7, 8] [])"
  by (rule push_pop_roundtrip) simp_all

end
