(* ===== verification/Transaction.thy ===== *)
theory Transaction
  imports Script
begin

text \<open>
  \<^verbatim>\<open>OutPoint\<close>, \<^verbatim>\<open>TxIn\<close>, \<^verbatim>\<open>TxOut\<close> and \<^verbatim>\<open>Transaction\<close> (\<^verbatim>\<open>src/consensus/src/transaction.cpp\<close>).  The
  double SHA-256 of the Botan library is the parameter \<open>sha\<close>.  A constructor that leaves a member
  unset takes what the memory held (\<open>mem\<close>) as an argument.
\<close>

definition null_hash :: bytes where
  "null_hash = replicate kHashSize 0"

definition max_u32 :: u32 where
  "max_u32 = 0xffffffff"

subsection \<open>OutPoint\<close>

record outpoint =
  prev_hash :: bytes
  out_index :: u32

definition OutPoint_new :: "bytes \<Rightarrow> outpoint" where
  "OutPoint_new mem = \<lparr>prev_hash = mem, out_index = max_u32\<rparr>"

definition OutPoint_Clear :: "outpoint \<Rightarrow> outpoint" where
  "OutPoint_Clear p = p\<lparr>prev_hash := replicate (length (prev_hash p)) 0, out_index := max_u32\<rparr>"

definition OutPoint_IsNull :: "outpoint \<Rightarrow> bool" where
  "OutPoint_IsNull p = (prev_hash p = null_hash \<and> out_index p = max_u32)"

definition OutPoint_Size :: "outpoint \<Rightarrow> nat" where
  "OutPoint_Size p = length (prev_hash p) + 4"

definition OutPoint_ser :: "outpoint \<Rightarrow> bytes" where
  "OutPoint_ser p = ser_write_array (prev_hash p) @ ser_write_data (out_index p)"

definition OutPoint_deser :: "compiler \<Rightarrow> bytes \<Rightarrow> (outpoint \<times> bytes) res" where
  "OutPoint_deser cc s =
     res_bind (ser_read_array kHashSize s) (\<lambda>(h, s1).
     res_bind (ser_read_data s1) (\<lambda>(i, s2). Inr (\<lparr>prev_hash = h, out_index = i\<rparr>, s2)))"

text \<open>\<^verbatim>\<open>operator<\<close> calls itself on the same arguments before it looks at anything.\<close>

partial_function (option) OutPoint_less :: "outpoint \<Rightarrow> outpoint \<Rightarrow> bool option" where
  "OutPoint_less a b =
     Option.bind (OutPoint_less a b) (\<lambda>lt. Some (lt \<or> a = b \<and> out_index a < out_index b))"

subsection \<open>TxIn and TxOut\<close>

record txin =
  prevout :: outpoint
  script_sig :: script
  sequence_no :: u32
  script_witness :: "bytes list"

definition default_sequence_no :: u32 where
  "default_sequence_no = 0xffffffff"

definition TxIn_new :: "bytes \<Rightarrow> txin" where
  "TxIn_new mem = \<lparr>prevout = OutPoint_new mem, script_sig = [], sequence_no = default_sequence_no,
                   script_witness = []\<rparr>"

definition TxIn_eq :: "txin \<Rightarrow> txin \<Rightarrow> bool" where
  "TxIn_eq a b = (prevout a = prevout b \<and> script_sig a = script_sig b \<and> sequence_no a = sequence_no b)"

definition TxIn_assign :: "txin \<Rightarrow> txin \<Rightarrow> txin" where
  "TxIn_assign a b = a\<lparr>prevout := prevout b, script_sig := script_sig b, sequence_no := sequence_no b\<rparr>"

definition TxIn_SerializedSize :: "txin \<Rightarrow> nat" where
  "TxIn_SerializedSize i = OutPoint_Size (prevout i) + Script_SerializedSize (script_sig i) + 4"

definition TxIn_ser :: "txin \<Rightarrow> bytes" where
  "TxIn_ser i = OutPoint_ser (prevout i) @ script_ser (script_sig i) @ ser_write_data (sequence_no i)"

text \<open>Read into a fresh object, as \<^verbatim>\<open>resize\<close> makes them: the witness stays empty.\<close>

definition TxIn_deser :: "compiler \<Rightarrow> bytes \<Rightarrow> (txin \<times> bytes) res" where
  "TxIn_deser cc s =
     res_bind (ser_read_class OutPoint_deser cc s) (\<lambda>(p, s1).
     res_bind (ser_read_class script_deser cc s1) (\<lambda>(sig, s2).
     res_bind (ser_read_data s2) (\<lambda>(q, s3).
       Inr (\<lparr>prevout = p, script_sig = sig, sequence_no = q, script_witness = []\<rparr>, s3))))"

record txout =
  out_value :: u64
  script_pub_key :: script

definition null_value :: u64 where
  "null_value = 0xffffffffffffffff"

definition TxOut_new :: txout where
  "TxOut_new = \<lparr>out_value = null_value, script_pub_key = []\<rparr>"

definition TxOut_Clear :: "txout \<Rightarrow> txout" where
  "TxOut_Clear out = out\<lparr>out_value := null_value, script_pub_key := []\<rparr>"

definition TxOut_IsNull :: "txout \<Rightarrow> bool" where
  "TxOut_IsNull out = (out_value out = null_value)"

definition TxOut_SerializedSize :: "txout \<Rightarrow> nat" where
  "TxOut_SerializedSize out = Script_SerializedSize (script_pub_key out) + 8"

definition TxOut_ser :: "txout \<Rightarrow> bytes" where
  "TxOut_ser out = ser_write_data (out_value out) @ script_ser (script_pub_key out)"

definition TxOut_deser :: "compiler \<Rightarrow> bytes \<Rightarrow> (txout \<times> bytes) res" where
  "TxOut_deser cc s =
     res_bind (ser_read_data s) (\<lambda>(v, s1).
     res_bind (ser_read_class script_deser cc s1) (\<lambda>(k, s2). Inr (\<lparr>out_value = v, script_pub_key = k\<rparr>, s2)))"

subsection \<open>Transaction\<close>

record tx =
  tx_version :: u32
  inputs :: "txin list"
  outputs :: "txout list"
  lock_time :: u32
  hash_cache :: bytes

definition default_version :: u32 where
  "default_version = 2"

text \<open>The default constructor value-initialises the cache.\<close>

definition Tx_new :: tx where
  "Tx_new = \<lparr>tx_version = default_version, inputs = [], outputs = [], lock_time = 0, hash_cache = null_hash\<rparr>"

definition Tx_ser :: "tx \<Rightarrow> bytes" where
  "Tx_ser t = ser_write_data (tx_version t) @ ser_write_vec TxIn_ser (inputs t) @
     ser_write_vec TxOut_ser (outputs t) @ ser_write_data (lock_time t)"

text \<open>Reading stores into the four wire fields of an existing object.\<close>

definition Tx_deser :: "compiler \<Rightarrow> tx \<Rightarrow> bytes \<Rightarrow> (tx \<times> bytes) res" where
  "Tx_deser cc t s =
     res_bind (ser_read_data s) (\<lambda>(v, s1).
     res_bind (ser_read_vec (ser_read_class TxIn_deser) cc s1) (\<lambda>(ins, s2).
     res_bind (ser_read_vec (ser_read_class TxOut_deser) cc s2) (\<lambda>(outs, s3).
     res_bind (ser_read_data s3) (\<lambda>(l, s4).
       Inr (t\<lparr>tx_version := v, inputs := ins, outputs := outs, lock_time := l\<rparr>, s4)))))"

definition Tx_GetHash :: "(bytes \<Rightarrow> bytes) \<Rightarrow> tx \<Rightarrow> bytes \<times> tx" where
  "Tx_GetHash sha t =
     (if hash_cache t = null_hash
      then let h = sha (Tx_ser t) in (h, t\<lparr>hash_cache := h\<rparr>)
      else (hash_cache t, t))"

text \<open>The constructor from parts, the copy and the move constructor call \<^verbatim>\<open>GetHash\<close> on an unset cache.\<close>

definition Tx_make :: "(bytes \<Rightarrow> bytes) \<Rightarrow> bytes \<Rightarrow> u32 \<Rightarrow> txin list \<Rightarrow> txout list \<Rightarrow> u32 \<Rightarrow> tx" where
  "Tx_make sha mem v ins outs l =
     snd (Tx_GetHash sha \<lparr>tx_version = v, inputs = ins, outputs = outs, lock_time = l, hash_cache = mem\<rparr>)"

definition Tx_copy :: "(bytes \<Rightarrow> bytes) \<Rightarrow> bytes \<Rightarrow> tx \<Rightarrow> tx" where
  "Tx_copy sha mem t =
     snd (Tx_GetHash sha \<lparr>tx_version = tx_version t, inputs = inputs t, outputs = outputs t,
                           lock_time = lock_time t, hash_cache = mem\<rparr>)"

text \<open>\<^verbatim>\<open>TxIn::operator=\<close> keeps the witness it finds.  Copying into a vector assigns the inputs that are there, one by
  one, unless the vector takes a new buffer (\<open>fresh\<close>), as it does when it is too small, or one of another vector,
  when that is moved.\<close>

definition assign_inputs :: "bool \<Rightarrow> txin list \<Rightarrow> txin list \<Rightarrow> txin list" where
  "assign_inputs fresh old new = (if fresh then new else map2 TxIn_assign old new @ drop (length old) new)"

definition Tx_assign :: "bool \<Rightarrow> tx \<Rightarrow> tx \<Rightarrow> tx" where
  "Tx_assign fresh a b =
     a\<lparr>tx_version := tx_version b, inputs := assign_inputs fresh (inputs a) (inputs b), outputs := outputs b,
       lock_time := lock_time b, hash_cache := null_hash\<rparr>"

definition Tx_set_version :: "u32 \<Rightarrow> tx \<Rightarrow> tx" where
  "Tx_set_version v t = t\<lparr>tx_version := v, hash_cache := null_hash\<rparr>"

definition Tx_set_inputs :: "bool \<Rightarrow> txin list \<Rightarrow> tx \<Rightarrow> tx" where
  "Tx_set_inputs fresh ins t = t\<lparr>inputs := assign_inputs fresh (inputs t) ins, hash_cache := null_hash\<rparr>"

definition Tx_set_outputs :: "txout list \<Rightarrow> tx \<Rightarrow> tx" where
  "Tx_set_outputs outs t = t\<lparr>outputs := outs, hash_cache := null_hash\<rparr>"

definition Tx_set_lockTime :: "u32 \<Rightarrow> tx \<Rightarrow> tx" where
  "Tx_set_lockTime l t = t\<lparr>lock_time := l, hash_cache := null_hash\<rparr>"

definition Tx_IsNull :: "tx \<Rightarrow> bool" where
  "Tx_IsNull t = (inputs t = [] \<and> outputs t = [])"

definition Tx_IsCoinBase :: "tx \<Rightarrow> bool" where
  "Tx_IsCoinBase t = (length (inputs t) = 1 \<and> OutPoint_IsNull (prevout (inputs t ! 0)))"

fun outputs_amount_loop :: "u64 \<Rightarrow> txout list \<Rightarrow> u64 res" where
  "outputs_amount_loop amount [] = Inr amount"
| "outputs_amount_loop amount (out # outs) =
     (let amount' = amount + out_value out
      in if out_value out > kMaxSatoshiAmount \<or> amount' > kMaxSatoshiAmount then Inl RuntimeError
         else outputs_amount_loop amount' outs)"

definition Tx_OutputsAmount :: "tx \<Rightarrow> u64 res" where
  "Tx_OutputsAmount t = outputs_amount_loop 0 (outputs t)"

definition Tx_SerializedSize :: "tx \<Rightarrow> nat" where
  "Tx_SerializedSize t =
     4 + 4 + VarIntSize (length (inputs t)) + fold (\<lambda>i n. n + TxIn_SerializedSize i) (inputs t) 0
     + VarIntSize (length (outputs t)) + fold (\<lambda>out n. n + TxOut_SerializedSize out) (outputs t) 0"

definition Tx_eq :: "(bytes \<Rightarrow> bytes) \<Rightarrow> tx \<Rightarrow> tx \<Rightarrow> bool" where
  "Tx_eq sha a b = (fst (Tx_GetHash sha a) = fst (Tx_GetHash sha b))"

subsection \<open>Codecs\<close>

definition outpoint_ok :: "outpoint \<Rightarrow> bool" where
  "outpoint_ok p = hash_ok (prev_hash p)"

lemmas read_rules = hash.dec_enc u8c.dec_enc u16c.dec_enc u32c.dec_enc u64c.dec_enc

interpretation outpoint: canon_codec OutPoint_ser OutPoint_deser outpoint_ok
proof unfold_locales
  fix cc :: compiler and x rest
  assume "clean cc" "outpoint_ok x"
  then show "OutPoint_deser cc (OutPoint_ser x @ rest) = Inr (x, rest)"
    by (simp add: OutPoint_deser_def OutPoint_ser_def outpoint_ok_def hash.dec_enc[of cc] read_append)
next
  fix cc :: compiler and s x rest
  assume "clean cc" "OutPoint_deser cc s = Inr (x, rest)"
  then show "s = OutPoint_ser x @ rest \<and> outpoint_ok x"
    by (auto simp: OutPoint_deser_def OutPoint_ser_def outpoint_ok_def res_bind_eq_Inr hash_ok_def
        ser_write_array_def read_array_eq_Inr dest!: ser_read_data_cases(3))
qed

interpretation outpoint_s: sized_codec OutPoint_ser OutPoint_deser outpoint_ok OutPoint_Size
  by unfold_locales (simp add: OutPoint_ser_def OutPoint_Size_def ser_write_array_def)

definition txin_ok :: "txin \<Rightarrow> bool" where
  "txin_ok i = (outpoint_ok (prevout i) \<and> len_ok (script_sig i) \<and> script_witness i = [])"

interpretation txin: canon_codec TxIn_ser TxIn_deser txin_ok
proof unfold_locales
  fix cc :: compiler and x rest
  assume "clean cc" "txin_ok x"
  then show "TxIn_deser cc (TxIn_ser x @ rest) = Inr (x, rest)"
    by (simp add: TxIn_deser_def TxIn_ser_def txin_ok_def outpoint.dec_enc script.dec_enc read_append)
next
  fix cc :: compiler and s x rest
  assume "clean cc" "TxIn_deser cc s = Inr (x, rest)"
  then show "s = TxIn_ser x @ rest \<and> txin_ok x"
    by (auto simp: TxIn_deser_def TxIn_ser_def txin_ok_def res_bind_eq_Inr outpoint.dec_iff script.dec_iff
        dest!: ser_read_data_cases(3))
qed

interpretation txin_s: sized_codec TxIn_ser TxIn_deser txin_ok TxIn_SerializedSize
  by unfold_locales
    (simp add: TxIn_ser_def TxIn_SerializedSize_def txin_ok_def outpoint_s.enc_size script_s.enc_size)

definition txout_ok :: "txout \<Rightarrow> bool" where
  "txout_ok out = len_ok (script_pub_key out)"

interpretation txout: canon_codec TxOut_ser TxOut_deser txout_ok
proof unfold_locales
  fix cc :: compiler and x rest
  assume "clean cc" "txout_ok x"
  then show "TxOut_deser cc (TxOut_ser x @ rest) = Inr (x, rest)"
    by (simp add: TxOut_deser_def TxOut_ser_def txout_ok_def script.dec_enc read_append)
next
  fix cc :: compiler and s x rest
  assume "clean cc" "TxOut_deser cc s = Inr (x, rest)"
  then show "s = TxOut_ser x @ rest \<and> txout_ok x"
    by (auto simp: TxOut_deser_def TxOut_ser_def txout_ok_def res_bind_eq_Inr script.dec_iff
        dest!: ser_read_data_cases(4))
qed

interpretation txout_s: sized_codec TxOut_ser TxOut_deser txout_ok TxOut_SerializedSize
  by unfold_locales (simp add: TxOut_ser_def TxOut_SerializedSize_def txout_ok_def script_s.enc_size)

interpretation txins: canon_codec "ser_write_vec TxIn_ser" "ser_read_vec (ser_read_class TxIn_deser)" "vec_ok txin_ok"
  by (rule canon_codec.vec_canon_codec[OF txin.class_canon_codec])

interpretation txouts: canon_codec "ser_write_vec TxOut_ser" "ser_read_vec (ser_read_class TxOut_deser)" "vec_ok txout_ok"
  by (rule canon_codec.vec_canon_codec[OF txout.class_canon_codec])

definition tx_ok :: "tx \<Rightarrow> bool" where
  "tx_ok t = (vec_ok txin_ok (inputs t) \<and> vec_ok txout_ok (outputs t) \<and> hash_cache t = null_hash)"

interpretation tx: canon_codec Tx_ser "\<lambda>cc. Tx_deser cc Tx_new" tx_ok
proof unfold_locales
  fix cc :: compiler and x rest
  assume "clean cc" "tx_ok x"
  then show "Tx_deser cc Tx_new (Tx_ser x @ rest) = Inr (x, rest)"
    by (simp add: Tx_deser_def Tx_ser_def tx_ok_def txins.dec_enc txouts.dec_enc read_append Tx_new_def)
next
  fix cc :: compiler and s x rest
  assume "clean cc" "Tx_deser cc Tx_new s = Inr (x, rest)"
  then show "s = Tx_ser x @ rest \<and> tx_ok x"
    by (auto simp: Tx_deser_def Tx_ser_def tx_ok_def res_bind_eq_Inr txins.dec_iff txouts.dec_iff Tx_new_def
        dest!: ser_read_data_cases(3))
qed

lemma fold_add_sum: "fold (\<lambda>x n. n + f x) xs a = a + (\<Sum>x\<leftarrow>xs. f x :: nat)"
  by (induction xs arbitrary: a) auto

interpretation tx_s: sized_codec Tx_ser "\<lambda>cc. Tx_deser cc Tx_new" tx_ok Tx_SerializedSize
  by unfold_locales
    (simp add: Tx_ser_def Tx_SerializedSize_def tx_ok_def txin_s.vec_size txout_s.vec_size fold_add_sum)

subsection \<open>The hash cache\<close>

text \<open>The cache is empty or the hash of the wire form.\<close>

definition cache_inv :: "(bytes \<Rightarrow> bytes) \<Rightarrow> tx \<Rightarrow> bool" where
  [inv_defs]: "cache_inv sha t = (if hash_cache t = null_hash then True else hash_cache t = sha (Tx_ser t))"

text \<open>What a client may do to a transaction object, reading it from a stream apart.\<close>

datatype tx_op =
    SetVersion u32
  | SetInputs bool "txin list"
  | SetOutputs "txout list"
  | SetLockTime u32
  | Assign bool tx
  | AskHash

fun tx_apply :: "(bytes \<Rightarrow> bytes) \<Rightarrow> tx_op \<Rightarrow> tx \<Rightarrow> tx" where
  "tx_apply sha (SetVersion v) t = Tx_set_version v t"
| "tx_apply sha (SetInputs fresh ins) t = Tx_set_inputs fresh ins t"
| "tx_apply sha (SetOutputs outs) t = Tx_set_outputs outs t"
| "tx_apply sha (SetLockTime l) t = Tx_set_lockTime l t"
| "tx_apply sha (Assign fresh b) t = Tx_assign fresh t b"
| "tx_apply sha AskHash t = snd (Tx_GetHash sha t)"

lemma Tx_ser_cache [simp]: "Tx_ser (t\<lparr>hash_cache := h\<rparr>) = Tx_ser t"
  by (simp add: Tx_ser_def)

lemma tx_apply_inv: "cache_inv sha t \<Longrightarrow> cache_inv sha (tx_apply sha op t)"
  by (cases op)
    (auto simp: cache_inv_def Tx_set_version_def Tx_set_inputs_def Tx_set_outputs_def Tx_set_lockTime_def
      Tx_assign_def Tx_GetHash_def Let_def)

lemma tx_run_inv: "cache_inv sha t \<Longrightarrow> cache_inv sha (fold (tx_apply sha) ops t)"
  by (induction ops arbitrary: t) (auto simp: tx_apply_inv)

lemma GetHash_of_inv: "cache_inv sha t \<Longrightarrow> fst (Tx_GetHash sha t) = sha (Tx_ser t)"
  by (auto simp: cache_inv_def Tx_GetHash_def Let_def)

text \<open>The witness apart, an assignment copies.\<close>

lemma assign_inputs_wire: "map TxIn_ser (assign_inputs fresh old new) = map TxIn_ser new"
  by (rule nth_equalityI) (auto simp: assign_inputs_def TxIn_assign_def TxIn_ser_def nth_append)

lemma length_assign_inputs [simp]: "length (assign_inputs fresh old new) = length new"
  by (auto simp: assign_inputs_def)

lemma Tx_assign_wire: "Tx_ser (Tx_assign fresh a b) = Tx_ser b" "Tx_ser (Tx_set_inputs fresh ins a) = Tx_ser (a\<lparr>inputs := ins\<rparr>)"
  by (simp_all add: Tx_assign_def Tx_set_inputs_def Tx_ser_def ser_write_vec_def assign_inputs_wire)

subsection \<open>Properties\<close>

lemma read_vec_standard:
  assumes "standard cc" "ser_read_vec (ser_read_class dec) cc s = Inr (xs, rest)"
  shows "xs = []"
proof -
  obtain n s1 where "read_n (ser_read_class dec cc) n s1 = Inr (xs, rest)"
    using assms(2) by (auto simp: ser_read_vec_def res_bind_eq_Inr)
  then show ?thesis by (cases n) (auto simp: res_bind_eq_Inr ser_read_class_standard[OF assms(1)])
qed

text \<open>C11: The bytes a transaction is written as determine it and where they end, and \<^verbatim>\<open>SerializedSize\<close> is their number.
  Reading, though, goes through a function without a return statement: as the language has it, no
  transaction with an input or an output is ever read; in a program where that function returns and
  the unset local of \<^verbatim>\<open>SerReadVarInt\<close> is zero, exactly the bytes that were written are read, as what was
  written.  (The witness and the hash cache are not part of the wire form.)\<close>
theorem transaction_wire_format:
  "(tx_ok t \<longrightarrow> length (Tx_ser t) = Tx_SerializedSize t \<and>
     (\<forall>t' r'. tx_ok t' \<and> Tx_ser t' @ r' = Tx_ser t @ rest \<longrightarrow> t' = t \<and> r' = rest)) \<and>
   (standard cc \<longrightarrow> Tx_deser cc Tx_new s = Inr (t, rest) \<longrightarrow> inputs t = [] \<and> outputs t = []) \<and>
   (clean cc \<longrightarrow> (Tx_deser cc Tx_new s = Inr (t, rest)) = (tx_ok t \<and> s = Tx_ser t @ rest))"
proof -
  have "standard cc \<longrightarrow> Tx_deser cc Tx_new s = Inr (t, rest) \<longrightarrow> inputs t = [] \<and> outputs t = []"
    by (auto simp: Tx_deser_def res_bind_eq_Inr dest: read_vec_standard)
  moreover have "tx_ok t \<longrightarrow> (\<forall>t' r'. tx_ok t' \<and> Tx_ser t' @ r' = Tx_ser t @ rest \<longrightarrow> t' = t \<and> r' = rest)"
    using tx.enc_prefix_free by blast
  ultimately show ?thesis using tx.dec_iff[of cc s t rest] tx_s.enc_size[of t] by blast
qed

lemma transaction_wire_format_witness:
  "Tx_deser tidy Tx_new (Tx_ser Tx_new @ [7]) = Inr (Tx_new, [7]) \<and> length (Tx_ser Tx_new) = 10"
  using transaction_wire_format[of Tx_new "[7]" tidy "Tx_ser Tx_new @ [7]"]
  by (simp add: tx_ok_def Tx_new_def vec_ok_def len_ok_def Tx_SerializedSize_def VarIntSize_def)

text \<open>C7: Whatever setters, assignments and hash queries a client applies to a default constructed
  transaction, \<^verbatim>\<open>GetHash\<close> returns the double SHA-256 of the current wire form.\<close>
theorem hash_cache_coherent:
  "fst (Tx_GetHash sha (fold (tx_apply sha) ops Tx_new)) = sha (Tx_ser (fold (tx_apply sha) ops Tx_new))"
proof (rule GetHash_of_inv, rule tx_run_inv)
  show "cache_inv sha Tx_new" by (simp add: cache_inv_def Tx_new_def)
qed

text \<open>Two operations break that: \<^verbatim>\<open>Deserialize\<close> stores new fields and keeps the old cached hash,
  and the constructor from parts and the copy constructor ask \<^verbatim>\<open>GetHash\<close> about a cache they have not
  set: unless the memory held zeros, they take its content for the hash.\<close>
theorem stale_hash_after_read:
  assumes "hash_cache t = h" and "h \<noteq> null_hash" and "Tx_deser cc t s = Inr (t', rest)"
  shows "fst (Tx_GetHash sha t') = h \<and>
    fst (Tx_GetHash sha (Tx_make sha h (tx_version t) (inputs t) (outputs t) (lock_time t))) = h \<and>
    fst (Tx_GetHash sha (Tx_copy sha h t)) = h"
  using assms
  by (auto simp: Tx_GetHash_def Tx_make_def Tx_copy_def Tx_deser_def res_bind_eq_Inr)

lemma stale_hash_after_read_witness:
  "fst (Tx_GetHash (\<lambda>_. replicate 32 2) (Tx_new\<lparr>hash_cache := replicate 32 1\<rparr>)) = replicate 32 1"
proof -
  let ?t = "Tx_new\<lparr>hash_cache := replicate 32 1\<rparr>"
  have "Tx_deser tidy ?t (Tx_ser Tx_new) = Inr (?t, [])"
    by (simp add: Tx_deser_def Tx_ser_def txins.dec_enc txouts.dec_enc read_append Tx_new_def vec_ok_def len_ok_def
        u32c.dec_all[of tidy])
  then show ?thesis
    using stale_hash_after_read[of ?t "replicate 32 1" tidy "Tx_ser Tx_new" ?t "[]" "\<lambda>_. replicate 32 2"]
    by (simp add: null_hash_def kHashSize_def)
qed

lemma outputs_amount_loop_spec:
  "unat a \<le> unat kMaxSatoshiAmount \<Longrightarrow> outputs_amount_loop a outs =
     (if unat a + (\<Sum>out\<leftarrow>outs. unat (out_value out)) \<le> unat kMaxSatoshiAmount
      then Inr (a + of_nat (\<Sum>out\<leftarrow>outs. unat (out_value out))) else Inl RuntimeError)"
proof (induction outs arbitrary: a)
  case (Cons out outs)
  have max: "unat kMaxSatoshiAmount = 2100000000000000" by (simp add: kMaxSatoshiAmount_val)
  show ?case
  proof (cases "out_value out > kMaxSatoshiAmount")
    case True
    then show ?thesis by (simp add: word_less_nat_alt)
  next
    case False
    then have v: "unat (out_value out) \<le> unat kMaxSatoshiAmount" by (simp add: word_le_nat_alt not_less)
    have s: "unat (a + out_value out) = unat a + unat (out_value out)"
      using v Cons.prems max by (simp add: unat_plus_if')
    show ?thesis
    proof (cases "a + out_value out > kMaxSatoshiAmount")
      case True
      then show ?thesis using s by (simp add: word_less_nat_alt)
    next
      case le: False
      then have "unat (a + out_value out) \<le> unat kMaxSatoshiAmount" by (simp add: word_le_nat_alt not_less)
      from Cons.IH[OF this] show ?thesis using False le s by (simp add: add.assoc)
    qed
  qed
qed simp

text \<open>\<^verbatim>\<open>OutputsAmount\<close> returns the exact sum of the outputs when it is at most the money supply and
  throws otherwise: no wrap-around of the 64 bit accumulator is ever accepted.\<close>
theorem OutputsAmount_exact:
  "Tx_OutputsAmount t =
     (if (\<Sum>out\<leftarrow>outputs t. unat (out_value out)) \<le> 2100000000000000
      then Inr (of_nat (\<Sum>out\<leftarrow>outputs t. unat (out_value out))) else Inl RuntimeError)"
  using outputs_amount_loop_spec[of 0 "outputs t"] by (simp add: Tx_OutputsAmount_def kMaxSatoshiAmount_val)

lemma OutPoint_less_diverges: "OutPoint_less a b = None"
proof (rule ccontr)
  assume "OutPoint_less a b \<noteq> None"
  then obtain r where "OutPoint_less a b = Some r" by auto
  then show False
    by (rule OutPoint_less.raw_induct[where P = "\<lambda>_ _ _. False", rotated]) (auto simp: bind_eq_Some_conv)
qed

text \<open>The ordering of outpoints never returns, for no pair of arguments, and assigning a
  transaction input keeps the witness of the target, so the result need not be the input that was
  assigned although \<^verbatim>\<open>operator==\<close> calls them equal.\<close>
theorem outpoint_order_diverges:
  "OutPoint_less a b = None \<and> TxIn_eq (TxIn_assign i j) j \<and>
   script_witness (TxIn_assign i j) = script_witness i"
  by (simp add: OutPoint_less_diverges TxIn_eq_def TxIn_assign_def)

end
