(* ===== verification/String_Encoding.thy ===== *)
theory String_Encoding
  imports Endian
begin

text \<open>
  Text conversions of \<^verbatim>\<open>src/utility/src/string_encoding.cpp\<close>: hexadecimal text and the strict
  decimal parsers.  A \<^verbatim>\<open>std::string\<close> is a byte list.  \<^verbatim>\<open>strtol\<close> and its relatives are modelled after
  the C standard: white space, an optional sign, digits, saturation with \<^verbatim>\<open>ERANGE\<close>.
\<close>

subsection \<open>Characters\<close>

definition isspace :: "u8 \<Rightarrow> bool" where
  "isspace c = (c = 32 \<or> 9 \<le> c \<and> c \<le> 13)"

definition isdigit :: "u8 \<Rightarrow> bool" where
  "isdigit c = (48 \<le> c \<and> c \<le> 57)"

definition isxdigit :: "u8 \<Rightarrow> bool" where
  "isxdigit c = (isdigit c \<or> 97 \<le> c \<and> c \<le> 102 \<or> 65 \<le> c \<and> c \<le> 70)"

text \<open>\<^verbatim>\<open>std::stoi\<close> of a single hexadecimal digit.\<close>

definition hex_value :: "u8 \<Rightarrow> u8" where
  "hex_value c = (if isdigit c then c - 48 else if 97 \<le> c then c - 87 else c - 55)"

subsection \<open>Hexadecimal text\<close>

definition hexmap :: "u8 list" where
  "hexmap = [48, 49, 50, 51, 52, 53, 54, 55, 56, 57, 97, 98, 99, 100, 101, 102]"

fun EncodeHex_loop :: "bool \<Rightarrow> bool \<Rightarrow> bytes \<Rightarrow> bytes" where
  "EncodeHex_loop spaces is_first [] = []"
| "EncodeHex_loop spaces is_first (b # bs) =
     (if spaces \<and> \<not> is_first then [32] else []) @
     [hexmap ! unat (drop_bit 4 b), hexmap ! unat (b AND 15)] @ EncodeHex_loop spaces False bs"

definition EncodeHex :: "bytes \<Rightarrow> bytes" where
  "EncodeHex bs = EncodeHex_loop False True bs"

lemma dropWhile_length: "dropWhile P s = c # s1 \<Longrightarrow> Suc (length s1) \<le> length s"
  by (metis length_Cons length_dropWhile_le)

text \<open>White space is skipped without looking for the end: dereferencing the end iterator of a
  string that ends in white space is undefined.\<close>

function DecodeHex_loop :: "bytes \<Rightarrow> bytes \<Rightarrow> bytes res" where
  "DecodeHex_loop result s =
     (if s = [] then Inr result
      else case dropWhile isspace s of
        [] \<Rightarrow> Inl Undefined
      | c # s1 \<Rightarrow>
          if \<not> isxdigit c then Inr result
          else (case s1 of
              d # s2 \<Rightarrow>
                if isxdigit d
                then DecodeHex_loop (result @ [push_bit 4 (hex_value c) OR hex_value d]) s2
                else DecodeHex_loop (result @ [hex_value c]) s1
            | [] \<Rightarrow> Inr (result @ [hex_value c])))"
  by pat_completeness auto

termination
  by (relation "measure (\<lambda>(_, s). length s)") (auto dest!: dropWhile_length)

declare DecodeHex_loop.simps [simp del]

definition DecodeHex :: "bytes \<Rightarrow> bytes res" where
  "DecodeHex s = DecodeHex_loop [] s"

lemma hexmap_lookup:
  assumes "unat n < 16"
  shows "isxdigit (hexmap ! unat n) \<and> \<not> isspace (hexmap ! unat n) \<and> hex_value (hexmap ! unat n) = n"
proof -
  have "unat n \<in> {0..<16}" using assms by simp
  moreover have "\<forall>k \<in> set [0..<16]. isxdigit (hexmap ! k) \<and> \<not> isspace (hexmap ! k) \<and> hex_value (hexmap ! k) = of_nat k"
    by code_simp
  ultimately show ?thesis by simp
qed

lemma nibbles:
  "unat (drop_bit 4 b) < 16" "unat (b AND 15) < 16" "push_bit 4 (drop_bit 4 b) OR (b AND 15) = b" for b :: u8
proof -
  have m: "(15 :: u8) = mask 4" by (simp add: mask_eq_exp_minus_1)
  have and15: "b AND 15 = take_bit 4 b" by (simp only: m take_bit_eq_mask)
  show "unat (drop_bit 4 b) < 16" using unat_lt2p[of b] by (simp add: unat_drop_bit)
  have "b AND 15 \<le> 15" by (rule word_and_le1)
  then show "unat (b AND 15) < 16" by (simp add: word_le_nat_alt)
  show "push_bit 4 (drop_bit 4 b) OR (b AND 15) = b"
    unfolding and15 by (rule bit_word_eqI) (auto simp: bit_simps not_le)
qed

lemma DecodeHex_byte:
  "DecodeHex_loop result (hexmap ! unat (drop_bit 4 b) # hexmap ! unat (b AND 15) # s) =
   DecodeHex_loop (result @ [b]) s"
  using hexmap_lookup[OF nibbles(1)[of b]] hexmap_lookup[OF nibbles(2)[of b]] nibbles(3)[of b]
  by (subst DecodeHex_loop.simps) simp

lemma DecodeHex_EncodeHex_loop: "DecodeHex_loop result (EncodeHex_loop False f bs) = Inr (result @ bs)"
proof (induction bs arbitrary: result f)
  case Nil
  then show ?case by (simp add: DecodeHex_loop.simps)
next
  case (Cons b bs)
  then show ?case by (simp add: DecodeHex_byte)
qed

lemma length_EncodeHex [simp]: "length (EncodeHex bs) = 2 * length bs"
proof -
  have "length (EncodeHex_loop False f bs) = 2 * length bs" for f by (induction bs arbitrary: f) auto
  then show ?thesis by (simp add: EncodeHex_def)
qed

text \<open>Hexadecimal text is decoded to the bytes it was made from, and has two characters a byte.\<close>
theorem hex_roundtrip: "DecodeHex (EncodeHex bs) = Inr bs \<and> length (EncodeHex bs) = 2 * length bs"
  by (simp add: DecodeHex_def EncodeHex_def DecodeHex_EncodeHex_loop length_EncodeHex[unfolded EncodeHex_def])

subsection \<open>Strict decimal parsing\<close>

definition ParsePrechecks :: "bytes \<Rightarrow> bool" where
  "ParsePrechecks s = (s \<noteq> [] \<and> \<not> isspace (hd s) \<and> \<not> isspace (last s) \<and> 0 \<notin> set s)"

definition decimal :: "bytes \<Rightarrow> int" where
  "decimal ds = foldl (\<lambda>v d. 10 * v + int (unat (d - 48))) 0 ds"

text \<open>\<^verbatim>\<open>strtol\<close>, base 10, for a type with the limits \<open>lo\<close> and \<open>hi\<close>: the value, what \<^verbatim>\<open>endp\<close> points to
  and whether \<^verbatim>\<open>errno\<close> is set.\<close>

definition strto :: "int \<Rightarrow> int \<Rightarrow> bytes \<Rightarrow> int \<times> bytes \<times> bool" where
  "strto lo hi s =
     (let s1 = dropWhile isspace s;
          neg = (s1 \<noteq> [] \<and> hd s1 = 45);
          s2 = (if s1 \<noteq> [] \<and> (hd s1 = 45 \<or> hd s1 = 43) then tl s1 else s1);
          ds = takeWhile isdigit s2;
          v = (if neg then - decimal ds else decimal ds)
      in if ds = [] then (0, s, False)
         else (max lo (min hi v), dropWhile isdigit s2, v < lo \<or> hi < v))"

text \<open>The result and the value stored through \<^verbatim>\<open>out\<close>, if any: it is stored also when the parse fails.\<close>

definition DecodeInt32 :: "bytes \<Rightarrow> bool \<times> u32 option" where
  "DecodeInt32 s =
     (if \<not> ParsePrechecks s then (False, None)
      else let (n, endp, erange) = strto (- (2 ^ 63)) (2 ^ 63 - 1) s
           in (endp = [] \<and> \<not> erange \<and> - (2 ^ 31) \<le> n \<and> n \<le> 2 ^ 31 - 1, Some (of_int n)))"

definition DecodeInt64 :: "bytes \<Rightarrow> bool \<times> u64 option" where
  "DecodeInt64 s =
     (if \<not> ParsePrechecks s then (False, None)
      else let (n, endp, erange) = strto (- (2 ^ 63)) (2 ^ 63 - 1) s
           in (endp = [] \<and> \<not> erange \<and> - (2 ^ 63) \<le> n \<and> n \<le> 2 ^ 63 - 1, Some (of_int n)))"

definition DecodeUint32 :: "bytes \<Rightarrow> bool \<times> u32 option" where
  "DecodeUint32 s =
     (if \<not> ParsePrechecks s then (False, None)
      else if hd s = 45 then (False, None)
      else let (n, endp, erange) = strto 0 (2 ^ 64 - 1) s
           in (endp = [] \<and> \<not> erange \<and> n \<le> 2 ^ 32 - 1, Some (of_int n)))"

definition DecodeUint64 :: "bytes \<Rightarrow> bool \<times> u64 option" where
  "DecodeUint64 s =
     (if \<not> ParsePrechecks s then (False, None)
      else if hd s = 45 then (False, None)
      else let (n, endp, erange) = strto 0 (2 ^ 64 - 1) s
           in (endp = [] \<and> \<not> erange \<and> n \<le> 2 ^ 64 - 1, Some (of_int n)))"

text \<open>The decimal literals: an optional sign, then digits, and their value.\<close>

definition literal :: "bytes \<Rightarrow> bool" where
  "literal s = (let ds = (if s \<noteq> [] \<and> (hd s = 45 \<or> hd s = 43) then tl s else s)
                in ds \<noteq> [] \<and> list_all isdigit ds)"

definition literal_value :: "bytes \<Rightarrow> int" where
  "literal_value s = (if hd s = 45 then - decimal (tl s) else if hd s = 43 then decimal (tl s) else decimal s)"

lemma isdigit_not: "isdigit c \<Longrightarrow> \<not> isspace c \<and> c \<noteq> 0 \<and> c \<noteq> 45 \<and> c \<noteq> 43"
  by (auto simp: isdigit_def isspace_def word_le_nat_alt)

lemma literal_prechecks: assumes "literal s" shows "ParsePrechecks s"
proof -
  let ?ds = "if s \<noteq> [] \<and> (hd s = 45 \<or> hd s = 43) then tl s else s"
  have d: "?ds \<noteq> []" "list_all isdigit ?ds" using assms by (auto simp: literal_def Let_def)
  then have s: "s \<noteq> []" by (auto split: if_splits)
  have l: "last s = last ?ds" using d(1) s by (auto simp: last_tl)
  have "isdigit (last ?ds)" using d(2) last_in_set[OF d(1)] by (simp only: list_all_iff)
  then have "isdigit (last s)" by (simp only: l)
  then have last: "\<not> isspace (last s)" using isdigit_not by blast
  have all: "isdigit x \<or> x = 45 \<or> x = 43" if "x \<in> set s" for x
    using that d(2) s by (cases s) (auto simp: list_all_iff split: if_splits)
  have signs: "\<not> isspace 45" "\<not> isspace 43" by (simp_all add: isspace_def word_le_nat_alt)
  have each: "\<not> isspace x \<and> x \<noteq> 0" if "x \<in> set s" for x
    using all[OF that] isdigit_not[of x] signs by auto
  show ?thesis unfolding ParsePrechecks_def using s last each[OF hd_in_set[OF s]] each by blast
qed

lemma strto_literal:
  assumes "ParsePrechecks s"
  shows "(\<exists>v. strto lo hi s = (v, [], False)) = (literal s \<and> lo \<le> literal_value s \<and> literal_value s \<le> hi)"
    and "literal s \<Longrightarrow> fst (strto lo hi s) = max lo (min hi (literal_value s))"
proof -
  let ?ds = "if s \<noteq> [] \<and> (hd s = 45 \<or> hd s = 43) then tl s else s"
  have s: "s \<noteq> []" "dropWhile isspace s = s" using assms by (cases s; simp add: ParsePrechecks_def)+
  define D where "D = ?ds"
  define neg where "neg = (hd s = 45)"
  have st: "strto lo hi s =
      (let v = (if neg then - decimal (takeWhile isdigit D) else decimal (takeWhile isdigit D))
       in if takeWhile isdigit D = [] then (0, s, False)
          else (max lo (min hi v), dropWhile isdigit D, v < lo \<or> hi < v))"
    using s by (simp add: strto_def Let_def D_def neg_def)
  have lit: "literal s = (D \<noteq> [] \<and> list_all isdigit D)" by (simp add: literal_def Let_def D_def)
  have val: "literal_value s = (if neg then - decimal D else decimal D)"
    using s by (auto simp: literal_value_def D_def neg_def)
  have all: "list_all isdigit D \<Longrightarrow> takeWhile isdigit D = D \<and> dropWhile isdigit D = []"
    by (simp add: list_all_iff)
  show "literal s \<Longrightarrow> fst (strto lo hi s) = max lo (min hi (literal_value s))"
    using all by (simp add: st lit val Let_def del: takeWhile_eq_all_conv dropWhile_eq_Nil_conv)
  show "(\<exists>v. strto lo hi s = (v, [], False)) = (literal s \<and> lo \<le> literal_value s \<and> literal_value s \<le> hi)"
  proof (cases "literal s")
    case True
    then show ?thesis using all
      by (auto simp: st lit val Let_def not_less simp del: takeWhile_eq_all_conv dropWhile_eq_Nil_conv)
  next
    case False
    have "takeWhile isdigit D = [] \<or> dropWhile isdigit D \<noteq> []"
      using False by (cases D) (auto simp: lit list_all_iff)
    then show ?thesis using False s by (auto simp: st Let_def)
  qed
qed

lemma parse_accepts:
  assumes "ParsePrechecks s" and "lo \<le> a" "b \<le> hi"
  shows "(let (n, endp, erange) = strto lo hi s in endp = [] \<and> \<not> erange \<and> a \<le> n \<and> n \<le> b) =
     (literal s \<and> a \<le> literal_value s \<and> literal_value s \<le> b)"
proof -
  obtain n endp erange where st: "strto lo hi s = (n, endp, erange)" by (cases "strto lo hi s")
  show ?thesis
  proof (cases "literal s \<and> lo \<le> literal_value s \<and> literal_value s \<le> hi")
    case True
    then have "endp = []" "\<not> erange" "n = literal_value s"
      using strto_literal[OF assms(1), of lo hi] st by auto
    then show ?thesis using True st by simp
  next
    case False
    then have "\<not> (endp = [] \<and> \<not> erange)" using strto_literal(1)[OF assms(1), of lo hi] st by auto
    then show ?thesis using False assms(2,3) st by auto
  qed
qed

text \<open>The strict parsers accept exactly the decimal literals in the range of the result type and
  then store their value; the unsigned ones accept no minus sign, not even for zero.\<close>
theorem strict_decimal_parsing:
  "(DecodeInt32 s = (True, Some w)) =
     (literal s \<and> - (2 ^ 31) \<le> literal_value s \<and> literal_value s \<le> 2 ^ 31 - 1 \<and> w = of_int (literal_value s)) \<and>
   (DecodeUint64 s = (True, Some u)) =
     (literal s \<and> hd s \<noteq> 45 \<and> 0 \<le> literal_value s \<and> literal_value s \<le> 2 ^ 64 - 1 \<and> u = of_int (literal_value s))"
proof -
  have int32: "(DecodeInt32 s = (True, Some w)) =
     (literal s \<and> - (2 ^ 31) \<le> literal_value s \<and> literal_value s \<le> 2 ^ 31 - 1 \<and> w = of_int (literal_value s))"
  proof (cases "ParsePrechecks s")
    case True
    then show ?thesis
      using parse_accepts[OF True, of "- (2 ^ 63)" "- (2 ^ 31)" "2 ^ 31 - 1" "2 ^ 63 - 1"]
        strto_literal(2)[of s "- (2 ^ 63)" "2 ^ 63 - 1"]
      by (cases "strto (- (2 ^ 63)) (2 ^ 63 - 1) s") (auto simp: DecodeInt32_def)
  next
    case False
    then show ?thesis using literal_prechecks by (auto simp: DecodeInt32_def)
  qed
  have uint64: "(DecodeUint64 s = (True, Some u)) =
     (literal s \<and> hd s \<noteq> 45 \<and> 0 \<le> literal_value s \<and> literal_value s \<le> 2 ^ 64 - 1 \<and> u = of_int (literal_value s))"
  proof (cases "ParsePrechecks s")
    case True
    have pos: "fst (strto 0 (2 ^ 64 - 1) s) \<ge> 0" by (simp add: strto_def Let_def)
    then show ?thesis
      using parse_accepts[OF True, of 0 0 "2 ^ 64 - 1" "2 ^ 64 - 1"]
        strto_literal(2)[of s 0 "2 ^ 64 - 1"] True
      by (cases "strto 0 (2 ^ 64 - 1) s") (auto simp: DecodeUint64_def)
  next
    case False
    then show ?thesis using literal_prechecks by (auto simp: DecodeUint64_def)
  qed
  show ?thesis using int32 uint64 by blast
qed

end
