(* ===== verification/Block.thy ===== *)
theory Block
  imports Transaction Compact String_Encoding
begin

text \<open>
  Block headers, blocks, the Merkle root and the genesis block (\<^verbatim>\<open>src/consensus/src/block.cpp\<close> and
  \<^verbatim>\<open>src/consensus/src/params.cpp\<close>).  \<open>sha\<close> is the double SHA-256 of the Botan library.
\<close>

record header =
  hversion :: u32
  hash_prev_block :: bytes
  hash_merkle_root :: bytes
  htime :: u32
  hbits :: u32
  hnonce :: u32

definition Header_Clear :: header where
  "Header_Clear = \<lparr>hversion = 0, hash_prev_block = null_hash, hash_merkle_root = null_hash, htime = 0,
                   hbits = 0, hnonce = 0\<rparr>"

definition Header_IsNull :: "header \<Rightarrow> bool" where
  "Header_IsNull h = (hbits h = 0)"

text \<open>A division by zero of the 256 bit type throws.\<close>

definition GetBlockProof :: "header \<Rightarrow> u256 res" where
  "GetBlockProof h =
     res_bind (Compact_of_bits (hbits h)) (\<lambda>c.
       let target = normal c
       in if negative c \<or> overflowed c \<or> target = 0 then Inr 0
          else if target + 1 = 0 then Inl RuntimeError
          else Inr (NOT target div (target + 1) + 1))"

definition Header_ser :: "header \<Rightarrow> bytes" where
  "Header_ser h = ser_write_data (hversion h) @ ser_write_array (hash_prev_block h) @
     ser_write_array (hash_merkle_root h) @ ser_write_data (htime h) @ ser_write_data (hbits h) @
     ser_write_data (hnonce h)"

definition Header_deser :: "compiler \<Rightarrow> bytes \<Rightarrow> (header \<times> bytes) res" where
  "Header_deser cc s =
     res_bind (ser_read_data s) (\<lambda>(v, s1).
     res_bind (ser_read_array kHashSize s1) (\<lambda>(p, s2).
     res_bind (ser_read_array kHashSize s2) (\<lambda>(m, s3).
     res_bind (ser_read_data s3) (\<lambda>(t, s4).
     res_bind (ser_read_data s4) (\<lambda>(b, s5).
     res_bind (ser_read_data s5) (\<lambda>(n, s6).
       Inr (\<lparr>hversion = v, hash_prev_block = p, hash_merkle_root = m, htime = t, hbits = b, hnonce = n\<rparr>, s6)))))))"

definition Header_GetHash :: "(bytes \<Rightarrow> bytes) \<Rightarrow> header \<Rightarrow> bytes" where
  "Header_GetHash sha h = sha (Header_ser h)"

record block =
  bheader :: header
  transactions :: "tx list"

definition Block_Clear :: block where
  "Block_Clear = \<lparr>bheader = Header_Clear, transactions = []\<rparr>"

definition Block_ser :: "block \<Rightarrow> bytes" where
  "Block_ser b = Header_ser (bheader b) @ ser_write_vec Tx_ser (transactions b)"

definition Block_deser :: "compiler \<Rightarrow> bytes \<Rightarrow> (block \<times> bytes) res" where
  "Block_deser cc s =
     res_bind (ser_read_class Header_deser cc s) (\<lambda>(h, s1).
     res_bind (ser_read_vec (ser_read_class (\<lambda>cc. Tx_deser cc Tx_new)) cc s1) (\<lambda>(txs, s2).
       Inr (\<lparr>bheader = h, transactions = txs\<rparr>, s2)))"

definition Block_GetHash :: "(bytes \<Rightarrow> bytes) \<Rightarrow> block \<Rightarrow> bytes" where
  "Block_GetHash sha b = Header_GetHash sha (bheader b)"

text \<open>The body of the move assignment is empty.\<close>

definition Block_move_assign :: "block \<Rightarrow> block \<Rightarrow> block" where
  "Block_move_assign a b = a"

definition Block_set_header :: "header \<Rightarrow> block \<Rightarrow> block" where
  "Block_set_header h b = b\<lparr>bheader := h\<rparr>"

definition Block_set_transactions :: "tx list \<Rightarrow> block \<Rightarrow> block" where
  "Block_set_transactions txs b = b\<lparr>transactions := txs\<rparr>"

subsection \<open>Merkle root\<close>

text \<open>One pass over the leaves, two at a time; an odd list gets its last element once more.\<close>

definition merkle_pair :: "(bytes \<Rightarrow> bytes) \<Rightarrow> bytes \<Rightarrow> bytes \<Rightarrow> bytes" where
  "merkle_pair sha a b = sha (EncodeHex (rev a) @ EncodeHex (rev b))"

fun merkle_level :: "(bytes \<Rightarrow> bytes) \<Rightarrow> bytes list \<Rightarrow> bytes list" where
  "merkle_level sha (a # b # rest) = merkle_pair sha a b # merkle_level sha rest"
| "merkle_level sha [a] = []"
| "merkle_level sha [] = []"

definition merkle_even :: "bytes list \<Rightarrow> bytes list" where
  "merkle_even leaves = (if length leaves mod 2 \<noteq> 0 then leaves @ [last leaves] else leaves)"

lemma length_merkle_level: "length (merkle_level sha xs) = length xs div 2"
  by (induction sha xs rule: merkle_level.induct) auto

function merkle_loop :: "(bytes \<Rightarrow> bytes) \<Rightarrow> bytes list \<Rightarrow> bytes list" where
  "merkle_loop sha leaves =
     (if length leaves > 1 then merkle_loop sha (merkle_level sha (merkle_even leaves)) else leaves)"
  by auto
termination
  by (relation "measure (\<lambda>(_, xs). length xs)") (auto simp: length_merkle_level merkle_even_def)

declare merkle_loop.simps [simp del]

definition ComputeMerkleRoot :: "(bytes \<Rightarrow> bytes) \<Rightarrow> block \<Rightarrow> bytes res" where
  "ComputeMerkleRoot sha b =
     (case merkle_loop sha (map (\<lambda>t. fst (Tx_GetHash sha t)) (transactions b)) of
        [] \<Rightarrow> Inl Undefined
      | root # _ \<Rightarrow> Inr root)"

subsection \<open>Codecs\<close>

definition header_ok :: "header \<Rightarrow> bool" where
  "header_ok h = (hash_ok (hash_prev_block h) \<and> hash_ok (hash_merkle_root h))"

interpretation header: canon_codec Header_ser Header_deser header_ok
proof unfold_locales
  fix cc :: compiler and x rest
  assume "clean cc" "header_ok x"
  then show "Header_deser cc (Header_ser x @ rest) = Inr (x, rest)"
    by (simp add: Header_deser_def Header_ser_def header_ok_def hash.dec_enc[of cc] read_append)
next
  fix cc :: compiler and s x rest
  assume "clean cc" "Header_deser cc s = Inr (x, rest)"
  then show "s = Header_ser x @ rest \<and> header_ok x"
    by (auto simp: Header_deser_def Header_ser_def header_ok_def res_bind_eq_Inr hash_ok_def
        ser_write_array_def read_array_eq_Inr dest!: ser_read_data_cases(3))
qed

interpretation header_s: sized_codec Header_ser Header_deser header_ok "\<lambda>_. 80"
  by unfold_locales (simp add: Header_ser_def header_ok_def ser_write_array_def hash_ok_def kHashSize_def)

definition block_ok :: "block \<Rightarrow> bool" where
  "block_ok b = (header_ok (bheader b) \<and> vec_ok tx_ok (transactions b))"

interpretation txs: canon_codec "ser_write_vec Tx_ser" "ser_read_vec (ser_read_class (\<lambda>cc. Tx_deser cc Tx_new))"
    "vec_ok tx_ok"
  by (rule canon_codec.vec_canon_codec[OF tx.class_canon_codec])

interpretation block: canon_codec Block_ser Block_deser block_ok
proof unfold_locales
  fix cc :: compiler and x rest
  assume "clean cc" "block_ok x"
  then show "Block_deser cc (Block_ser x @ rest) = Inr (x, rest)"
    by (simp add: Block_deser_def Block_ser_def block_ok_def header.dec_enc txs.dec_enc)
next
  fix cc :: compiler and s x rest
  assume "clean cc" "Block_deser cc s = Inr (x, rest)"
  then show "s = Block_ser x @ rest \<and> block_ok x"
    by (auto simp: Block_deser_def Block_ser_def block_ok_def res_bind_eq_Inr header.dec_iff txs.dec_iff)
qed

subsection \<open>Merkle lemmas\<close>

lemma merkle_loop_nonempty: "leaves \<noteq> [] \<Longrightarrow> length (merkle_loop sha leaves) = 1"
proof (induction sha leaves rule: merkle_loop.induct)
  case (1 sha leaves)
  show ?case
  proof (cases "length leaves > 1")
    case True
    then have "merkle_level sha (merkle_even leaves) \<noteq> []"
      by (auto simp: length_merkle_level merkle_even_def simp flip: length_0_conv)
    then show ?thesis using 1 True by (subst merkle_loop.simps) simp
  next
    case False
    then show ?thesis using "1.prems" by (subst merkle_loop.simps) (cases leaves, auto)
  qed
qed

lemma merkle_loop_duplicate:
  assumes "odd (length xs)" "1 < length xs"
  shows "merkle_loop sha (xs @ [last xs]) = merkle_loop sha xs"
proof -
  have "length xs mod 2 = 1" "Suc (length xs) mod 2 = 0" using assms(1) by presburger+
  then have "merkle_even (xs @ [last xs]) = merkle_even xs" by (simp add: merkle_even_def)
  moreover have "1 < length (xs @ [last xs])" using assms(2) by auto
  ultimately show ?thesis
    using assms(2) merkle_loop.simps[of sha xs] merkle_loop.simps[of sha "xs @ [last xs]"] by (simp only: if_True)
qed

subsection \<open>Properties\<close>

text \<open>The tree over the hashes \<open>hs\<close>, seen from its nodes: the width of level \<open>j\<close>, and the node at position \<open>i\<close> of it, the
  digest of the texts of its two children, most significant byte first; where there is no second child the first
  one, which is the last of its level, stands for it.\<close>

fun merkle_width :: "nat \<Rightarrow> nat \<Rightarrow> nat" where
  "merkle_width n 0 = n"
| "merkle_width n (Suc j) = (merkle_width n j + 1) div 2"

fun merkle_node :: "(bytes \<Rightarrow> bytes) \<Rightarrow> bytes list \<Rightarrow> nat \<Rightarrow> nat \<Rightarrow> bytes" where
  "merkle_node sha hs 0 i = hs ! i"
| "merkle_node sha hs (Suc j) i =
     sha (EncodeHex (rev (merkle_node sha hs j (2 * i))) @
          EncodeHex (rev (merkle_node sha hs j (min (2 * i + 1) (merkle_width (length hs) j - 1)))))"

definition merkle_row :: "(bytes \<Rightarrow> bytes) \<Rightarrow> bytes list \<Rightarrow> nat \<Rightarrow> bytes list" where
  "merkle_row sha hs j = map (merkle_node sha hs j) [0..<merkle_width (length hs) j]"

lemma nth_merkle_level: "i < length xs div 2 \<Longrightarrow> merkle_level sha xs ! i = merkle_pair sha (xs ! (2 * i)) (xs ! (2 * i + 1))"
proof (induction sha xs arbitrary: i rule: merkle_level.induct)
  case (1 sha a b rest)
  then show ?case by (cases i) auto
qed auto

lemma merkle_even_nth:
  assumes "xs \<noteq> []"
  shows "length (merkle_even xs) = 2 * ((length xs + 1) div 2)"
    "k < length (merkle_even xs) \<Longrightarrow> merkle_even xs ! k = xs ! min k (length xs - 1)"
  using assms by (auto simp: merkle_even_def nth_append last_conv_nth min_def split: if_splits) presburger+

lemma merkle_row_step:
  assumes "hs \<noteq> []"
  shows "merkle_level sha (merkle_even (merkle_row sha hs j)) = merkle_row sha hs (Suc j)"
proof (rule nth_equalityI)
  let ?w = "merkle_width (length hs) j" and ?r = "merkle_row sha hs j"
  have w: "0 < ?w" using assms by (induction j) auto
  then have r: "?r \<noteq> []" "length ?r = ?w" by (auto simp: merkle_row_def)
  note e = merkle_even_nth[OF r(1)]
  show len: "length (merkle_level sha (merkle_even ?r)) = length (merkle_row sha hs (Suc j))"
    using e(1) r(2) by (simp add: length_merkle_level merkle_row_def)
  fix i assume "i < length (merkle_level sha (merkle_even ?r))"
  then have i: "i < (?w + 1) div 2" using e(1) r(2) by (simp add: length_merkle_level)
  then have k: "2 * i < ?w" "2 * i + 1 < length (merkle_even ?r)" "i < length (merkle_even ?r) div 2" using e(1) r(2) by auto
  have "merkle_even ?r ! (2 * i) = merkle_node sha hs j (2 * i)" using e(2)[of "2 * i"] k r(2) by (simp add: merkle_row_def)
  moreover have "merkle_even ?r ! (2 * i + 1) = merkle_node sha hs j (min (2 * i + 1) (?w - 1))"
    using e(2)[OF k(2)] w r(2) by (simp add: merkle_row_def)
  ultimately have "merkle_level sha (merkle_even ?r) ! i = merkle_node sha hs (Suc j) i"
    unfolding nth_merkle_level[OF k(3)] merkle_pair_def by (simp only: merkle_node.simps)
  then show "merkle_level sha (merkle_even ?r) ! i = merkle_row sha hs (Suc j) ! i" using i by (simp add: merkle_row_def)
qed

lemma merkle_loop_rows:
  assumes "hs \<noteq> []" "\<forall>i<k. 1 < merkle_width (length hs) i"
  shows "\<exists>j. (\<forall>i<j. 1 < merkle_width (length hs) i) \<and> merkle_width (length hs) j = 1 \<and>
    merkle_loop sha (merkle_row sha hs k) = merkle_row sha hs j"
  using assms(2)
proof (induction "merkle_width (length hs) k" arbitrary: k rule: less_induct)
  case less
  let ?w = "merkle_width (length hs) k"
  have len: "length (merkle_row sha hs k) = ?w" by (simp add: merkle_row_def)
  have w: "0 < ?w" using assms(1) by (induction k) auto
  show ?case
  proof (cases "1 < ?w")
    case True
    then have "merkle_width (length hs) (Suc k) < ?w" "\<forall>i<Suc k. 1 < merkle_width (length hs) i"
      using less.prems by (auto simp: less_Suc_eq)
    from less.hyps[OF this] show ?thesis
      using True len merkle_row_step[OF assms(1), of sha k] by (simp add: merkle_loop.simps[of sha "merkle_row sha hs k"])
  next
    case False
    then show ?thesis using w len less.prems
      by (intro exI[of _ k]) (simp add: merkle_loop.simps[of sha "merkle_row sha hs k"])
  qed
qed

text \<open>C33: A block without a transaction has no Merkle root.  For any other one it is the top node of the tree over the
  hashes of the transactions, in the order of the block: each inner node is the digest of the hexadecimal texts of its
  two children, the last node of a row of an odd number of nodes, more than one, being paired with itself; so the root of a
  single transaction is its hash.  And it does not tell a block with an odd number of transactions, more than one,
  from the block that repeats the last of them.\<close>
theorem merkle_root_exact:
  "(if transactions b = [] then ComputeMerkleRoot sha b = Inl Undefined
    else \<exists>j. let hs = map (\<lambda>t. fst (Tx_GetHash sha t)) (transactions b) in
      (\<forall>i<j. 1 < merkle_width (length hs) i) \<and> merkle_width (length hs) j = 1 \<and>
      ComputeMerkleRoot sha b = Inr (merkle_node sha hs j 0)) \<and>
   (odd (length (transactions b)) \<and> 1 < length (transactions b) \<longrightarrow>
      ComputeMerkleRoot sha (Block_set_transactions (transactions b @ [last (transactions b)]) b) =
      ComputeMerkleRoot sha b)"
proof -
  let ?h = "\<lambda>t. fst (Tx_GetHash sha t)"
  let ?hs = "map ?h (transactions b)"
  have "ComputeMerkleRoot sha b = Inl Undefined" if "transactions b = []"
    using that by (simp add: ComputeMerkleRoot_def merkle_loop.simps[of sha "[]"])
  moreover have "\<exists>j. (\<forall>i<j. 1 < merkle_width (length ?hs) i) \<and> merkle_width (length ?hs) j = 1 \<and>
      ComputeMerkleRoot sha b = Inr (merkle_node sha ?hs j 0)" if "transactions b \<noteq> []"
  proof -
    have row: "merkle_row sha ?hs 0 = ?hs" by (rule nth_equalityI) (simp_all add: merkle_row_def)
    have ne: "?hs \<noteq> []" using that by simp
    have "\<exists>j. (\<forall>i<j. 1 < merkle_width (length ?hs) i) \<and> merkle_width (length ?hs) j = 1 \<and>
        merkle_loop sha ?hs = merkle_row sha ?hs j"
      by (rule merkle_loop_rows[OF ne, where k = 0 and sha = sha, unfolded row]) simp
    then obtain j where "\<forall>i<j. 1 < merkle_width (length ?hs) i" "merkle_width (length ?hs) j = 1"
        "merkle_loop sha ?hs = merkle_row sha ?hs j"
      by blast
    then show ?thesis by (intro exI[of _ j]) (simp add: ComputeMerkleRoot_def merkle_row_def)
  qed
  moreover have "ComputeMerkleRoot sha (Block_set_transactions (transactions b @ [last (transactions b)]) b) =
      ComputeMerkleRoot sha b" if "odd (length (transactions b))" "1 < length (transactions b)"
    using that merkle_loop_duplicate[of "map ?h (transactions b)" sha]
    by (cases "transactions b = []") (simp_all add: ComputeMerkleRoot_def Block_set_transactions_def last_map)
  ultimately show ?thesis unfolding Let_def if_bool_eq_conj by blast
qed

lemma merkle_root_exact_witness:
  "let b = Block_Clear\<lparr>transactions := [Tx_new, Tx_new, Tx_new]\<rparr>
   in ComputeMerkleRoot (take 32) (Block_set_transactions [Tx_new, Tx_new, Tx_new, Tx_new] b) =
      ComputeMerkleRoot (take 32) b"
  using merkle_root_exact[of "Block_Clear\<lparr>transactions := [Tx_new, Tx_new, Tx_new]\<rparr>" "take 32"]
  by (simp add: Block_Clear_def)

text \<open>C12: A block header occupies 80 bytes and is read back from them, and the bytes a block is written as determine
  it and where they end.  A block holds a header, which is read through the function without a
  return statement: as the language has it no block is ever read; in a program where that function
  returns and the unset local of \<^verbatim>\<open>SerReadVarInt\<close> is zero, exactly the bytes that were written are.\<close>
theorem block_wire_format:
  "(header_ok h \<longrightarrow> length (Header_ser h) = 80 \<and> Header_deser cc (Header_ser h @ rest) = Inr (h, rest)) \<and>
   (block_ok b \<and> block_ok b' \<and> Block_ser b @ rest = Block_ser b' @ r' \<longrightarrow> b = b' \<and> rest = r') \<and>
   (standard cc \<longrightarrow> Block_deser cc s \<noteq> Inr (b, rest)) \<and>
   (clean cc \<longrightarrow> (Block_deser cc s = Inr (b, rest)) = (block_ok b \<and> s = Block_ser b @ rest))"
proof -
  have "Header_deser cc = Header_deser tidy" by (simp add: Header_deser_def fun_eq_iff)
  then have "header_ok h \<longrightarrow> Header_deser cc (Header_ser h @ rest) = Inr (h, rest)"
    using header.dec_enc[OF clean_tidy] by simp
  moreover have "standard cc \<longrightarrow> Block_deser cc s \<noteq> Inr (b, rest)"
    by (auto simp: Block_deser_def res_bind_eq_Inr ser_read_class_standard)
  ultimately show ?thesis
    using block.dec_iff[of cc s b rest] header_s.enc_size[of h] block.enc_prefix_free[of b b' rest r'] by blast
qed

lemma block_wire_format_witness:
  "Block_deser tidy (Block_ser Block_Clear @ [1]) = Inr (Block_Clear, [1]) \<and> length (Header_ser Header_Clear) = 80"
  using block_wire_format[of Header_Clear tidy "[1]" Block_Clear Block_Clear "[1]" "Block_ser Block_Clear @ [1]"]
  by (simp add: block_ok_def header_ok_def Block_Clear_def Header_Clear_def hash_ok_def null_hash_def
      vec_ok_def len_ok_def)

lemma compact_not_all_ones: "compact_value c \<noteq> 2 ^ 256 - 1"
proof (cases "3 < unat c div 2 ^ 24")
  case True
  then obtain k where "unat c div 2 ^ 24 - 3 = Suc k" by (metis Suc_pred diff_is_0_eq' not_le zero_less_diff)
  then have "256 dvd compact_value c" using compact_value_large[OF True] by simp
  moreover have "\<not> 256 dvd (2 ^ 256 - 1 :: nat)" by simp
  ultimately show ?thesis by metis
next
  case False
  then have "compact_value c < 2 ^ 23" by (intro compact_value_small) (simp only: not_less)
  then show ?thesis by simp
qed

lemma proof_division:
  fixes t :: nat assumes "t < 2 ^ n" "0 < t"
  shows "(2 ^ n - 1 - t) div (t + 1) + 1 = 2 ^ n div (t + 1)"
proof -
  have "(2::nat) ^ n = (2 ^ n - 1 - t) + (t + 1)" using assms by simp
  then have "2 ^ n div (t + 1) = ((2 ^ n - 1 - t) + (t + 1)) div (t + 1)" by (simp only:)
  also have "\<dots> = (2 ^ n - 1 - t) div (t + 1) + 1" by (rule div_add_self2) simp
  finally show ?thesis by (rule sym)
qed

lemma unat_not: "unat (NOT w) = 2 ^ LENGTH('a) - 1 - unat w" for w :: "'a::len word"
proof -
  have "NOT w = - 1 - w" by (simp add: not_eq_complement)
  then have "NOT w = (- 1) - w" .
  moreover have "w \<le> - 1" by simp
  ultimately have "unat (NOT w) = unat (- 1 :: 'a word) - unat w" by (simp only: unat_sub)
  then show ?thesis by (simp add: unsigned_minus_1_eq_mask mask_eq_exp_minus_1)
qed

lemma GetBlockProof_value:
  "\<exists>p. GetBlockProof h = Inr p \<and>
     unat p = (let c = SetCompact (hbits h) compact_init; t = compact_value (hbits h)
               in if negative c \<or> 2 ^ 256 \<le> t \<or> t = 0 then 0 else 2 ^ 256 div (t + 1))"
proof -
  let ?c = "SetCompact (hbits h) compact_init"
  let ?v = "compact_value (hbits h)"
  obtain st where st: "Compact_of_bits (hbits h) = Inr st" "st = ?c\<lparr>compact_bits := compact_bits st\<rparr>"
    using GetCompact_value[of ?c] by (auto simp: Compact_of_bits_def)
  have same: "normal st = normal ?c" "negative st = negative ?c" "overflowed st = overflowed ?c"
    by (subst st(2), simp)+
  have ov: "overflowed ?c = (2 ^ 256 \<le> ?v)" using SetCompact_overflow[of "hbits h" compact_init] by simp
  show ?thesis
  proof (cases "negative ?c \<or> 2 ^ 256 \<le> ?v \<or> ?v = 0")
    case True
    have "?v = 0 \<Longrightarrow> normal ?c = 0"
      using SetCompact_normal[of "hbits h" compact_init] by (simp add: word_unat_eq_iff)
    then have "GetBlockProof h = Inr 0"
      using True ov by (auto simp: GetBlockProof_def st(1) same Let_def)
    then show ?thesis using True by (auto simp: Let_def)
  next
    case False
    define t where "t = normal ?c"
    have lt: "?v < 2 ^ 256" using False by simp
    have t: "unat t = ?v" unfolding t_def SetCompact_normal using lt by (rule mod_less)
    have max: "unat t + 1 < 2 ^ 256" using t lt compact_not_all_ones[of "hbits h"] by simp
    have t1: "unat (t + 1) = unat t + 1" using max by (simp add: unat_plus_if')
    have "t \<noteq> 0" using t False by auto
    moreover have "t + 1 \<noteq> 0" using t1 by auto
    ultimately have p: "GetBlockProof h = Inr (NOT t div (t + 1) + 1)"
      using False ov by (simp add: GetBlockProof_def st(1) same Let_def t_def)
    have q: "unat (NOT t div (t + 1)) = (2 ^ 256 - 1 - ?v) div (?v + 1)"
      by (simp only: unat_div unat_not t1 t) simp
    have "0 < ?v" using False by simp
    then have d: "(2 ^ 256 - 1 - ?v) div (?v + 1) + 1 = 2 ^ 256 div (?v + 1)"
      using lt by (intro proof_division)
    have "(2::nat) ^ 256 div (?v + 1) \<le> 2 ^ 256 div 2" using \<open>0 < ?v\<close> by (intro div_le_mono2) auto
    then have "2 ^ 256 div (?v + 1) < 2 ^ 256" by simp
    then have "unat (NOT t div (t + 1) + 1) = 2 ^ 256 div (?v + 1)"
      using q d by (simp add: unat_plus_if')
    then show ?thesis using p False by (simp add: Let_def)
  qed
qed

text \<open>C34: \<^verbatim>\<open>GetBlockProof\<close> never throws nor asserts.  It is 0 for a negative, an overflowing or a zero
  target and otherwise exactly the integer part of \<open>2 ^ 256 / (target + 1)\<close>, computed without the
  number \<open>2 ^ 256\<close> that does not fit.\<close>
theorem GetBlockProof_exact:
  "\<exists>p. GetBlockProof h = Inr p \<and>
     unat p = (let c = SetCompact (hbits h) compact_init; t = compact_value (hbits h)
               in if negative c \<or> 2 ^ 256 \<le> t \<or> t = 0 then 0 else 2 ^ 256 div (t + 1))"
  by (rule GetBlockProof_value)

subsection \<open>The genesis block\<close>

datatype btcnet = kNone | kMainNet | kTestNet | kRegTest

definition genesis_coinbase :: bytes where
  "genesis_coinbase = ascii ''The Times 03/Jan/2009 Chancellor on brink of second bailout for banks''"

definition genesis_script :: "bytes \<Rightarrow> script option" where
  "genesis_script coinbase =
     Option.bind (Push_u64 0x1d00ffff []) (\<lambda>s1.
     Option.bind (Push_scriptint 4 s1) (\<lambda>s2. Some (Push_bytes coinbase s2)))"

definition genesis_output_script :: "script res" where
  "genesis_output_script =
     res_bind (DecodeHex (ascii ''04678afdb0fe5548271967f1a67130b7105cd6a828e03909a67962e0ea1f61deb649f6bc3f4cef38c4f35504e51ec112de5c384df7ba0b8d578a4c702b6bf11d5f'')) (\<lambda>key.
       Inr (Push_opcode OP_CHECKSIG (Push_bytes key [])))"

text \<open>The memory under the objects that constructors leave partly unset: the hash of the default
  outpoint, and the hash caches of the transaction and of its two copies.\<close>

record genesis_mem =
  mem_prev_hash :: bytes
  mem_cache0 :: bytes
  mem_cache1 :: bytes
  mem_cache2 :: bytes

definition genesis_tx :: "(bytes \<Rightarrow> bytes) \<Rightarrow> genesis_mem \<Rightarrow> script \<Rightarrow> script \<Rightarrow> u64 \<Rightarrow> tx" where
  "genesis_tx sha m script output_script reward =
     (let input = (TxIn_new (mem_prev_hash m))\<lparr>script_sig := script\<rparr>;
          output = \<lparr>out_value = reward, script_pub_key = output_script\<rparr>;
          tx_new = Tx_make sha (mem_cache0 m) 1 [input] [output] 0
      in Tx_copy sha (mem_cache2 m) (Tx_copy sha (mem_cache1 m) tx_new))"

text \<open>\<open>None\<close> would be a call that does not return.\<close>

definition CreateGenesisBlock ::
  "(bytes \<Rightarrow> bytes) \<Rightarrow> genesis_mem \<Rightarrow> bytes \<Rightarrow> script \<Rightarrow> u32 \<Rightarrow> u32 \<Rightarrow> u32 \<Rightarrow> u32 \<Rightarrow> u64 \<Rightarrow> block res option" where
  "CreateGenesisBlock sha m coinbase output_script time nonce bits version reward =
     Option.bind (genesis_script coinbase) (\<lambda>script.
       let genesis = Block_set_transactions [genesis_tx sha m script output_script reward] Block_Clear
       in Some (res_bind (ComputeMerkleRoot sha genesis) (\<lambda>root.
            Inr (Block_set_header \<lparr>hversion = version, hash_prev_block = null_hash, hash_merkle_root = root,
                                   htime = time, hbits = bits, hnonce = nonce\<rparr> genesis))))"

definition CreateGenesisBlock_default ::
  "(bytes \<Rightarrow> bytes) \<Rightarrow> genesis_mem \<Rightarrow> u32 \<Rightarrow> u32 \<Rightarrow> u32 \<Rightarrow> u32 \<Rightarrow> u64 \<Rightarrow> block res option" where
  "CreateGenesisBlock_default sha m time nonce bits version reward =
     (case genesis_output_script of
        Inl e \<Rightarrow> Some (Inl e)
      | Inr output_script \<Rightarrow>
          CreateGenesisBlock sha m genesis_coinbase output_script time nonce bits version reward)"

text \<open>The constructor of \<^verbatim>\<open>consensus::Params\<close>: the genesis block and the halving interval, which the
  default branch leaves unset.\<close>

definition Params_new ::
  "(bytes \<Rightarrow> bytes) \<Rightarrow> genesis_mem \<Rightarrow> nat \<Rightarrow> btcnet \<Rightarrow> (block \<times> nat) res option" where
  "Params_new sha m mem net =
     (case net of
        kMainNet \<Rightarrow> Option.bind
          (CreateGenesisBlock_default sha m 1231006505 2083236893 0x1d00ffff 1 (50 * kSatoshiPerBitcoin))
          (\<lambda>r. Some (res_bind r (\<lambda>b. Inr (b, 210000))))
      | kTestNet \<Rightarrow> Option.bind
          (CreateGenesisBlock_default sha m 1296688602 414098458 0x1d00ffff 1 (50 * kSatoshiPerBitcoin))
          (\<lambda>r. Some (res_bind r (\<lambda>b. Inr (b, 210000))))
      | kRegTest \<Rightarrow> Option.bind
          (CreateGenesisBlock_default sha m 1296688602 2 0x207fffff 1 (50 * kSatoshiPerBitcoin))
          (\<lambda>r. Some (res_bind r (\<lambda>b. Inr (b, 150))))
      | kNone \<Rightarrow> Some (Inr (Block_Clear, mem)))"

lemma shift_values:
  "signed_drop_bit 8 (4 :: i64) = 0" "signed_drop_bit 8 (0x1d00ffff :: i64) = 0x1d00ff"
  "signed_drop_bit 8 (0x1d00ff :: i64) = 0x1d00" "signed_drop_bit 8 (0x1d00 :: i64) = 0x1d"
  "signed_drop_bit 8 (0x1d :: i64) = 0"
  by code_simp+

lemma bytes_loop_values: "bytes_loop 4 = Some [4]" "bytes_loop 0x1d00ffff = Some [0xff, 0xff, 0, 0x1d]"
  by (subst bytes_loop.simps, simp add: shift_values)+

lemma genesis_prefix:
  "genesis_script coinbase = Some (Push_bytes coinbase [4, 0xff, 0xff, 0, 0x1d, 1, 4])"
  by (simp add: genesis_script_def Push_u64_def Push_scriptint_def BytesEncoding_def bytes_loop_values
      Push_bytes_def op_defs)

lemma genesis_script_value:
  "EncodeHex (Push_bytes genesis_coinbase [4, 0xff, 0xff, 0, 0x1d, 1, 4]) =
   (ascii ''04ffff001d0104455468652054696d65732030332f4a616e2f32303039204368616e63656c6c6f72206f6e206272696e6b206f66207365636f6e64206261696c6f757420666f722062616e6b73'')"
  by code_simp

lemma genesis_output_ok: "res_ok genesis_output_script"
  by code_simp

text \<open>The last copy decides what the cache holds.\<close>

lemma genesis_tx_fields:
  "inputs (genesis_tx sha m script k reward) = [(TxIn_new (mem_prev_hash m))\<lparr>script_sig := script\<rparr>]"
  "outputs (genesis_tx sha m script k reward) = [\<lparr>out_value = reward, script_pub_key = k\<rparr>]"
  "fst (Tx_GetHash sha (genesis_tx sha m script k reward)) =
     (if mem_cache2 m = null_hash then sha (Tx_ser (genesis_tx sha m script k reward)) else mem_cache2 m)"
  by (simp_all add: genesis_tx_def Let_def Tx_copy_def Tx_make_def Tx_GetHash_def)
    (simp add: Tx_ser_def)

lemma genesis_block_default:
  "\<exists>b t k. CreateGenesisBlock_default sha m time nonce bits version reward = Some (Inr b) \<and>
     transactions b = [t] \<and> t = genesis_tx sha m (Push_bytes genesis_coinbase [4, 0xff, 0xff, 0, 0x1d, 1, 4]) k reward \<and>
     bheader b = \<lparr>hversion = version, hash_prev_block = null_hash,
       hash_merkle_root = fst (Tx_GetHash sha t), htime = time, hbits = bits, hnonce = nonce\<rparr>"
proof -
  obtain k where k: "genesis_output_script = Inr k" using res_okD[OF genesis_output_ok] by blast
  show ?thesis
    by (simp add: CreateGenesisBlock_default_def k CreateGenesisBlock_def genesis_prefix Let_def
        ComputeMerkleRoot_def Block_set_transactions_def Block_set_header_def merkle_loop.simps[of sha "[x]" for x])
      blast
qed

text \<open>The constructor of the consensus parameters returns for every network it knows, with a
  genesis block of one transaction that creates 50 bitcoins and whose input script is the published
  one.  The transaction is recognised as a coinbase only if the memory under its outpoint, which no
  constructor sets, is zero, and the Merkle root in the header is its hash only if the memory under
  the cache of its last copy is zero.\<close>
theorem genesis_parameters:
  assumes "net \<noteq> kNone"
  shows "\<exists>b n t i. Params_new sha m mem net = Some (Inr (b, n)) \<and> transactions b = [t] \<and> inputs t = [i] \<and>
     Tx_OutputsAmount t = Inr 5000000000 \<and>
     EncodeHex (script_sig i) = ascii
       ''04ffff001d0104455468652054696d65732030332f4a616e2f32303039204368616e63656c6c6f72206f6e206272696e6b206f66207365636f6e64206261696c6f757420666f722062616e6b73'' \<and>
     Tx_IsCoinBase t = (mem_prev_hash m = null_hash) \<and>
     hash_merkle_root (bheader b) = (if mem_cache2 m = null_hash then sha (Tx_ser t) else mem_cache2 m)"
proof -
  have reward: "50 * kSatoshiPerBitcoin = 5000000000" by (simp add: kSatoshiPerBitcoin_def)
  obtain time nonce bits n where
    net: "Params_new sha m mem net = Option.bind (CreateGenesisBlock_default sha m time nonce bits 1 5000000000)
       (\<lambda>r. Some (res_bind r (\<lambda>b. Inr (b, n))))"
    using assms by (cases net) (auto simp: Params_new_def reward)
  obtain b t k where b: "CreateGenesisBlock_default sha m time nonce bits 1 5000000000 = Some (Inr b)"
      "transactions b = [t]"
      "t = genesis_tx sha m (Push_bytes genesis_coinbase [4, 0xff, 0xff, 0, 0x1d, 1, 4]) k 5000000000"
      "bheader b = \<lparr>hversion = 1, hash_prev_block = null_hash,
       hash_merkle_root = fst (Tx_GetHash sha t), htime = time, hbits = bits, hnonce = nonce\<rparr>"
    using genesis_block_default[of sha m time nonce bits 1 5000000000] by blast
  have "Tx_OutputsAmount t = Inr 5000000000"
    by (simp add: Tx_OutputsAmount_def b(3) genesis_tx_fields kMaxSatoshiAmount_val Let_def)
  moreover have "Tx_IsCoinBase t = (mem_prev_hash m = null_hash)"
    by (simp add: Tx_IsCoinBase_def b(3) genesis_tx_fields TxIn_new_def OutPoint_new_def OutPoint_IsNull_def)
  ultimately show ?thesis
    using net b(1,2,4) genesis_script_value genesis_tx_fields[of sha m _ k 5000000000, folded b(3)]
    by (intro exI[of _ b] exI[of _ n] exI[of _ t]) (simp add: b(3) genesis_tx_fields)
qed

lemma genesis_parameters_witness:
  "\<exists>b n t i. Params_new (take 32) \<lparr>mem_prev_hash = null_hash, mem_cache0 = [], mem_cache1 = [], mem_cache2 = null_hash\<rparr>
       0 kRegTest = Some (Inr (b, n)) \<and> transactions b = [t] \<and> inputs t = [i] \<and> Tx_IsCoinBase t \<and>
     hash_merkle_root (bheader b) = take 32 (Tx_ser t)"
  using genesis_parameters[of kRegTest "take 32"
      "\<lparr>mem_prev_hash = null_hash, mem_cache0 = [], mem_cache1 = [], mem_cache2 = null_hash\<rparr>" 0]
  by auto

end
