(* ===== verification/Block_Index.thy ===== *)
theory Block_Index
  imports Block
begin

text \<open>
  \<^verbatim>\<open>chain::BlockIndex\<close> (\<^verbatim>\<open>src/chain/include/block_index.h\<close>, \<^verbatim>\<open>src/chain/src/block_index.cpp\<close>): the tree
  of block headers.  Entries live in a store from addresses to entries; a pointer is an
  \<open>addr option\<close>, \<open>None\<close> the null pointer.  Heights are natural numbers (below \<open>2 ^ 31\<close> in the
  code, which mixes \<^verbatim>\<open>size_t\<close> and \<^verbatim>\<open>int\<close>).
\<close>

type_synonym addr = nat

record bindex =
  ix_header :: header
  block_hash :: bytes
  pprev :: "addr option"
  pskip :: "addr option"
  height :: nat
  chain_work :: u256
  tx_num :: u32
  chain_tx_num :: u32
  status :: u32
  sequence_id :: int

type_synonym store = "addr \<Rightarrow> bindex option"

definition bindex_new :: "header \<Rightarrow> bytes \<Rightarrow> bindex" where
  "bindex_new h mem = \<lparr>ix_header = h, block_hash = mem, pprev = None, pskip = None, height = 0, chain_work = 0,
     tx_num = 0, chain_tx_num = 0, status = 0, sequence_id = 0\<rparr>"

subsection \<open>Validity levels\<close>

definition kBlockValidHeader :: u32 where [status_defs]: "kBlockValidHeader = 1"
definition kBlockValidTree :: u32 where [status_defs]: "kBlockValidTree = 2"
definition kBlockValidTransactions :: u32 where [status_defs]: "kBlockValidTransactions = 3"
definition kBlockValidChain :: u32 where [status_defs]: "kBlockValidChain = 4"
definition kBlockValidScripts :: u32 where [status_defs]: "kBlockValidScripts = 5"

definition kBlockValidMask :: u32 where
  "kBlockValidMask = kBlockValidHeader OR kBlockValidTree OR kBlockValidTransactions OR
     kBlockValidChain OR kBlockValidScripts"

definition kBlockHaveData :: u32 where [status_defs]: "kBlockHaveData = 8"
definition kBlockFailedValid :: u32 where [status_defs]: "kBlockFailedValid = 32"
definition kBlockFailedChild :: u32 where [status_defs]: "kBlockFailedChild = 64"

definition kBlockFailedMask :: u32 where
  "kBlockFailedMask = kBlockFailedValid OR kBlockFailedChild"

definition IsValid :: "u32 \<Rightarrow> bindex \<Rightarrow> bool res" where
  "IsValid lvl b =
     (if lvl AND kBlockValidMask \<noteq> 0 then Inl Assertion
      else if status b AND kBlockFailedMask \<noteq> 0 then Inr False
      else Inr (status b AND kBlockValidMask \<ge> lvl))"

definition RaiseValidity :: "u32 \<Rightarrow> bindex \<Rightarrow> (bool \<times> bindex) res" where
  "RaiseValidity up_to b =
     (if up_to AND NOT kBlockValidMask \<noteq> 0 then Inl Assertion
      else if status b AND kBlockFailedMask \<noteq> 0 then Inr (False, b)
      else if status b AND kBlockValidMask < up_to
      then Inr (True, b\<lparr>status := (status b AND NOT kBlockValidMask) OR up_to\<rparr>)
      else Inr (False, b))"

subsection \<open>Skip list\<close>

definition InvertLowestOne :: "nat \<Rightarrow> nat" where
  "InvertLowestOne n = n AND (n - 1)"

definition GetSkipHeight :: "nat \<Rightarrow> nat" where
  "GetSkipHeight h =
     (if h < 2 then 0
      else if h AND 1 \<noteq> 0 then InvertLowestOne (InvertLowestOne (h - 1)) + 1
      else InvertLowestOne h)"

lemma and_le_nat: "m AND n \<le> n" for m n :: nat
proof -
  have "int (m AND n) \<le> int n" by (simp add: of_nat_and_eq)
  then show ?thesis by simp
qed

lemma InvertLowestOne_le: "InvertLowestOne n \<le> n - 1"
  by (simp add: InvertLowestOne_def and_le_nat)

lemma GetSkipHeight_less: "0 < h \<Longrightarrow> GetSkipHeight h < h"
  using InvertLowestOne_le[of h] InvertLowestOne_le[of "h - 1"]
    InvertLowestOne_le[of "InvertLowestOne (h - 1)"]
  by (auto simp: GetSkipHeight_def)

text \<open>The walk of the constant \<^verbatim>\<open>GetAncestor\<close>; the height it keeps is its own count, not a field.\<close>

definition follow_skip :: "nat \<Rightarrow> nat \<Rightarrow> bool" where
  "follow_skip target walk =
     (let skip = int (GetSkipHeight walk); skip_prev = int (GetSkipHeight (walk - 1)); t = int target
      in skip = t \<or> skip > t \<and> \<not> (skip_prev < skip - 2 \<and> skip_prev \<ge> t))"

function ancestor_walk :: "store \<Rightarrow> nat \<Rightarrow> addr \<Rightarrow> nat \<Rightarrow> addr res" where
  "ancestor_walk st target a walk =
     (if walk > target then
        case st a of
          None \<Rightarrow> Inl Undefined
        | Some b \<Rightarrow>
            (case pskip b of
               Some s \<Rightarrow>
                 if follow_skip target walk then ancestor_walk st target s (GetSkipHeight walk)
                 else (case pprev b of
                         None \<Rightarrow> Inl Assertion
                       | Some p \<Rightarrow> ancestor_walk st target p (walk - 1))
             | None \<Rightarrow>
                 (case pprev b of
                    None \<Rightarrow> Inl Assertion
                  | Some p \<Rightarrow> ancestor_walk st target p (walk - 1)))
      else Inr a)"
  by pat_completeness auto
termination
  by (relation "measure (\<lambda>(_, _, _, walk). walk)") (auto simp: GetSkipHeight_less)

declare ancestor_walk.simps [simp del]

definition GetAncestor :: "store \<Rightarrow> addr \<Rightarrow> nat \<Rightarrow> addr option res" where
  "GetAncestor st a target =
     (case st a of
        None \<Rightarrow> Inl Undefined
      | Some b \<Rightarrow>
          if target > height b then Inr None
          else res_bind (ancestor_walk st target a (height b)) (\<lambda>r. Inr (Some r)))"

text \<open>The overload for a non-constant entry casts the result of calling itself.\<close>

partial_function (option) GetAncestor_nonconst :: "store \<Rightarrow> addr \<Rightarrow> nat \<Rightarrow> addr option res option" where
  "GetAncestor_nonconst st a target = GetAncestor_nonconst st a target"

text \<open>\<^verbatim>\<open>pprev_\<close> is a pointer to a non-constant entry.\<close>

definition BuildSkip :: "store \<Rightarrow> bindex \<Rightarrow> bindex res option" where
  "BuildSkip st b =
     (case pprev b of
        None \<Rightarrow> Some (Inr b)
      | Some p \<Rightarrow> Option.bind (GetAncestor_nonconst st p (GetSkipHeight (height b)))
                  (\<lambda>r. Some (res_bind r (\<lambda>s. Inr (b\<lparr>pskip := s\<rparr>)))))"

text \<open>\<^verbatim>\<open>BlockIndexWorkComparator\<close>, with the addresses as tie breaker.\<close>

definition work_less :: "store \<Rightarrow> addr \<Rightarrow> addr \<Rightarrow> bool" where
  "work_less st pa pb =
     (case (st pa, st pb) of
        (Some a, Some b) \<Rightarrow>
          if chain_work a > chain_work b then False
          else if chain_work a < chain_work b then True
          else if sequence_id a < sequence_id b then False
          else if sequence_id a > sequence_id b then True
          else if pa < pb then False
          else pa > pb
      | _ \<Rightarrow> False)"

subsection \<open>Well-formed trees\<close>

text \<open>\<open>up st n a\<close> follows \<open>n\<close> parent pointers.\<close>

fun up :: "store \<Rightarrow> nat \<Rightarrow> addr \<Rightarrow> addr option" where
  "up st 0 a = (case st a of None \<Rightarrow> None | Some _ \<Rightarrow> Some a)"
| "up st (Suc n) a =
     (case st a of None \<Rightarrow> None
      | Some b \<Rightarrow> (case pprev b of None \<Rightarrow> None | Some p \<Rightarrow> up st n p))"

definition entry_wf :: "store \<Rightarrow> addr \<Rightarrow> bindex \<Rightarrow> bool" where
  "entry_wf st a b =
    ((case pprev b of
        None \<Rightarrow> height b = 0
      | Some p \<Rightarrow> \<exists>pb. st p = Some pb \<and> height b = Suc (height pb)) \<and>
     (case pskip b of
        None \<Rightarrow> True
      | Some s \<Rightarrow> up st (height b - GetSkipHeight (height b)) a = Some s))"

definition tree_wf :: "store \<Rightarrow> bool" where
  [inv_defs]: "tree_wf st = (\<forall>a b. st a = Some b \<longrightarrow> entry_wf st a b)"

lemma tree_wfD:
  assumes "tree_wf st" "st a = Some b"
  shows "pprev b = None \<Longrightarrow> height b = 0"
    and "pprev b = Some p \<Longrightarrow> \<exists>pb. st p = Some pb \<and> height b = Suc (height pb)"
    and "pskip b = Some s \<Longrightarrow> up st (height b - GetSkipHeight (height b)) a = Some s"
proof -
  have e: "entry_wf st a b" using assms by (simp add: tree_wf_def)
  show "pprev b = None \<Longrightarrow> height b = 0"
    and "pprev b = Some p \<Longrightarrow> \<exists>pb. st p = Some pb \<and> height b = Suc (height pb)"
    and "pskip b = Some s \<Longrightarrow> up st (height b - GetSkipHeight (height b)) a = Some s"
    using e by (simp_all add: entry_wf_def)
qed

lemma up_add: "up st m a = Some b \<Longrightarrow> up st (m + n) a = up st n b"
  by (induction m arbitrary: a) (auto split: option.splits)

lemma up_in_store: "up st n a = Some b \<Longrightarrow> \<exists>ib. st b = Some ib"
  by (induction n arbitrary: a) (auto split: option.splits)

lemma up_exists:
  "tree_wf st \<Longrightarrow> st a = Some b \<Longrightarrow> n \<le> height b \<Longrightarrow>
   \<exists>c ic. up st n a = Some c \<and> st c = Some ic \<and> height ic = height b - n"
proof (induction n arbitrary: a b)
  case (Suc n)
  from Suc.prems obtain p where p: "pprev b = Some p"
    using tree_wfD(1)[OF Suc.prems(1,2)] by (cases "pprev b") auto
  obtain pb where pb: "st p = Some pb" "height b = Suc (height pb)"
    using tree_wfD(2)[OF Suc.prems(1,2) p] by auto
  then show ?case using Suc.IH[OF Suc.prems(1) pb(1)] Suc.prems p by simp
qed simp

text \<open>The walk goes up by the difference of the heights, whichever pointers it takes.\<close>

lemma ancestor_walk_up:
  assumes wf: "tree_wf st"
  shows "st a = Some b \<Longrightarrow> height b = walk \<Longrightarrow> target \<le> walk \<Longrightarrow>
    \<exists>c. ancestor_walk st target a walk = Inr c \<and> up st (walk - target) a = Some c"
proof (induction walk arbitrary: a b rule: less_induct)
  case (less walk)
  show ?case
  proof (cases "walk > target")
    case False
    then show ?thesis using less.prems by (subst ancestor_walk.simps) simp
  next
    case True
    then have w: "0 < height b" using less.prems by simp
    obtain p where p: "pprev b = Some p"
      using w tree_wfD(1)[OF wf less.prems(1)] by (cases "pprev b") auto
    obtain pb where pb: "st p = Some pb" "height b = Suc (height pb)"
      using tree_wfD(2)[OF wf less.prems(1) p] by auto
    have parent: "\<exists>c. ancestor_walk st target p (walk - 1) = Inr c \<and> up st (walk - target) a = Some c"
    proof -
      have "\<exists>c. ancestor_walk st target p (walk - 1) = Inr c \<and> up st (walk - 1 - target) p = Some c"
        using less.IH[of "walk - 1" p pb] pb less.prems(2) True by auto
      moreover have "walk - target = Suc (walk - 1 - target)" using True by simp
      ultimately show ?thesis using less.prems(1) p by simp
    qed
    show ?thesis
    proof (cases "pskip b")
      case None
      then show ?thesis using True less.prems(1) p parent by (subst ancestor_walk.simps) simp
    next
      case (Some s)
      show ?thesis
      proof (cases "follow_skip target walk")
        case False
        then show ?thesis using True less.prems(1) p parent Some by (subst ancestor_walk.simps) simp
      next
        case follow: True
        let ?k = "GetSkipHeight walk"
        have k: "target \<le> ?k" "?k < walk" using follow True GetSkipHeight_less[of walk]
          by (auto simp: follow_skip_def Let_def)
        have s: "up st (walk - ?k) a = Some s"
          using tree_wfD(3)[OF wf less.prems(1) Some] less.prems(2) by simp
        obtain sb where sb: "st s = Some sb" "height sb = ?k"
          using up_exists[OF wf less.prems(1), of "walk - ?k"] s less.prems(2) k by auto
        obtain c where c: "ancestor_walk st target s ?k = Inr c" "up st (?k - target) s = Some c"
          using less.IH[OF k(2) sb(1) sb(2) k(1)] by blast
        have "walk - target = (walk - ?k) + (?k - target)" using k by simp
        then have "up st (walk - target) a = Some c" using up_add[OF s] c(2) by simp
        then show ?thesis using True less.prems(1) Some follow c(1) by (subst ancestor_walk.simps) simp
      qed
    qed
  qed
qed

lemma GetAncestor_up:
  assumes "tree_wf st" "st a = Some b"
  shows "GetAncestor st a target =
     Inr (if target \<le> height b then up st (height b - target) a else None)"
  using ancestor_walk_up[OF assms refl] assms(2) by (fastforce simp: GetAncestor_def not_less)

text \<open>C30: \<^verbatim>\<open>GetAncestor\<close> on a constant entry of a well-formed tree returns the entry that many parent
  steps up reach, at the requested height, and null above the entry, by whatever mixture of skip
  and parent pointers; it neither asserts nor leaves the tree.\<close>
theorem GetAncestor_correct:
  assumes "tree_wf st" and "st a = Some b" and "target \<le> height b"
  shows "\<exists>c ic. GetAncestor st a target = Inr (Some c) \<and> up st (height b - target) a = Some c \<and>
     st c = Some ic \<and> height ic = target"
  using GetAncestor_up[OF assms(1,2)] up_exists[OF assms(1,2), of "height b - target"] assms(3) by auto

definition two_blocks :: store where
  "two_blocks = [0 \<mapsto> bindex_new Header_Clear null_hash,
     1 \<mapsto> (bindex_new Header_Clear null_hash)\<lparr>pprev := Some 0, height := 1, pskip := Some 0\<rparr>]"

lemma two_blocks_wf: "tree_wf two_blocks"
  by (auto simp: tree_wf_def entry_wf_def two_blocks_def bindex_new_def GetSkipHeight_def split: if_splits)

lemma GetAncestor_correct_witness:
  "\<exists>c ic. GetAncestor two_blocks 1 0 = Inr (Some c) \<and> up two_blocks 1 1 = Some c \<and>
     two_blocks c = Some ic \<and> height ic = 0"
  using GetAncestor_correct[OF two_blocks_wf, of 1 _ 0] by (simp add: two_blocks_def bindex_new_def)

lemma GetAncestor_nonconst_None: "GetAncestor_nonconst st a target = None"
proof (rule ccontr)
  assume "GetAncestor_nonconst st a target \<noteq> None"
  then obtain r where "GetAncestor_nonconst st a target = Some r" by auto
  then show False
    by (rule GetAncestor_nonconst.raw_induct[where P = "\<lambda>_ _ _ _. False", rotated]) auto
qed

text \<open>The non-constant overload never returns, so \<^verbatim>\<open>BuildSkip\<close> does not return for an entry that
  has a parent.\<close>
theorem BuildSkip_diverges:
  "GetAncestor_nonconst st a target = None \<and> (BuildSkip st b = None \<longleftrightarrow> pprev b \<noteq> None)"
  by (auto simp: BuildSkip_def GetAncestor_nonconst_None split: option.splits)

text \<open>The assertion of \<^verbatim>\<open>IsValid\<close> lacks a complement: the call aborts for each of the five validity
  levels, its default argument included; \<^verbatim>\<open>RaiseValidity\<close> accepts them all, never lowers the level and
  leaves the other status bits alone.\<close>
theorem validity_levels:
  assumes "lvl \<in> set [kBlockValidHeader, kBlockValidTree, kBlockValidTransactions, kBlockValidChain, kBlockValidScripts]"
  shows "IsValid lvl b = Inl Assertion \<and>
    (\<exists>changed b'. RaiseValidity lvl b = Inr (changed, b') \<and>
       status b AND kBlockValidMask \<le> status b' AND kBlockValidMask \<and>
       status b' AND NOT kBlockValidMask = status b AND NOT kBlockValidMask \<and>
       (changed = (status b' \<noteq> status b)))"
proof -
  have m: "kBlockValidMask = 7" by (simp add: kBlockValidMask_def status_defs)
  have u: "lvl AND 7 = lvl" "lvl AND NOT 7 = 0" "lvl \<noteq> 0"
    using assms by (auto simp: status_defs)
  have "((status b AND NOT 7) OR lvl) AND 7 = lvl" "((status b AND NOT 7) OR lvl) AND NOT 7 = status b AND NOT 7"
    using u by (simp_all add: bit.conj_disj_distrib2 and.assoc)
  then show ?thesis using u unfolding IsValid_def RaiseValidity_def m
    by (auto simp: not_less)
qed

lemma validity_levels_witness:
  "IsValid kBlockValidTransactions (bindex_new Header_Clear null_hash) = Inl Assertion"
  using validity_levels[of kBlockValidTransactions "bindex_new Header_Clear null_hash"] by simp

end
