(* ===== verification/Active_Chain.thy ===== *)
theory Active_Chain
  imports Block_Index
begin

text \<open>
  \<^verbatim>\<open>chain::Chain\<close> (\<^verbatim>\<open>src/chain/include/chain_state.h\<close>, \<^verbatim>\<open>src/chain/src/chain_state.cpp\<close>): the active
  chain as a vector of pointers indexed by height, over the store of \<open>Block_Index\<close>.  A loop over
  pointers is a partial function; \<open>None\<close> is a run that does not end.
\<close>

type_synonym chain = "addr option list"

definition chain_Genesis :: "chain \<Rightarrow> addr option" where
  "chain_Genesis c = (if length c > 0 then c ! 0 else None)"

definition chain_Tip :: "chain \<Rightarrow> addr option" where
  "chain_Tip c = (if length c > 0 then c ! (length c - 1) else None)"

definition chain_GetBlockIndex :: "chain \<Rightarrow> nat \<Rightarrow> addr option" where
  "chain_GetBlockIndex c h = (if h \<ge> length c then None else c ! h)"

definition chain_eq :: "chain \<Rightarrow> chain \<Rightarrow> bool res" where
  "chain_eq a b =
     (if length a \<noteq> length b then Inr False
      else if length a = 0 then Inl Undefined
      else Inr (a ! (length a - 1) = b ! (length b - 1)))"

text \<open>Reading through a pointer that is not in the store is undefined.\<close>

definition deref :: "store \<Rightarrow> addr \<Rightarrow> bindex res" where
  "deref st a = (case st a of None \<Rightarrow> Inl Undefined | Some b \<Rightarrow> Inr b)"

definition chain_IsExist :: "store \<Rightarrow> chain \<Rightarrow> addr \<Rightarrow> bool res" where
  "chain_IsExist st c a = res_bind (deref st a) (\<lambda>b. Inr (chain_GetBlockIndex c (height b) = Some a))"

definition chain_Next :: "store \<Rightarrow> chain \<Rightarrow> addr \<Rightarrow> addr option res" where
  "chain_Next st c a = res_bind (deref st a) (\<lambda>b. Inr (chain_GetBlockIndex c (height b + 1)))"

text \<open>The size is taken minus one and narrowed to 32 bits: an empty chain has the largest height.\<close>

definition chain_Height :: "chain \<Rightarrow> nat" where
  "chain_Height c = (if c = [] then 2 ^ 32 - 1 else (length c - 1) mod 2 ^ 32)"

definition chain_resize :: "nat \<Rightarrow> chain \<Rightarrow> chain" where
  "chain_resize n c = take n c @ replicate (n - length c) None"

partial_function (option) settip_loop :: "store \<Rightarrow> addr option \<Rightarrow> chain \<Rightarrow> chain res option" where
  "settip_loop st p c =
     (case p of
        None \<Rightarrow> Some (Inr c)
      | Some a \<Rightarrow>
          (case st a of
             None \<Rightarrow> Some (Inl Undefined)
           | Some b \<Rightarrow>
               if height b \<ge> length c then Some (Inl Undefined)
               else if c ! height b \<noteq> Some a then settip_loop st (pprev b) (c[height b := Some a])
               else Some (Inr c)))"

definition SetTip :: "store \<Rightarrow> addr option \<Rightarrow> chain \<Rightarrow> chain res option" where
  "SetTip st p c =
     (case p of
        None \<Rightarrow> Some (Inr [])
      | Some a \<Rightarrow>
          (case deref st a of
             Inl e \<Rightarrow> Some (Inl e)
           | Inr b \<Rightarrow> settip_loop st p (chain_resize (height b + 1) c)))"

partial_function (option) findfork_loop :: "store \<Rightarrow> chain \<Rightarrow> addr option \<Rightarrow> addr option res option" where
  "findfork_loop st c p =
     (case p of
        None \<Rightarrow> Some (Inr None)
      | Some a \<Rightarrow>
          (case deref st a of
             Inl e \<Rightarrow> Some (Inl e)
           | Inr b \<Rightarrow>
               if chain_GetBlockIndex c (height b) = Some a then Some (Inr p)
               else findfork_loop st c (pprev b)))"

definition FindFork :: "store \<Rightarrow> chain \<Rightarrow> addr option \<Rightarrow> addr option res option" where
  "FindFork st c p =
     (case p of
        None \<Rightarrow> Some (Inr None)
      | Some a \<Rightarrow>
          (case deref st a of
             Inl e \<Rightarrow> Some (Inl e)
           | Inr b \<Rightarrow>
               if height b > chain_Height c then
                 (case GetAncestor st a (chain_Height c) of
                    Inl e \<Rightarrow> Some (Inl e)
                  | Inr q \<Rightarrow> findfork_loop st c q)
               else findfork_loop st c p))"

partial_function (option) locator_loop ::
  "store \<Rightarrow> chain \<Rightarrow> addr option \<Rightarrow> nat \<Rightarrow> bytes list \<Rightarrow> bytes list res option" where
  "locator_loop st c p step out =
     (case p of
        None \<Rightarrow> Some (Inr out)
      | Some a \<Rightarrow>
          (case deref st a of
             Inl e \<Rightarrow> Some (Inl e)
           | Inr b \<Rightarrow>
               let out' = out @ [block_hash b] in
               if height b = 0 then Some (Inr out')
               else
                 let h = height b - step;
                     next = (if chain_GetBlockIndex c (height b) = Some a then Inr (chain_GetBlockIndex c h)
                             else GetAncestor st a h);
                     step' = (if length out' > 10 then step * 2 else step)
                 in case next of
                      Inl e \<Rightarrow> Some (Inl e)
                    | Inr q \<Rightarrow> locator_loop st c q step' out'))"

definition GetLocator :: "store \<Rightarrow> chain \<Rightarrow> addr option \<Rightarrow> bytes list res option" where
  "GetLocator st c p = locator_loop st c (if p = None then chain_Tip c else p) 1 []"

subsection \<open>Consistent chains\<close>

text \<open>The chain holds exactly the ancestors of its tip.\<close>

definition chain_of :: "store \<Rightarrow> chain \<Rightarrow> addr \<Rightarrow> bool" where
  "chain_of st c t = (\<exists>b. st t = Some b \<and> length c = Suc (height b) \<and>
     (\<forall>i \<le> height b. c ! i = up st (height b - i) t))"

definition chain_ok :: "store \<Rightarrow> chain \<Rightarrow> bool" where
  [inv_defs]: "chain_ok st c = (c = [] \<or> (\<exists>t. chain_of st c t))"

lemma chain_of_entry:
  assumes wf: "tree_wf st" and c: "chain_of st c t" and i: "i < length c"
  shows "\<exists>a b. c ! i = Some a \<and> st a = Some b \<and> height b = i \<and> (\<forall>j \<le> i. c ! j = up st (i - j) a)"
proof -
  obtain b where b: "st t = Some b" "length c = Suc (height b)" "\<forall>i \<le> height b. c ! i = up st (height b - i) t"
    using c by (auto simp: chain_of_def)
  obtain a ia where a: "up st (height b - i) t = Some a" "st a = Some ia" "height ia = height b - (height b - i)"
    using up_exists[OF wf b(1), of "height b - i"] by auto
  have h: "height ia = i" using a(3) b(2) i by simp
  have "c ! j = up st (i - j) a" if "j \<le> i" for j
  proof -
    have "height b - j = (height b - i) + (i - j)" using that i b(2) by simp
    then show ?thesis using up_add[OF a(1), of "i - j"] b(2,3) i that by simp
  qed
  then show ?thesis using a b h i by auto
qed

lemma chain_ok_entry:
  "tree_wf st \<Longrightarrow> chain_ok st c \<Longrightarrow> i < length c \<Longrightarrow>
   \<exists>a b. c ! i = Some a \<and> st a = Some b \<and> height b = i \<and> (\<forall>j \<le> i. c ! j = up st (i - j) a)"
  using chain_of_entry by (fastforce simp: chain_ok_def)

text \<open>The part of the vector up to a height that \<^verbatim>\<open>SetTip\<close> may stop at.\<close>

definition closed_below :: "store \<Rightarrow> chain \<Rightarrow> nat \<Rightarrow> bool" where
  "closed_below st c k = (\<forall>i \<le> k. \<forall>x. c ! i = Some x \<longrightarrow> (\<forall>j \<le> i. c ! j = up st (i - j) x))"

lemma settip_loop_fills:
  assumes wf: "tree_wf st"
  shows "st a = Some b \<Longrightarrow> height b = k \<Longrightarrow> k < length c \<Longrightarrow> closed_below st c k \<Longrightarrow>
    \<exists>c'. settip_loop st (Some a) c = Some (Inr c') \<and> length c' = length c \<and>
      (\<forall>i \<le> k. c' ! i = up st (k - i) a) \<and> (\<forall>i. k < i \<and> i < length c \<longrightarrow> c' ! i = c ! i)"
proof (induction k arbitrary: a b c)
  case 0
  have p: "pprev b = None"
    using tree_wfD(2)[OF wf 0(1)] 0(2) by (cases "pprev b") auto
  show ?case
    using 0 p by (subst settip_loop.simps) (auto simp: settip_loop.simps[of st None])
next
  case (Suc k)
  obtain p where p: "pprev b = Some p"
    using tree_wfD(1)[OF wf Suc.prems(1)] Suc.prems(2) by (cases "pprev b") auto
  obtain pb where pb: "st p = Some pb" "height pb = k"
    using tree_wfD(2)[OF wf Suc.prems(1) p] Suc.prems(2) by auto
  have up_a: "up st (Suc k - i) a = (if i = Suc k then Some a else up st (k - i) p)" if "i \<le> Suc k" for i
    using that Suc.prems(1) p by (cases "i = Suc k") (auto simp: Suc_diff_le)
  show ?case
  proof (cases "c ! Suc k = Some a")
    case True
    then have "\<forall>j \<le> Suc k. c ! j = up st (Suc k - j) a"
      using Suc.prems(4) by (auto simp: closed_below_def)
    then show ?thesis using True Suc.prems by (subst settip_loop.simps) auto
  next
    case False
    let ?c = "c[Suc k := Some a]"
    have "closed_below st ?c k" using Suc.prems(4) by (auto simp: closed_below_def)
    then obtain c' where c': "settip_loop st (Some p) ?c = Some (Inr c')" "length c' = length c"
        "\<forall>i \<le> k. c' ! i = up st (k - i) p" "\<forall>i. k < i \<and> i < length c \<longrightarrow> c' ! i = ?c ! i"
      using Suc.IH[OF pb, of ?c] Suc.prems(3) by auto
    have "settip_loop st (Some a) c = Some (Inr c')"
      using False Suc.prems(1-3) p c'(1) by (subst settip_loop.simps) simp
    moreover have "\<forall>i \<le> Suc k. c' ! i = up st (Suc k - i) a"
      using c'(3,4) Suc.prems(3) up_a by (auto simp: le_Suc_eq)
    moreover have "\<forall>i. Suc k < i \<and> i < length c \<longrightarrow> c' ! i = c ! i" using c'(4) by auto
    ultimately show ?thesis using c'(2) by blast
  qed
qed

lemma closed_below_resize:
  assumes wf: "tree_wf st" and ok: "chain_ok st c"
  shows "closed_below st (chain_resize (Suc k) c) k"
  unfolding closed_below_def
proof (intro allI impI)
  fix i x j
  assume i: "i \<le> k" and x: "chain_resize (Suc k) c ! i = Some x" and j: "j \<le> i"
  have il: "i < length c"
  proof (rule ccontr)
    assume "\<not> i < length c"
    then have "chain_resize (Suc k) c ! i = None" using i by (simp add: chain_resize_def nth_append)
    then show False using x by simp
  qed
  have nth: "chain_resize (Suc k) c ! m = c ! m" if "m \<le> i" for m
    using that i il by (simp add: chain_resize_def nth_append)
  show "chain_resize (Suc k) c ! j = up st (i - j) x"
    using chain_ok_entry[OF wf ok il] x j nth by auto
qed

lemma SetTip_chain_of:
  assumes wf: "tree_wf st" and ok: "chain_ok st c" and a: "st a = Some b"
  shows "\<exists>c'. SetTip st (Some a) c = Some (Inr c') \<and> chain_of st c' a"
proof -
  let ?c = "chain_resize (Suc (height b)) c"
  have len: "length ?c = Suc (height b)" by (simp add: chain_resize_def)
  obtain c' where "settip_loop st (Some a) ?c = Some (Inr c')" "length c' = length ?c"
      "\<forall>i \<le> height b. c' ! i = up st (height b - i) a"
    using settip_loop_fills[OF wf a refl _ closed_below_resize[OF wf ok]] len by auto
  then show ?thesis using a len by (auto simp: SetTip_def deref_def chain_of_def)
qed

lemma chain_of_Tip: "chain_of st c a \<Longrightarrow> chain_Tip c = Some a"
  by (auto simp: chain_of_def chain_Tip_def)

subsection \<open>Forks\<close>

text \<open>The entry and its ancestors, from the entry down to the root.\<close>

definition ancestors :: "store \<Rightarrow> addr \<Rightarrow> nat \<Rightarrow> addr list" where
  "ancestors st a n = map (\<lambda>k. the (up st k a)) [0..<Suc n]"

definition in_chain :: "store \<Rightarrow> chain \<Rightarrow> addr \<Rightarrow> bool" where
  "in_chain st c a = (chain_IsExist st c a = Inr True)"

lemma ancestors_Suc:
  assumes "st a = Some b" "pprev b = Some p"
  shows "ancestors st a (Suc n) = a # ancestors st p n"
proof -
  have "[0..<Suc (Suc n)] = 0 # map Suc [0..<Suc n]" by (simp add: map_Suc_upt upt_conv_Cons del: upt_Suc)
  then show ?thesis using assms by (simp add: ancestors_def comp_def del: upt_Suc)
qed

lemma findfork_loop_find:
  assumes wf: "tree_wf st"
  shows "st a = Some b \<Longrightarrow> height b = n \<Longrightarrow>
    findfork_loop st c (Some a) = Some (Inr (List.find (in_chain st c) (ancestors st a n)))"
proof (induction n arbitrary: a b)
  case 0
  have p: "pprev b = None" using tree_wfD(2)[OF wf 0(1)] 0(2) by (cases "pprev b") auto
  show ?case using 0 p
    by (subst findfork_loop.simps)
      (simp add: deref_def ancestors_def in_chain_def chain_IsExist_def findfork_loop.simps[of st c None])
next
  case (Suc n)
  obtain p where p: "pprev b = Some p"
    using tree_wfD(1)[OF wf Suc.prems(1)] Suc.prems(2) by (cases "pprev b") auto
  obtain pb where pb: "st p = Some pb" "height pb = n"
    using tree_wfD(2)[OF wf Suc.prems(1) p] Suc.prems(2) by auto
  have "in_chain st c a = (chain_GetBlockIndex c (Suc n) = Some a)"
    using Suc.prems by (simp add: in_chain_def chain_IsExist_def deref_def)
  then show ?case using Suc.prems p Suc.IH[OF pb]
    by (subst findfork_loop.simps) (simp add: deref_def ancestors_Suc[of st a b p n])
qed

lemma find_append: "List.find P (xs @ ys) = (case List.find P xs of None \<Rightarrow> List.find P ys | Some x \<Rightarrow> Some x)"
  by (induction xs) auto

lemma find_none: "(\<And>x. x \<in> set xs \<Longrightarrow> \<not> P x) \<Longrightarrow> List.find P xs = None"
  by (induction xs) auto

text \<open>Entries above the chain are not in it, so starting lower finds the same fork.\<close>

lemma find_skip_high:
  assumes wf: "tree_wf st" and a: "st a = Some b" and up: "up st m a = Some q" and m: "m \<le> height b"
    and high: "length c \<le> height b - m + 1"
  shows "List.find (in_chain st c) (ancestors st a (height b)) = List.find (in_chain st c) (ancestors st q (height b - m))"
proof -
  have "ancestors st a (height b) = map (\<lambda>k. the (up st k a)) [0..<m] @ map (\<lambda>k. the (up st k a)) [m..<Suc (height b)]"
    unfolding ancestors_def using m by (metis map_append upt_add_eq_append le_SucI zero_le le_add_diff_inverse)
  moreover have "map (\<lambda>k. the (up st k a)) [m..<Suc (height b)] = ancestors st q (height b - m)"
  proof -
    have "[m..<Suc (height b)] = map (\<lambda>k. k + m) [0..<Suc (height b - m)]"
      using m by (simp add: map_add_upt Suc_diff_le del: upt_Suc)
    then show ?thesis unfolding ancestors_def using up_add[OF up] by (simp add: add.commute comp_def del: upt_Suc)
  qed
  moreover have "\<not> in_chain st c x" if x: "x \<in> set (map (\<lambda>k. the (up st k a)) [0..<m])" for x
  proof -
    obtain k where k: "k < m" "x = the (up st k a)" using x by auto
    then obtain y iy where "up st k a = Some y" "st y = Some iy" "height iy = height b - k"
      using up_exists[OF wf a, of k] m by auto
    then show ?thesis using k m high
      by (auto simp: in_chain_def chain_IsExist_def deref_def chain_GetBlockIndex_def)
  qed
  then have "List.find (in_chain st c) (map (\<lambda>k. the (up st k a)) [0..<m]) = None" by (rule find_none)
  ultimately show ?thesis by (simp only: find_append option.case)
qed

subsection \<open>Locators\<close>

text \<open>The heights a locator names: ten single steps, then steps that double.\<close>

function locator_heights :: "nat \<Rightarrow> nat \<Rightarrow> nat \<Rightarrow> nat list" where
  "locator_heights step cnt h =
     h # (if h = 0 \<or> step = 0 then []
          else locator_heights (if Suc cnt > 10 then step * 2 else step) (Suc cnt) (h - step))"
  by pat_completeness auto
termination
  by (relation "measure (\<lambda>(_, _, h). h)") auto

declare locator_heights.simps [simp del]

definition hash_at :: "store \<Rightarrow> addr \<Rightarrow> nat \<Rightarrow> bytes" where
  "hash_at st t h = (case st t of
      None \<Rightarrow> []
    | Some b \<Rightarrow> (case up st (height b - h) t of
        None \<Rightarrow> []
      | Some a \<Rightarrow> (case st a of None \<Rightarrow> [] | Some ia \<Rightarrow> block_hash ia)))"

lemma locator_loop_heights:
  assumes wf: "tree_wf st" and t: "st t = Some bt" and c: "chain_ok st c"
  shows "h \<le> height bt \<Longrightarrow> 0 < step \<Longrightarrow> up st (height bt - h) t = Some a \<Longrightarrow>
    locator_loop st c (Some a) step out =
      Some (Inr (out @ map (hash_at st t) (locator_heights step (length out) h)))"
proof (induction h arbitrary: a step out rule: less_induct)
  case (less h)
  obtain b where b: "st a = Some b" "height b = h"
    using up_exists[OF wf t, of "height bt - h"] less.prems by auto
  have ha: "hash_at st t h = block_hash b" using t b less.prems(3) by (simp add: hash_at_def)
  show ?case
  proof (cases "h = 0")
    case True
    then show ?thesis using b ha
      by (subst locator_loop.simps, subst locator_heights.simps) (simp add: deref_def)
  next
    case False
    let ?h = "h - step"
    let ?step = "if length (out @ [block_hash b]) > 10 then step * 2 else step"
    have lt: "?h < h" using False less.prems(2) by simp
    obtain q where q: "up st (h - ?h) a = Some q" using up_exists[OF wf b(1), of "h - ?h"] b(2) by auto
    have next1: "chain_GetBlockIndex c ?h = Some q" if "chain_GetBlockIndex c h = Some a"
    proof -
      have h: "h < length c" "c ! h = Some a" using that by (auto simp: chain_GetBlockIndex_def split: if_splits)
      then have "c ! ?h = up st (h - ?h) a" using chain_ok_entry[OF wf c h(1)] by fastforce
      then show ?thesis using q h by (simp add: chain_GetBlockIndex_def)
    qed
    have next2: "GetAncestor st a ?h = Inr (Some q)" using GetAncestor_up[OF wf b(1)] b(2) q by simp
    have uq: "up st (height bt - ?h) t = Some q"
    proof -
      have "height bt - ?h = (height bt - h) + (h - ?h)" using less.prems(1) by simp
      then show ?thesis using up_add[OF less.prems(3), of "h - ?h"] q by simp
    qed
    have "locator_loop st c (Some q) ?step (out @ [block_hash b]) =
        Some (Inr ((out @ [block_hash b]) @ map (hash_at st t) (locator_heights ?step (length (out @ [block_hash b])) ?h)))"
      using less.IH[OF lt _ _ uq, of ?step "out @ [block_hash b]"] less.prems(1,2) by simp
    moreover have "locator_loop st c (Some a) step out = locator_loop st c (Some q) ?step (out @ [block_hash b])"
      using False b next1 next2 by (subst locator_loop.simps) (simp add: deref_def Let_def)
    ultimately show ?thesis using False less.prems(2) ha by (subst locator_heights.simps) simp
  qed
qed

lemma locator_heights_last: "0 < step \<Longrightarrow> last (locator_heights step cnt h) = 0"
proof (induction step cnt h rule: locator_heights.induct)
  case (1 step cnt h)
  have ne: "locator_heights s' c' h' \<noteq> []" for s' c' h' by (subst locator_heights.simps) simp
  show ?case using 1 ne by (subst locator_heights.simps) auto
qed

lemma locator_doubling:
  "0 < step \<Longrightarrow> 10 \<le> cnt \<Longrightarrow> h \<le> step * (2 ^ k - 1) \<Longrightarrow> length (locator_heights step cnt h) \<le> Suc k"
proof (induction k arbitrary: step cnt h)
  case 0
  then show ?case by (subst locator_heights.simps) simp
next
  case (Suc k)
  have "h - step \<le> (step * 2) * (2 ^ k - 1)"
    using Suc.prems(3) by (simp add: algebra_simps diff_mult_distrib2)
  then have "length (locator_heights (step * 2) (Suc cnt) (h - step)) \<le> Suc k"
    using Suc.IH[of "step * 2" "Suc cnt" "h - step"] Suc.prems(1,2) by simp
  then show ?case using Suc.prems(2) by (subst locator_heights.simps) simp
qed

lemma locator_heights_length:
  "cnt \<le> 10 \<Longrightarrow> h < 2 ^ k \<Longrightarrow> length (locator_heights 1 cnt h) \<le> (10 - cnt) + Suc k"
proof (induction "10 - cnt" arbitrary: cnt h)
  case 0
  then show ?case using locator_doubling[of 1 cnt h k] by simp
next
  case (Suc d)
  have "length (locator_heights 1 (Suc cnt) (h - 1)) \<le> (10 - Suc cnt) + Suc k"
    using Suc.hyps(1)[of "Suc cnt" "h - 1"] Suc.hyps(2) Suc.prems by simp
  moreover have "cnt < 10" "Suc (9 + k - cnt) = 10 + k - cnt" using Suc.hyps(2) by simp_all
  ultimately show ?case by (subst locator_heights.simps) simp
qed

subsection \<open>Properties\<close>

text \<open>C5: On a well-formed tree \<^verbatim>\<open>SetTip\<close> returns and turns any consistent chain, by rewriting only the
  entries that differ, into the chain of the new tip: the entry at each height is the ancestor of
  the tip at that height, and the tip is the last one.\<close>
theorem SetTip_correct:
  assumes "tree_wf st" and "chain_ok st c" and "st a = Some b"
  shows "\<exists>c'. SetTip st (Some a) c = Some (Inr c') \<and> chain_ok st c' \<and> chain_Tip c' = Some a \<and>
     length c' = height b + 1 \<and> (\<forall>i \<le> height b. chain_GetBlockIndex c' i = up st (height b - i) a)"
proof -
  obtain c' where c': "SetTip st (Some a) c = Some (Inr c')" "chain_of st c' a"
    using SetTip_chain_of[OF assms] by blast
  then show ?thesis using assms(3) chain_of_Tip[OF c'(2)]
    by (auto simp: chain_ok_def chain_of_def chain_GetBlockIndex_def)
qed

lemma SetTip_correct_witness:
  "\<exists>c'. SetTip two_blocks (Some 1) [] = Some (Inr c') \<and> chain_Tip c' = Some 1"
  using SetTip_correct[OF two_blocks_wf, of "[]" 1]
  by (fastforce simp: chain_ok_def two_blocks_def)

text \<open>C31: \<^verbatim>\<open>FindFork\<close> returns the first of the entry and its ancestors that is in the chain, and null
  exactly when none is, also when the entry is higher than the chain and for the empty chain.\<close>
theorem FindFork_correct:
  assumes "tree_wf st" and "st a = Some b" and "height b < 2 ^ 32 - 1" and "length c \<le> 2 ^ 32"
  shows "FindFork st c (Some a) = Some (Inr (List.find (in_chain st c) (ancestors st a (height b))))"
proof (cases "height b > chain_Height c")
  case False
  then show ?thesis using findfork_loop_find[OF assms(1,2) refl, of c] assms(2) by (simp add: FindFork_def deref_def)
next
  case True
  then have c: "c \<noteq> []" using assms(3) by (auto simp: chain_Height_def)
  then have H: "chain_Height c = length c - 1" using assms(4) by (simp add: chain_Height_def)
  let ?H = "length c - 1"
  obtain q iq where q: "up st (height b - ?H) a = Some q" "st q = Some iq" "height iq = height b - (height b - ?H)"
    using up_exists[OF assms(1,2), of "height b - ?H"] by auto
  have hq: "height iq = ?H" using q(3) True H by simp
  have anc: "GetAncestor st a ?H = Inr (Some q)" using GetAncestor_up[OF assms(1,2)] q(1) True H by simp
  have "FindFork st c (Some a) = findfork_loop st c (Some q)"
    using True assms(2) anc H by (simp add: FindFork_def deref_def)
  also have "\<dots> = Some (Inr (List.find (in_chain st c) (ancestors st q ?H)))"
    by (rule findfork_loop_find[OF assms(1) q(2) hq])
  also have "List.find (in_chain st c) (ancestors st q ?H) = List.find (in_chain st c) (ancestors st a (height b))"
    using find_skip_high[OF assms(1,2) q(1)] True H c by simp
  finally show ?thesis .
qed

lemma FindFork_correct_witness:
  "FindFork two_blocks [Some 0] (Some 1) = Some (Inr (List.find (in_chain two_blocks [Some 0]) (ancestors two_blocks 1 1)))"
  using FindFork_correct[OF two_blocks_wf, of 1 _ "[Some 0]"] by (simp add: two_blocks_def bindex_new_def)

text \<open>\<^verbatim>\<open>GetLocator\<close> returns for every entry of a well-formed tree, in the chain or not: the hashes of
  its ancestors at single steps ten times and at doubling steps after that, the root's last; for a
  chain below height \<open>2 ^ 21\<close> there are at most \<^verbatim>\<open>kMaxBlockLoactorSize\<close> of them.\<close>
theorem GetLocator_correct:
  assumes "tree_wf st" and "chain_ok st c" and "st a = Some b"
  shows "\<exists>hs. GetLocator st c (Some a) = Some (Inr (map (hash_at st a) hs)) \<and>
     hs = locator_heights 1 0 (height b) \<and> last hs = 0 \<and>
     (height b < 2 ^ 21 \<longrightarrow> length hs \<le> kMaxBlockLoactorSize)"
proof -
  have "up st (height b - height b) a = Some a" using assms(3) by simp
  then have "GetLocator st c (Some a) = Some (Inr (map (hash_at st a) (locator_heights 1 0 (height b))))"
    using locator_loop_heights[OF assms(1,3,2), of "height b" 1 a "[]"] by (simp add: GetLocator_def)
  then show ?thesis
    using locator_heights_last[of 1 0 "height b"] locator_heights_length[of 0 "height b" 21]
    by (simp add: kMaxBlockLoactorSize_def)
qed

lemma GetLocator_correct_witness:
  "\<exists>hs. GetLocator two_blocks [Some 0] (Some 1) = Some (Inr (map (hash_at two_blocks 1) hs)) \<and>
     last hs = 0 \<and> length hs \<le> kMaxBlockLoactorSize"
proof -
  have "chain_ok two_blocks [Some 0]"
    by (auto simp: chain_ok_def chain_of_def two_blocks_def bindex_new_def intro!: exI[of _ 0])
  from GetLocator_correct[OF two_blocks_wf this, of 1] show ?thesis
    by (fastforce simp: two_blocks_def bindex_new_def)
qed

end
