(* ===== verification/Lock_Order.thy ===== *)
theory Lock_Order
  imports Prelude
begin

text \<open>
  Locks, \<^verbatim>\<open>src/utility/include/sync.h\<close> and \<^verbatim>\<open>src/utility/src/sync.cpp\<close>, compiled with \<^verbatim>\<open>CHECK_LOCKORDER\<close> as the
  build does unless told otherwise: every \<^verbatim>\<open>LOCK\<close> records in which order the thread took its locks, and
  aborts when another order was seen before.  A lock is its address, a thread a number.  The places
  in the source kept for the message of the abort are left out.  Locks are scoped, so a thread
  releases them in the reverse order.
\<close>

subsection \<open>The detector\<close>

record lock_data =
  lock_orders :: "(nat \<times> nat) list"
  invlock_orders :: "(nat \<times> nat) list"

fun push_loop :: "nat \<Rightarrow> nat list \<Rightarrow> lock_data \<Rightarrow> lock_data res" where
  "push_loop c [] d = Inr d"
| "push_loop c (a # stack) d =
     (if a = c then Inr d
      else
        let d1 = d\<lparr>lock_orders := List.insert (a, c) (lock_orders d), invlock_orders := List.insert (c, a) (invlock_orders d)\<rparr> in
        if (c, a) \<in> set (lock_orders d1) then Inl Assertion else push_loop c stack d1)"

definition PushLock :: "nat \<Rightarrow> nat list \<Rightarrow> lock_data \<Rightarrow> (nat list \<times> lock_data) res" where
  "PushLock c stack d =
     (let stack1 = stack @ [c] in res_bind (push_loop c stack1 d) (\<lambda>d1. Inr (stack1, d1)))"

definition PopLock :: "nat list \<Rightarrow> nat list res" where
  "PopLock stack = (if stack = [] then Inl Undefined else Inr (butlast stack))"

text \<open>Both loops use the iterator after they erased its element, so the first round is undefined.\<close>

definition DeleteLock :: "bool \<Rightarrow> nat \<Rightarrow> lock_data \<Rightarrow> lock_data res" where
  "DeleteLock available cs d =
     (if \<not> available then Inr d
      else if list_ex (\<lambda>p. fst p = cs) (lock_orders d) then Inl Undefined
      else if list_ex (\<lambda>p. fst p = cs) (invlock_orders d) then Inl Undefined
      else Inr d)"

text \<open>The locks of one thread with nobody else about: \<open>LOCK\<close> and the end of its block, and the destructor of a
  \<^verbatim>\<open>CriticalSection\<close>.  \<open>tl_checked\<close> is \<^verbatim>\<open>CHECK_LOCKORDER\<close>; without it, the detector is empty functions.\<close>

record thread_locks =
  tl_checked :: bool
  tl_stack :: "nat list"
  tl_data :: lock_data

definition thread_lock :: "nat \<Rightarrow> thread_locks \<Rightarrow> thread_locks res" where
  "thread_lock c lk =
     (if \<not> tl_checked lk then Inr lk
      else res_bind (PushLock c (tl_stack lk) (tl_data lk)) (\<lambda>(stack, d). Inr (lk\<lparr>tl_stack := stack, tl_data := d\<rparr>)))"

definition thread_unlock :: "thread_locks \<Rightarrow> thread_locks res" where
  "thread_unlock lk =
     (if \<not> tl_checked lk then Inr lk else res_bind (PopLock (tl_stack lk)) (\<lambda>stack. Inr (lk\<lparr>tl_stack := stack\<rparr>)))"

definition CriticalSection_destroy :: "nat \<Rightarrow> thread_locks \<Rightarrow> thread_locks res" where
  "CriticalSection_destroy c lk =
     (if \<not> tl_checked lk then Inr lk else res_bind (DeleteLock True c (tl_data lk)) (\<lambda>d. Inr (lk\<lparr>tl_data := d\<rparr>)))"

lemma unchecked_locks [simp]:
  "\<not> tl_checked lk \<Longrightarrow> thread_lock c lk = Inr lk" "\<not> tl_checked lk \<Longrightarrow> thread_unlock lk = Inr lk"
  "\<not> tl_checked lk \<Longrightarrow> CriticalSection_destroy c lk = Inr lk"
  by (simp_all add: thread_lock_def thread_unlock_def CriticalSection_destroy_def)

subsection \<open>Locks and threads\<close>

text \<open>\<open>s_wait\<close> is the lock a thread is blocked on, \<open>s_owner\<close> who holds a recursive mutex and how many times.\<close>

record sync_state =
  s_stack :: "nat \<Rightarrow> nat list"
  s_wait :: "nat \<Rightarrow> nat option"
  s_owner :: "nat \<Rightarrow> (nat \<times> nat) option"
  s_data :: lock_data

definition EnterCritical :: "nat \<Rightarrow> nat \<Rightarrow> sync_state \<Rightarrow> sync_state res" where
  "EnterCritical t c s =
     res_bind (PushLock c (s_stack s t) (s_data s)) (\<lambda>(stack, d).
       Inr (s\<lparr>s_stack := (s_stack s)(t := stack), s_data := d\<rparr>))"

definition LeaveCritical :: "nat \<Rightarrow> sync_state \<Rightarrow> sync_state res" where
  "LeaveCritical t s =
     res_bind (PopLock (s_stack s t)) (\<lambda>stack. Inr (s\<lparr>s_stack := (s_stack s)(t := stack)\<rparr>))"

text \<open>\<^verbatim>\<open>std::recursive_mutex\<close>: \<^verbatim>\<open>try_lock\<close>, and \<^verbatim>\<open>unlock\<close> by the owner.\<close>

definition mutex_try_lock :: "nat \<Rightarrow> nat \<Rightarrow> sync_state \<Rightarrow> bool \<times> sync_state" where
  "mutex_try_lock t c s =
     (case s_owner s c of None \<Rightarrow> (True, s\<lparr>s_owner := (s_owner s)(c \<mapsto> (t, 1))\<rparr>)
      | Some (t', n) \<Rightarrow>
          if t' = t then (True, s\<lparr>s_owner := (s_owner s)(c \<mapsto> (t, Suc n))\<rparr>) else (False, s))"

definition mutex_unlock :: "nat \<Rightarrow> nat \<Rightarrow> sync_state \<Rightarrow> sync_state res" where
  "mutex_unlock t c s =
     (case s_owner s c of None \<Rightarrow> Inl Undefined
      | Some (t', n) \<Rightarrow>
          if t' \<noteq> t then Inl Undefined
          else Inr (s\<lparr>s_owner := (s_owner s)(c := (if n \<le> 1 then None else Some (t, n - 1)))\<rparr>))"

text \<open>\<^verbatim>\<open>MutexLock\<close>: \<^verbatim>\<open>Enter\<close> up to the call of \<^verbatim>\<open>lock\<close>, which blocks; \<^verbatim>\<open>TryEnter\<close>; the destructor.\<close>

definition Enter :: "nat \<Rightarrow> nat \<Rightarrow> sync_state \<Rightarrow> sync_state res" where
  "Enter t c s = res_bind (EnterCritical t c s) (\<lambda>s1. Inr (s1\<lparr>s_wait := (s_wait s1)(t \<mapsto> c)\<rparr>))"

definition TryEnter :: "nat \<Rightarrow> nat \<Rightarrow> sync_state \<Rightarrow> (bool \<times> sync_state) res" where
  "TryEnter t c s =
     res_bind (EnterCritical t c s) (\<lambda>s1.
       let (owns, s2) = mutex_try_lock t c s1 in
       if \<not> owns then res_bind (LeaveCritical t s2) (\<lambda>s3. Inr (owns, s3)) else Inr (owns, s2))"

definition MutexLock_destroy :: "nat \<Rightarrow> nat \<Rightarrow> sync_state \<Rightarrow> sync_state res" where
  "MutexLock_destroy t c s = res_bind (LeaveCritical t s) (mutex_unlock t c)"

inductive sync_step :: "sync_state \<Rightarrow> sync_state \<Rightarrow> bool" where
  enter: "s_wait s t = None \<Longrightarrow> Enter t c s = Inr s' \<Longrightarrow> sync_step s s'"
| acquire: "s_wait s t = Some c \<Longrightarrow> mutex_try_lock t c s = (True, s') \<Longrightarrow>
    sync_step s (s'\<lparr>s_wait := (s_wait s')(t := None)\<rparr>)"
| try_enter: "s_wait s t = None \<Longrightarrow> TryEnter t c s = Inr (owns, s') \<Longrightarrow> sync_step s s'"
| leave: "s_wait s t = None \<Longrightarrow> s_stack s t \<noteq> [] \<Longrightarrow> MutexLock_destroy t (last (s_stack s t)) s = Inr s' \<Longrightarrow> sync_step s s'"
| delete: "DeleteLock available c (s_data s) = Inr d \<Longrightarrow> sync_step s (s\<lparr>s_data := d\<rparr>)"

definition sync_init :: sync_state where
  "sync_init = \<lparr>s_stack = (\<lambda>_. []), s_wait = (\<lambda>_. None), s_owner = (\<lambda>_. None),
     s_data = \<lparr>lock_orders = [], invlock_orders = []\<rparr>\<rparr>"

inductive sync_reachable :: "sync_state \<Rightarrow> bool" where
  init: "sync_reachable sync_init"
| step: "sync_reachable s \<Longrightarrow> sync_step s s' \<Longrightarrow> sync_reachable s'"

subsection \<open>What the detector knows\<close>

definition one_way :: "lock_data \<Rightarrow> bool" where
  [inv_defs]: "one_way d = (\<forall>a c. (a, c) \<in> set (lock_orders d) \<longrightarrow> (c, a) \<notin> set (lock_orders d))"

lemma push_loop_orders:
  "push_loop c stack d = Inr d' \<Longrightarrow> set (lock_orders d') = set (lock_orders d) \<union> (\<lambda>a. (a, c)) ` set (takeWhile (\<lambda>a. a \<noteq> c) stack)"
  by (induction stack arbitrary: d) (auto simp: Let_def split: if_splits)

lemma push_loop_one_way: "push_loop c stack d = Inr d' \<Longrightarrow> one_way d \<Longrightarrow> one_way d'"
proof (induction stack arbitrary: d)
  case (Cons a stack)
  show ?case
  proof (cases "a = c")
    case False
    let ?d = "d\<lparr>lock_orders := List.insert (a, c) (lock_orders d), invlock_orders := List.insert (c, a) (invlock_orders d)\<rparr>"
    have no: "(c, a) \<notin> set (lock_orders ?d)" "push_loop c stack ?d = Inr d'"
      using Cons.prems(1) False by (auto simp: Let_def split: if_splits)
    have "one_way ?d" using no(1) Cons.prems(2) False by (auto simp: one_way_def)
    then show ?thesis using Cons.IH no(2) by blast
  qed (use Cons.prems in simp)
qed simp

text \<open>In a stack, \<open>c\<close> was first taken while \<open>a\<close> was held.\<close>

definition before :: "nat \<Rightarrow> nat \<Rightarrow> nat list \<Rightarrow> bool" where
  "before a c stack = (\<exists>xs ys. stack = xs @ c # ys \<and> c \<notin> set xs \<and> a \<in> set xs)"

lemma before_snoc: "before a c (stack @ [b]) = (before a c stack \<or> (c = b \<and> b \<notin> set stack \<and> a \<in> set stack))"
proof
  assume "before a c (stack @ [b])"
  then obtain xs ys where s: "stack @ [b] = xs @ c # ys" "c \<notin> set xs" "a \<in> set xs" by (auto simp: before_def)
  show "before a c stack \<or> (c = b \<and> b \<notin> set stack \<and> a \<in> set stack)"
  proof (cases ys rule: rev_cases)
    case Nil
    then show ?thesis using s by auto
  next
    case (snoc zs z)
    then have "stack = xs @ c # zs" using s(1) by (metis append.assoc append_Cons append1_eq_conv)
    then show ?thesis using s by (auto simp: before_def)
  qed
next
  assume "before a c stack \<or> (c = b \<and> b \<notin> set stack \<and> a \<in> set stack)"
  then show "before a c (stack @ [b])"
    unfolding before_def by (metis append.assoc append_Cons)
qed

definition held :: "nat \<Rightarrow> sync_state \<Rightarrow> nat list" where
  "held t s = (if s_wait s t = None then s_stack s t else butlast (s_stack s t))"

definition holds :: "nat \<Rightarrow> nat \<Rightarrow> sync_state \<Rightarrow> nat" where
  "holds t c s = (case s_owner s c of None \<Rightarrow> 0 | Some (t', n) \<Rightarrow> if t' = t then n else 0)"

definition sync_inv :: "sync_state \<Rightarrow> bool" where
  [inv_defs]: "sync_inv s =
     (one_way (s_data s) \<and> (\<forall>t a c. before a c (s_stack s t) \<longrightarrow> (a, c) \<in> set (lock_orders (s_data s))) \<and>
      (\<forall>t c. count_list (held t s) c = holds t c s) \<and> (\<forall>c t n. s_owner s c = Some (t, n) \<longrightarrow> 0 < n) \<and>
      (\<forall>t c. s_wait s t = Some c \<longrightarrow> s_stack s t \<noteq> [] \<and> last (s_stack s t) = c))"

lemma sync_inv_init: "sync_inv sync_init"
  by (simp add: sync_inv_def sync_init_def one_way_def before_def held_def holds_def)

subsection \<open>Every step keeps it\<close>

definition orders_ok :: "sync_state \<Rightarrow> bool" where
  "orders_ok s =
     (one_way (s_data s) \<and> (\<forall>t a c. before a c (s_stack s t) \<longrightarrow> (a, c) \<in> set (lock_orders (s_data s))))"

lemma EnterCritical_ok:
  assumes "EnterCritical t c s = Inr s1" "orders_ok s"
  shows "s_stack s1 = (s_stack s)(t := s_stack s t @ [c])" "s_wait s1 = s_wait s" "s_owner s1 = s_owner s" "orders_ok s1"
proof -
  obtain d where d: "push_loop c (s_stack s t @ [c]) (s_data s) = Inr d"
      and s1: "s1 = s\<lparr>s_stack := (s_stack s)(t := s_stack s t @ [c]), s_data := d\<rparr>"
    using assms(1) by (auto simp: EnterCritical_def PushLock_def res_bind_eq_Inr Let_def)
  show "s_stack s1 = (s_stack s)(t := s_stack s t @ [c])" "s_wait s1 = s_wait s" "s_owner s1 = s_owner s"
    by (simp_all add: s1)
  have ord: "set (lock_orders d) = set (lock_orders (s_data s)) \<union>
      (\<lambda>a. (a, c)) ` set (takeWhile (\<lambda>a. a \<noteq> c) (s_stack s t @ [c]))" using d by (rule push_loop_orders)
  have "(a, c) \<in> set (lock_orders d)" if "c \<notin> set (s_stack s t)" "a \<in> set (s_stack s t)" for a
  proof -
    have "takeWhile (\<lambda>a. a \<noteq> c) (s_stack s t @ [c]) = s_stack s t" using that(1) by (subst takeWhile_append2) auto
    then show ?thesis using that(2) unfolding ord by auto
  qed
  moreover have "set (lock_orders (s_data s)) \<subseteq> set (lock_orders d)" using ord by auto
  ultimately show "orders_ok s1"
    using assms(2) push_loop_one_way[OF d] unfolding orders_ok_def s1 by (auto simp: before_snoc)
qed

lemma orders_ok_butlast: "orders_ok s \<Longrightarrow> orders_ok (s\<lparr>s_stack := (s_stack s)(t := butlast (s_stack s t))\<rparr>)"
proof -
  assume ok: "orders_ok s"
  have "before a c (butlast (s_stack s t)) \<Longrightarrow> before a c (s_stack s t)" for a c
    using before_snoc[of a c "butlast (s_stack s t)" "last (s_stack s t)"] by (cases "s_stack s t = []") simp_all
  then show ?thesis using ok unfolding orders_ok_def by simp blast
qed

lemma sync_inv_orders: "sync_inv s \<Longrightarrow> orders_ok s"
  by (simp add: sync_inv_def orders_ok_def)

definition mutexes_ok :: "sync_state \<Rightarrow> bool" where
  "mutexes_ok s = ((\<forall>t c. count_list (held t s) c = holds t c s) \<and> (\<forall>c t n. s_owner s c = Some (t, n) \<longrightarrow> 0 < n))"

lemma sync_invI:
  "orders_ok s \<Longrightarrow> mutexes_ok s \<Longrightarrow> (\<And>t c. s_wait s t = Some c \<Longrightarrow> s_stack s t \<noteq> [] \<and> last (s_stack s t) = c) \<Longrightarrow> sync_inv s"
  by (simp add: sync_inv_def orders_ok_def mutexes_ok_def)

lemma sync_invD:
  "sync_inv s \<Longrightarrow> mutexes_ok s" "sync_inv s \<Longrightarrow> s_wait s t = Some c \<Longrightarrow> s_stack s t \<noteq> [] \<and> last (s_stack s t) = c"
  by (simp_all add: sync_inv_def mutexes_ok_def)

lemma sync_inv_Enter:
  assumes inv: "sync_inv s" and t: "s_wait s t = None" "Enter t c s = Inr s'"
  shows "sync_inv s'"
proof -
  obtain s1 where s1: "EnterCritical t c s = Inr s1" "s' = s1\<lparr>s_wait := (s_wait s1)(t \<mapsto> c)\<rparr>"
    using t(2) by (auto simp: Enter_def res_bind_eq_Inr)
  note e = EnterCritical_ok[OF s1(1) sync_inv_orders[OF inv]]
  have "held t' s' = held t' s" for t' using t(1) by (auto simp: held_def s1(2) e)
  moreover have "holds t' c' s' = holds t' c' s" for t' c' by (simp add: holds_def s1(2) e)
  ultimately have "mutexes_ok s'" using sync_invD(1)[OF inv] by (simp add: mutexes_ok_def s1(2) e)
  moreover have "orders_ok s'" using e(4) by (simp add: orders_ok_def s1(2))
  ultimately show ?thesis using sync_invD(2)[OF inv] by (intro sync_invI) (auto simp: s1(2) e split: if_splits)
qed

lemma holds_try_lock:
  assumes "mutex_try_lock t c s = (True, s')"
  shows "holds t' c' s' = holds t' c' s + (if t' = t \<and> c' = c then 1 else 0)"
    "s_stack s' = s_stack s" "s_wait s' = s_wait s" "s_data s' = s_data s"
    "\<forall>c t n. s_owner s c = Some (t, n) \<longrightarrow> 0 < n \<Longrightarrow> \<forall>c t n. s_owner s' c = Some (t, n) \<longrightarrow> 0 < n"
  using assms by (auto simp: mutex_try_lock_def holds_def split: option.splits prod.splits if_splits)

lemma mutex_try_lock_False: "mutex_try_lock t c s = (False, s') \<Longrightarrow> s' = s"
  by (auto simp: mutex_try_lock_def split: option.splits prod.splits if_splits)

lemma sync_inv_acquire:
  assumes inv: "sync_inv s" and t: "s_wait s t = Some c" "mutex_try_lock t c s = (True, s')"
  shows "sync_inv (s'\<lparr>s_wait := (s_wait s')(t := None)\<rparr>)"
proof -
  let ?s = "s'\<lparr>s_wait := (s_wait s')(t := None)\<rparr>"
  note l = holds_try_lock[OF t(2)]
  have st: "s_stack s t = butlast (s_stack s t) @ [c]"
    using sync_invD(2)[OF inv t(1)] by (metis append_butlast_last_id)
  have "count_list (held t' ?s) c' = holds t' c' ?s" for t' c'
  proof -
    have "count_list (held t' s) c' = holds t' c' s" using sync_invD(1)[OF inv] by (simp add: mutexes_ok_def)
    moreover have "held t ?s = held t s @ [c]" using st t(1) by (simp add: held_def l)
    moreover have "t' \<noteq> t \<Longrightarrow> held t' ?s = held t' s" by (simp add: held_def l)
    moreover have "holds t' c' ?s = holds t' c' s'" by (simp add: holds_def)
    ultimately show ?thesis using l(1)[of t' c'] by (cases "t' = t") auto
  qed
  then have "mutexes_ok ?s" using l(5) sync_invD(1)[OF inv] by (simp add: mutexes_ok_def)
  moreover have "orders_ok ?s" using sync_inv_orders[OF inv] by (simp add: orders_ok_def l)
  ultimately show ?thesis using sync_invD(2)[OF inv] by (intro sync_invI) (auto simp: l split: if_splits)
qed

lemma butlast_snoc_upd: "(s_stack s)(t := s_stack s t @ [c]) = st \<Longrightarrow> butlast (st t) = s_stack s t"
  by auto

lemma sync_inv_Try:
  assumes inv: "sync_inv s" and t: "s_wait s t = None" "TryEnter t c s = Inr (owns, s')"
  shows "sync_inv s'"
proof -
  obtain s1 where s1: "EnterCritical t c s = Inr s1" using t(2) by (auto simp: TryEnter_def res_bind_eq_Inr)
  note e = EnterCritical_ok[OF s1 sync_inv_orders[OF inv]]
  show ?thesis
  proof (cases "fst (mutex_try_lock t c s1)")
    case True
    then obtain s2 where l0: "mutex_try_lock t c s1 = (True, s2)" by (cases "mutex_try_lock t c s1") auto
    then have s': "s' = s2" using t(2) s1 by (simp add: TryEnter_def)
    note l = holds_try_lock[OF l0]
    have "count_list (held t' s2) c' = holds t' c' s2" for t' c'
    proof -
      have "count_list (held t' s) c' = holds t' c' s" using sync_invD(1)[OF inv] by (simp add: mutexes_ok_def)
      moreover have "held t s2 = held t s @ [c]" using t(1) by (simp add: held_def l e)
      moreover have "t' \<noteq> t \<Longrightarrow> held t' s2 = held t' s" by (simp add: held_def l e)
      moreover have "holds t' c' s1 = holds t' c' s" by (simp add: holds_def e)
      ultimately show ?thesis using l(1)[of t' c'] by (cases "t' = t") auto
    qed
    then have "mutexes_ok s2" using l(5) sync_invD(1)[OF inv] by (simp add: mutexes_ok_def e)
    moreover have "orders_ok s2" using e(4) by (simp add: orders_ok_def l)
    ultimately show ?thesis unfolding s' using sync_invD(2)[OF inv] t(1) by (intro sync_invI) (auto simp: l e split: if_splits)
  next
    case False
    then have "mutex_try_lock t c s1 = (False, s1)" using mutex_try_lock_False by (cases "mutex_try_lock t c s1") auto
    then have s': "s' = s1\<lparr>s_stack := (s_stack s1)(t := butlast (s_stack s1 t))\<rparr>"
      using t(2) s1 by (auto simp: TryEnter_def LeaveCritical_def PopLock_def res_bind_eq_Inr split: if_splits)
    have st: "s_stack s' = s_stack s" "s_wait s' = s_wait s" "s_owner s' = s_owner s" by (auto simp: s' e)
    have "held t' s' = held t' s" "holds t' c' s' = holds t' c' s" for t' c' by (simp_all add: held_def holds_def st)
    then have "mutexes_ok s'" using sync_invD(1)[OF inv] by (simp add: mutexes_ok_def st)
    moreover have "orders_ok s'" unfolding s' using e(4) by (rule orders_ok_butlast)
    ultimately show ?thesis using sync_invD(2)[OF inv] by (intro sync_invI) (auto simp: st)
  qed
qed

lemma sync_inv_leave:
  assumes inv: "sync_inv s" and t: "s_wait s t = None" "s_stack s t \<noteq> []" "MutexLock_destroy t (last (s_stack s t)) s = Inr s'"
  shows "sync_inv s'"
proof -
  let ?c = "last (s_stack s t)" and ?s = "s\<lparr>s_stack := (s_stack s)(t := butlast (s_stack s t))\<rparr>"
  obtain n where n: "s_owner s ?c = Some (t, n)" "s' = ?s\<lparr>s_owner := (s_owner s)(?c := (if n \<le> 1 then None else Some (t, n - 1)))\<rparr>"
    using t(2,3) by (auto simp: MutexLock_destroy_def LeaveCritical_def PopLock_def mutex_unlock_def res_bind_eq_Inr
        split: option.splits if_splits)
  have pos: "0 < n" using sync_invD(1)[OF inv] n(1) by (simp add: mutexes_ok_def)
  have st: "s_stack s t = butlast (s_stack s t) @ [?c]" using t(2) by simp
  have "count_list (held t' s') c' = holds t' c' s'" for t' c'
  proof -
    have h: "count_list (held t' s) c' = holds t' c' s" using sync_invD(1)[OF inv] by (simp add: mutexes_ok_def)
    have "held t s = held t s' @ [?c]" using st t(1) by (simp add: held_def n(2))
    moreover have "t' \<noteq> t \<Longrightarrow> held t' s' = held t' s" by (simp add: held_def n(2))
    moreover have "holds t' c' s = holds t' c' s' + (if t' = t \<and> c' = ?c then 1 else 0)"
      using pos by (auto simp: holds_def n)
    ultimately show ?thesis using h by (cases "t' = t") (auto split: if_splits)
  qed
  moreover have "\<forall>c t n. s_owner s' c = Some (t, n) \<longrightarrow> 0 < n" using sync_invD(1)[OF inv] by (auto simp: n(2) mutexes_ok_def)
  ultimately have "mutexes_ok s'" by (simp add: mutexes_ok_def)
  moreover have "orders_ok s'" using orders_ok_butlast[OF sync_inv_orders[OF inv], of t] by (simp add: orders_ok_def n(2))
  ultimately show ?thesis using sync_invD(2)[OF inv] t(1) by (intro sync_invI) (auto simp: n(2) split: if_splits)
qed

lemma sync_inv_step: "sync_step s s' \<Longrightarrow> sync_inv s \<Longrightarrow> sync_inv s'"
proof (induction rule: sync_step.induct)
  case (delete available c s d)
  then have "d = s_data s" by (simp add: DeleteLock_def split: if_splits)
  then show ?case using delete by simp
qed (auto intro: sync_inv_Enter sync_inv_acquire sync_inv_Try sync_inv_leave)

lemma sync_reachable_inv: "sync_reachable s \<Longrightarrow> sync_inv s"
  by (induction rule: sync_reachable.induct) (auto intro: sync_inv_init sync_inv_step)

subsection \<open>Deadlocks\<close>

text \<open>Two threads, each blocked on a lock the other one holds.\<close>

definition two_deadlock :: "sync_state \<Rightarrow> bool" where
  "two_deadlock s =
     (\<exists>t1 t2 a b n m. t1 \<noteq> t2 \<and> s_wait s t1 = Some a \<and> s_owner s a = Some (t2, n) \<and>
        s_wait s t2 = Some b \<and> s_owner s b = Some (t1, m))"

lemma blocked_before:
  assumes inv: "sync_inv s" and w: "s_wait s t1 = Some a" "s_owner s a = Some (t2, n)" "s_owner s b = Some (t1, m)" "t1 \<noteq> t2"
  shows "(b, a) \<in> set (lock_orders (s_data s))"
proof -
  have count: "count_list (held t1 s) c = holds t1 c s" for c using inv by (simp add: sync_inv_def)
  have m: "0 < m" using inv w(3) by (simp add: sync_inv_def)
  have "count_list (held t1 s) a = 0" using count[of a] w(2,4) by (simp add: holds_def)
  then have a: "a \<notin> set (held t1 s)" by (simp add: count_list_0_iff)
  have "count_list (held t1 s) b \<noteq> 0" using count[of b] w(3) m by (simp add: holds_def)
  then have b: "b \<in> set (held t1 s)" using count_list_0_iff by metis
  have "s_stack s t1 \<noteq> []" "last (s_stack s t1) = a" using sync_invD(2)[OF inv w(1)] by auto
  then have "s_stack s t1 = held t1 s @ [a]" using w(1) by (simp add: held_def) (metis append_butlast_last_id)
  then have "before b a (s_stack s t1)" using a b by (auto simp: before_def)
  then show ?thesis using inv by (simp add: sync_inv_def)
qed

text \<open>C14: As long as the detector has not aborted the program, no two threads ever block each other: in every
  reachable state, with any number of threads taking, trying and releasing recursive locks in any
  interleaving, there are no two threads of which each waits for a lock the other one holds.\<close>
theorem no_two_thread_deadlock: "sync_reachable s \<Longrightarrow> \<not> two_deadlock s"
proof
  assume "sync_reachable s" "two_deadlock s"
  then obtain t1 t2 a b n m where d: "t1 \<noteq> t2" "s_wait s t1 = Some a" "s_owner s a = Some (t2, n)"
      "s_wait s t2 = Some b" "s_owner s b = Some (t1, m)" and inv: "sync_inv s"
    using sync_reachable_inv by (auto simp: two_deadlock_def)
  have "(b, a) \<in> set (lock_orders (s_data s))" using blocked_before[OF inv d(2,3,5,1)] .
  moreover have "(a, b) \<in> set (lock_orders (s_data s))" using blocked_before[OF inv d(4,5,3)] d(1) by simp
  moreover have "one_way (s_data s)" using inv by (simp add: sync_inv_def)
  ultimately show False by (auto simp: one_way_def)
qed

definition run_enter :: "nat \<Rightarrow> nat \<Rightarrow> sync_state \<Rightarrow> sync_state" where
  "run_enter t c s = (case Enter t c s of Inr s' \<Rightarrow> s' | Inl _ \<Rightarrow> s)"

definition run_acquire :: "nat \<Rightarrow> nat \<Rightarrow> sync_state \<Rightarrow> sync_state" where
  "run_acquire t c s = (let s' = snd (mutex_try_lock t c s) in s'\<lparr>s_wait := (s_wait s')(t := None)\<rparr>)"

definition one_each :: sync_state where
  "one_each = run_acquire 3 12 (run_enter 3 12 (run_acquire 2 11 (run_enter 2 11 (run_acquire 1 10 (run_enter 1 10 sync_init)))))"

definition cycle :: sync_state where
  "cycle = run_enter 3 10 (run_enter 2 12 (run_enter 1 11 one_each))"

lemma reach_enter: "sync_reachable s \<Longrightarrow> s_wait s t = None \<Longrightarrow> \<not> isl (Enter t c s) \<Longrightarrow> sync_reachable (run_enter t c s)"
  by (cases "Enter t c s") (auto simp: run_enter_def intro: sync_reachable.step enter)

lemma reach_acquire:
  assumes "sync_reachable s" "s_wait s t = Some c" "fst (mutex_try_lock t c s)"
  shows "sync_reachable (run_acquire t c s)"
proof -
  have "mutex_try_lock t c s = (True, snd (mutex_try_lock t c s))" using assms(3) by (simp add: prod_eq_iff)
  then show ?thesis unfolding run_acquire_def Let_def using assms by (blast intro: sync_reachable.step acquire)
qed

lemma one_each_reachable: "sync_reachable one_each"
  unfolding one_each_def by (intro reach_acquire reach_enter sync_reachable.init; code_simp)

lemma cycle_reachable: "sync_reachable cycle"
  unfolding cycle_def by (intro reach_enter one_each_reachable; code_simp)

lemma no_two_thread_deadlock_witness: "\<not> two_deadlock cycle"
  using no_two_thread_deadlock[OF cycle_reachable] .

text \<open>The detector compares pairs only: three threads can block each other for good, each waiting for the lock
  the next one holds, without an abort.\<close>
theorem three_thread_deadlock_unnoticed:
  "\<exists>s. sync_reachable s \<and> s_wait s 1 = Some 11 \<and> s_owner s 11 = Some (2, 1) \<and>
     s_wait s 2 = Some 12 \<and> s_owner s 12 = Some (3, 1) \<and> s_wait s 3 = Some 10 \<and> s_owner s 10 = Some (1, 1)"
proof -
  have "s_wait cycle 1 = Some 11 \<and> s_owner cycle 11 = Some (2, 1) \<and> s_wait cycle 2 = Some 12 \<and>
      s_owner cycle 12 = Some (3, 1) \<and> s_wait cycle 3 = Some 10 \<and> s_owner cycle 10 = Some (1, 1)"
    by code_simp
  then show ?thesis using cycle_reachable by blast
qed

text \<open>Destroying a lock that was ever taken together with another one is undefined, so no lock may be both
  local and taken under another one.\<close>

lemma DeleteLock_undefined:
  "a \<noteq> c \<Longrightarrow> a \<in> set stack \<Longrightarrow> c \<notin> set stack \<Longrightarrow> PushLock c stack d = Inr (stack', d') \<Longrightarrow> DeleteLock True a d' = Inl Undefined"
proof -
  assume c: "a \<noteq> c" "a \<in> set stack" "c \<notin> set stack" "PushLock c stack d = Inr (stack', d')"
  then have "push_loop c (stack @ [c]) d = Inr d'" by (auto simp: PushLock_def Let_def res_bind_eq_Inr)
  moreover have "takeWhile (\<lambda>a. a \<noteq> c) (stack @ [c]) = stack" using c(3) by (subst takeWhile_append2) auto
  ultimately have "(a, c) \<in> set (lock_orders d')" using c(2) push_loop_orders[of c "stack @ [c]" d d'] by auto
  then show ?thesis by (force simp: DeleteLock_def list_ex_iff)
qed

lemma inner_lock_undefined:
  assumes "tl_checked lk" "tl_stack lk = [a]" "c \<noteq> a" "(c, a) \<notin> set (lock_orders (tl_data lk))"
  shows "\<exists>lk1 lk2. thread_lock c lk = Inr lk1 \<and> thread_unlock lk1 = Inr lk2 \<and> tl_stack lk2 = [a] \<and>
    CriticalSection_destroy c lk2 = Inl Undefined"
  using assms
  by (auto simp: thread_lock_def PushLock_def Let_def thread_unlock_def PopLock_def CriticalSection_destroy_def DeleteLock_def
      list_ex_iff)

end
