(* ===== verification/Chain_State.thy ===== *)
theory Chain_State
  imports Active_Chain Lock_Order
begin

text \<open>
  \<^verbatim>\<open>chain::ChainState\<close> (\<^verbatim>\<open>src/chain/src/chain_state.cpp\<close>): the block index with its maps and the
  loading of the genesis block.  The state holds the store of entries, the first free address, the
  active chain, the map from hashes to entries, the dirty set, the candidate set, the best header
  and the static counter of sequence ids, the address of the lock \<^verbatim>\<open>cs_chain_state_\<close>, and the locks of the
  thread.  \<open>mem\<close> is the memory under the unset hash of a new entry.
\<close>

record chain_state =
  entries :: store
  free :: addr
  active_chain :: chain
  map_block_index :: "bytes \<Rightarrow> addr option"
  dirty :: "addr set"
  candidates :: "addr set"
  best_header :: "addr option"
  block_sequence_id :: int
  cs_chain_state :: nat
  chain_locks :: thread_locks

definition chain_state_init :: "nat \<Rightarrow> thread_locks \<Rightarrow> chain_state" where
  "chain_state_init cs lk = \<lparr>entries = (\<lambda>_. None), free = 0, active_chain = [], map_block_index = (\<lambda>_. None),
     dirty = {}, candidates = {}, best_header = None, block_sequence_id = 1,
     cs_chain_state = cs, chain_locks = lk\<rparr>"

text \<open>\<open>None\<close> is a call that does not return.\<close>

definition AddToBlockIndex ::
  "(bytes \<Rightarrow> bytes) \<Rightarrow> bytes \<Rightarrow> header \<Rightarrow> chain_state \<Rightarrow> (addr \<times> chain_state) res option" where
  "AddToBlockIndex sha mem h s =
     (let hash = Header_GetHash sha h in
      case map_block_index s hash of
        Some a \<Rightarrow> Some (Inr (a, s))
      | None \<Rightarrow>
          let a = free s;
              blocks1 = (map_block_index s)(hash \<mapsto> a);
              e0 = (bindex_new h mem)\<lparr>sequence_id := 0, block_hash := hash\<rparr>;
              st1 = (entries s)(a \<mapsto> e0);
              linked =
                (case blocks1 (hash_prev_block h) of
                   None \<Rightarrow> Some (Inr e0)
                 | Some p \<Rightarrow>
                     (case st1 p of
                        None \<Rightarrow> Some (Inl Undefined)
                      | Some ip \<Rightarrow>
                          let e1 = e0\<lparr>pprev := Some p\<rparr>;
                              e2 = e1\<lparr>height := height (if p = a then e1 else ip) + 1\<rparr>
                          in BuildSkip (st1(a \<mapsto> e2)) e2))
          in Option.bind linked (\<lambda>r. Some (
               res_bind r (\<lambda>e.
               res_bind (GetBlockProof h) (\<lambda>proof.
               let work_prev = (case pprev e of None \<Rightarrow> 0
                                | Some p \<Rightarrow> (case st1 p of None \<Rightarrow> 0 | Some ip \<Rightarrow> chain_work ip));
                   e' = e\<lparr>chain_work := work_prev + proof\<rparr>
               in res_bind (RaiseValidity kBlockValidTree e') (\<lambda>(_, e'').
                 let better = (case best_header s of None \<Rightarrow> True
                               | Some bh \<Rightarrow> (case st1 bh of None \<Rightarrow> False
                                             | Some ib \<Rightarrow> chain_work ib < chain_work e''))
                 in Inr (a, s\<lparr>entries := (entries s)(a \<mapsto> e''), free := a + 1, map_block_index := blocks1,
                              best_header := (if better then Some a else best_header s),
                              dirty := insert a (dirty s)\<rparr>)))))))"

text \<open>\<open>loc\<close> is the address of the local lock \<^verbatim>\<open>cs_block_sequence_id\<close>, which is destroyed at the end.\<close>

definition ReceivedBlockTransactions :: "nat \<Rightarrow> block \<Rightarrow> addr \<Rightarrow> chain_state \<Rightarrow> (bool \<times> chain_state) res" where
  "ReceivedBlockTransactions loc b a s =
     res_bind (deref (entries s) a) (\<lambda>e.
     let e1 = e\<lparr>tx_num := of_nat (length (transactions b)), chain_tx_num := 0,
                status := status e OR kBlockHaveData\<rparr>
     in res_bind (RaiseValidity kBlockValidTransactions e1) (\<lambda>(_, e2).
        let s1 = s\<lparr>entries := (entries s)(a \<mapsto> e2), dirty := insert a (dirty s)\<rparr>;
            parent = (case pprev e2 of None \<Rightarrow> None | Some p \<Rightarrow> entries s1 p)
        in res_bind
          (if pprev e2 = None \<or> (case parent of None \<Rightarrow> False | Some ip \<Rightarrow> chain_tx_num ip \<noteq> 0) then
             res_bind (thread_lock loc (chain_locks s1)) (\<lambda>lk.
             let e3 = e2\<lparr>chain_tx_num := (case parent of None \<Rightarrow> 0 | Some ip \<Rightarrow> chain_tx_num ip) + tx_num e2,
                         sequence_id := block_sequence_id s1\<rparr>;
                 st3 = (entries s1)(a \<mapsto> e3)
             in res_bind (thread_unlock lk) (\<lambda>lk1.
             let s3 = s1\<lparr>entries := st3, block_sequence_id := block_sequence_id s1 + 1, chain_locks := lk1\<rparr>;
                 cand = (case chain_Tip (active_chain s3) of None \<Rightarrow> True | Some t \<Rightarrow> \<not> work_less st3 a t)
             in Inr (if cand then s3\<lparr>candidates := insert a (candidates s3)\<rparr> else s3)))
           else Inr s1) (\<lambda>s4.
        res_bind (CriticalSection_destroy loc (chain_locks s4)) (\<lambda>lk. Inr (True, s4\<lparr>chain_locks := lk\<rparr>)))))"

definition ConnectTip :: "addr \<Rightarrow> chain_state \<Rightarrow> (bool \<times> chain_state) res option" where
  "ConnectTip a s =
     (case deref (entries s) a of
        Inl e \<Rightarrow> Some (Inl e)
      | Inr e \<Rightarrow>
          if pprev e \<noteq> chain_Tip (active_chain s) then Some (Inl Assertion)
          else Option.bind (SetTip (entries s) (Some a) (active_chain s)) (\<lambda>r.
                 Some (res_bind r (\<lambda>c. Inr (True, s\<lparr>active_chain := c\<rparr>)))))"

text \<open>The lock is released wherever the function returns.\<close>

definition chain_unlock :: "(bool \<times> chain_state) res \<Rightarrow> (bool \<times> chain_state) res" where
  "chain_unlock r = res_bind r (\<lambda>(ok, s). res_bind (thread_unlock (chain_locks s)) (\<lambda>lk. Inr (ok, s\<lparr>chain_locks := lk\<rparr>)))"

definition LoadGenesisBlock ::
  "(bytes \<Rightarrow> bytes) \<Rightarrow> bytes \<Rightarrow> nat \<Rightarrow> block \<Rightarrow> chain_state \<Rightarrow> (bool \<times> chain_state) res option" where
  "LoadGenesisBlock sha mem loc g s =
     (case thread_lock (cs_chain_state s) (chain_locks s) of
        Inl e \<Rightarrow> Some (Inl e)
      | Inr lk \<Rightarrow>
          let s0 = s\<lparr>chain_locks := lk\<rparr> in
          map_option chain_unlock
            (if map_block_index s0 (Block_GetHash sha g) \<noteq> None then Some (Inr (True, s0))
             else Option.bind (AddToBlockIndex sha mem (bheader g) s0) (\<lambda>r.
               case r of
                 Inl e \<Rightarrow> Some (Inl e)
               | Inr (a, s1) \<Rightarrow>
                   (case ReceivedBlockTransactions loc g a s1 of
                      Inl e \<Rightarrow> Some (Inl e)
                    | Inr (ok, s2) \<Rightarrow> if \<not> ok then Some (Inr (False, s2)) else ConnectTip a s2))))"

subsection \<open>Properties\<close>

lemma genesis_indexed:
  assumes "Header_GetHash sha h \<noteq> hash_prev_block h"
  shows "\<exists>p. GetBlockProof h = Inr p \<and>
    AddToBlockIndex sha mem h (chain_state_init cs lk) =
      Some (Inr (0, (chain_state_init cs lk)\<lparr>
        entries := [0 \<mapsto> (bindex_new h (Header_GetHash sha h))\<lparr>chain_work := p, status := kBlockValidTree\<rparr>], free := 1,
        map_block_index := [Header_GetHash sha h \<mapsto> 0], best_header := Some 0, dirty := {0}\<rparr>))"
proof -
  obtain p where p: "GetBlockProof h = Inr p" using GetBlockProof_value[of h] by blast
  then show ?thesis using assms
    by (intro exI[of _ p])
      (simp add: AddToBlockIndex_def chain_state_init_def Let_def BuildSkip_def bindex_new_def RaiseValidity_def
        kBlockValidMask_def kBlockFailedMask_def status_defs)
qed

text \<open>Without the detector of lock orders the genesis block is loaded.\<close>

lemma LoadGenesisBlock_loads:
  assumes "Header_GetHash sha (bheader g) \<noteq> hash_prev_block (bheader g)" "\<not> tl_checked lk"
  shows "\<exists>s e. LoadGenesisBlock sha mem loc g (chain_state_init cs lk) = Some (Inr (True, s)) \<and>
     entries s = [0 \<mapsto> e] \<and> tree_wf (entries s) \<and> chain_ok (entries s) (active_chain s) \<and>
     active_chain s = [Some 0] \<and> map_block_index s = [Block_GetHash sha g \<mapsto> 0] \<and>
     best_header s = Some 0 \<and> candidates s = {0} \<and>
     block_hash e = Block_GetHash sha g \<and> chain_tx_num e = of_nat (length (transactions g)) \<and>
     status e = kBlockValidTransactions OR kBlockHaveData \<and> Inr (chain_work e) = GetBlockProof (bheader g) \<and>
     LoadGenesisBlock sha mem loc g s = Some (Inr (True, s))"
proof -
  let ?h = "bheader g" and ?hash = "Header_GetHash sha (bheader g)" and ?s0 = "chain_state_init cs lk"
  obtain p where p: "GetBlockProof ?h = Inr p" and add: "AddToBlockIndex sha mem ?h ?s0 =
      Some (Inr (0, ?s0\<lparr>entries := [0 \<mapsto> (bindex_new ?h ?hash)\<lparr>chain_work := p, status := kBlockValidTree\<rparr>], free := 1,
        map_block_index := [?hash \<mapsto> 0], best_header := Some 0, dirty := {0}\<rparr>))"
    using genesis_indexed[OF assms(1)] by blast
  let ?e1 = "(bindex_new ?h ?hash)\<lparr>chain_work := p, status := kBlockValidTree\<rparr>"
  let ?s1 = "?s0\<lparr>entries := [0 \<mapsto> ?e1], free := 1, map_block_index := [?hash \<mapsto> 0],
     best_header := Some 0, dirty := {0}\<rparr>"
  have m: "kBlockValidMask = 7" "kBlockFailedMask = 96"
    by (simp_all add: kBlockValidMask_def kBlockFailedMask_def status_defs)
  let ?e = "?e1\<lparr>tx_num := of_nat (length (transactions g)), chain_tx_num := of_nat (length (transactions g)),
     status := kBlockValidTransactions OR kBlockHaveData, sequence_id := 1\<rparr>"
  let ?s2 = "?s1\<lparr>entries := [0 \<mapsto> ?e], block_sequence_id := 2, candidates := {0}\<rparr>"
  have rec: "ReceivedBlockTransactions loc g 0 ?s1 = Inr (True, ?s2)"
    using assms(2)
    by (simp add: ReceivedBlockTransactions_def deref_def chain_state_init_def Let_def bindex_new_def
        RaiseValidity_def m status_defs chain_Tip_def)
  have wf: "tree_wf [0 \<mapsto> ?e]" by (auto simp: tree_wf_def entry_wf_def bindex_new_def)
  have tip: "SetTip [0 \<mapsto> ?e] (Some 0) [] = Some (Inr [Some 0])"
    by (simp add: SetTip_def deref_def bindex_new_def chain_resize_def settip_loop.simps[of _ "Some 0"]
        settip_loop.simps[of _ None])
  let ?s3 = "?s2\<lparr>active_chain := [Some 0]\<rparr>"
  have con: "ConnectTip 0 ?s2 = Some (Inr (True, ?s3))"
    using tip by (simp add: ConnectTip_def deref_def chain_state_init_def bindex_new_def chain_Tip_def)
  have keep: "?s0\<lparr>chain_locks := lk\<rparr> = ?s0" "chain_locks ?s0 = lk" "map_block_index ?s0 = (\<lambda>_. None)"
    by (simp_all add: chain_state_init_def)
  have fin: "chain_unlock (Inr (True, s)) = Inr (True, s)" if "chain_locks s = lk" for s
    using that assms(2) by (cases s) (simp add: chain_unlock_def)
  have load: "LoadGenesisBlock sha mem loc g ?s0 = Some (Inr (True, ?s3))"
    using assms(2) add rec con fin[of ?s3] by (simp add: LoadGenesisBlock_def keep)
  have again: "LoadGenesisBlock sha mem loc g ?s3 = Some (Inr (True, ?s3))"
    using assms(2) fin[of ?s3] by (simp add: LoadGenesisBlock_def Block_GetHash_def keep) (simp add: chain_state_init_def)
  have "chain_ok [0 \<mapsto> ?e] [Some 0]"
    by (auto simp: chain_ok_def chain_of_def bindex_new_def intro!: exI[of _ 0])
  then show ?thesis using load again wf p
    by (intro exI[of _ ?s3] exI[of _ ?e]) (simp add: Block_GetHash_def chain_state_init_def bindex_new_def)
qed

text \<open>With it, the local lock was taken under another one when it is destroyed.\<close>

lemma LoadGenesisBlock_undefined:
  assumes "Header_GetHash sha (bheader g) \<noteq> hash_prev_block (bheader g)" "tl_checked lk" "tl_stack lk = []"
    "loc \<noteq> cs" "(loc, cs) \<notin> set (lock_orders (tl_data lk))"
  shows "LoadGenesisBlock sha mem loc g (chain_state_init cs lk) = Some (Inl Undefined)"
proof -
  let ?h = "bheader g" and ?hash = "Header_GetHash sha (bheader g)"
  let ?lk = "lk\<lparr>tl_stack := [cs]\<rparr>"
  have lock: "thread_lock cs lk = Inr ?lk" using assms(2,3) by (simp add: thread_lock_def PushLock_def)
  obtain p where add: "AddToBlockIndex sha mem ?h (chain_state_init cs ?lk) =
      Some (Inr (0, (chain_state_init cs ?lk)\<lparr>entries := [0 \<mapsto> (bindex_new ?h ?hash)\<lparr>chain_work := p, status := kBlockValidTree\<rparr>],
        free := 1, map_block_index := [?hash \<mapsto> 0], best_header := Some 0, dirty := {0}\<rparr>))"
    using genesis_indexed[OF assms(1)] by blast
  have m: "kBlockValidMask = 7" "kBlockFailedMask = 96"
    by (simp_all add: kBlockValidMask_def kBlockFailedMask_def status_defs)
  obtain lk1 lk2 where t: "thread_lock loc ?lk = Inr lk1" "thread_unlock lk1 = Inr lk2" "CriticalSection_destroy loc lk2 = Inl Undefined"
    using inner_lock_undefined[of ?lk cs loc] assms(2,4,5) by auto
  have rec: "ReceivedBlockTransactions loc g 0 ((chain_state_init cs ?lk)\<lparr>
      entries := [0 \<mapsto> (bindex_new ?h ?hash)\<lparr>chain_work := p, status := kBlockValidTree\<rparr>], free := 1,
      map_block_index := [?hash \<mapsto> 0], best_header := Some 0, dirty := {0}\<rparr>) = Inl Undefined"
    using t
    by (simp add: ReceivedBlockTransactions_def deref_def chain_state_init_def Let_def bindex_new_def
        RaiseValidity_def m status_defs chain_Tip_def)
  have s0: "(chain_state_init cs lk)\<lparr>chain_locks := ?lk\<rparr> = chain_state_init cs ?lk" "chain_locks (chain_state_init cs lk) = lk"
      "cs_chain_state (chain_state_init cs lk) = cs" "map_block_index (chain_state_init cs ?lk) = (\<lambda>_. None)"
    by (simp_all add: chain_state_init_def)
  show ?thesis using add rec lock by (simp add: LoadGenesisBlock_def s0 chain_unlock_def)
qed

text \<open>C32: Loading the genesis block into the empty state.  With \<^verbatim>\<open>CHECK_LOCKORDER\<close>, as the build has it, it is undefined:
  the sequence lock is a local variable that is taken while the lock of the chain is held, and the detector
  walks over erased elements when it is destroyed.  Without it, which would need a \<^verbatim>\<open>sync.cpp\<close> that links, loading succeeds: the entry is the root of height 0,
  valid up to its transactions and with its data, it is the best header, the only candidate and the
  active chain; and loading it again changes nothing.\<close>
theorem LoadGenesisBlock_establishes:
  assumes "Header_GetHash sha (bheader g) \<noteq> hash_prev_block (bheader g)"
    "tl_stack lk = []" "loc \<noteq> cs" "(loc, cs) \<notin> set (lock_orders (tl_data lk))"
  shows "if tl_checked lk then LoadGenesisBlock sha mem loc g (chain_state_init cs lk) = Some (Inl Undefined)
    else \<exists>s e. LoadGenesisBlock sha mem loc g (chain_state_init cs lk) = Some (Inr (True, s)) \<and>
     entries s = [0 \<mapsto> e] \<and> tree_wf (entries s) \<and> chain_ok (entries s) (active_chain s) \<and>
     active_chain s = [Some 0] \<and> map_block_index s = [Block_GetHash sha g \<mapsto> 0] \<and>
     best_header s = Some 0 \<and> candidates s = {0} \<and>
     block_hash e = Block_GetHash sha g \<and> chain_tx_num e = of_nat (length (transactions g)) \<and>
     status e = kBlockValidTransactions OR kBlockHaveData \<and> Inr (chain_work e) = GetBlockProof (bheader g) \<and>
     LoadGenesisBlock sha mem loc g s = Some (Inr (True, s))"
  using LoadGenesisBlock_undefined[OF assms(1) _ assms(2-4)] LoadGenesisBlock_loads[OF assms(1), of lk mem loc cs]
  by (cases "tl_checked lk") simp_all

text \<open>A digest for which no block is its own predecessor, and a thread without locks.\<close>

definition no_locks :: "bool \<Rightarrow> thread_locks" where
  "no_locks checked = \<lparr>tl_checked = checked, tl_stack = [], tl_data = \<lparr>lock_orders = [], invlock_orders = []\<rparr>\<rparr>"

lemma LoadGenesisBlock_establishes_witness:
  "LoadGenesisBlock (\<lambda>_. [1]) [] 1 Block_Clear (chain_state_init 0 (no_locks True)) = Some (Inl Undefined) \<and>
   (\<exists>s. LoadGenesisBlock (\<lambda>_. [1]) [] 1 Block_Clear (chain_state_init 0 (no_locks False)) = Some (Inr (True, s)) \<and>
      active_chain s = [Some 0])"
proof -
  have "Header_GetHash (\<lambda>_. [1]) (bheader Block_Clear) \<noteq> hash_prev_block (bheader Block_Clear)"
    by (simp add: Header_GetHash_def Block_Clear_def Header_Clear_def null_hash_def kHashSize_def numeral_eq_Suc)
  note g = LoadGenesisBlock_establishes[OF this, of "no_locks b" 1 0 "[]" for b]
  show ?thesis using g[of True] g[of False] by (auto simp: no_locks_def)
qed

text \<open>C40: No header can be added below a known block: \<^verbatim>\<open>AddToBlockIndex\<close> does not return when the hash
  of the header is new and its previous block is in the index.\<close>
theorem AddToBlockIndex_child_diverges:
  assumes "map_block_index s (Header_GetHash sha h) = None"
    and "map_block_index s (hash_prev_block h) = Some p" and "entries s p \<noteq> None"
  shows "AddToBlockIndex sha mem h s = None"
proof -
  have ne: "Header_GetHash sha h \<noteq> hash_prev_block h" using assms(1,2) by auto
  obtain ip where ip: "entries s p = Some ip" using assms(3) by auto
  have div: "BuildSkip st b = None" if "pprev b \<noteq> None" for st b
    using that by (auto simp: BuildSkip_def GetAncestor_nonconst_None split: option.splits)
  show ?thesis using assms(1,2) ne ip div
    by (auto simp: AddToBlockIndex_def Let_def split: option.splits)
qed

lemma AddToBlockIndex_child_diverges_witness:
  "AddToBlockIndex (\<lambda>_. [1]) [] (Header_Clear\<lparr>hash_prev_block := [2]\<rparr>)
     ((chain_state_init 0 (no_locks True))\<lparr>map_block_index := [[2] \<mapsto> 0], entries := two_blocks\<rparr>) = None"
  by (rule AddToBlockIndex_child_diverges[where p = 0]) (simp_all add: Header_GetHash_def two_blocks_def)

end
