(* ===== verification/Net_Addr.thy ===== *)
theory Net_Addr
  imports Serialize
begin

text \<open>
  Network addresses: \<^verbatim>\<open>NetAddr\<close> of \<^verbatim>\<open>src/network/src/network_address.cpp\<close>.  The protobuf field
  \<open>ip\<close> is four 32-bit words kept in network byte order; the code reads them both as words and as the
  sixteen bytes they occupy on the (little-endian) host, so the field is the sixteen bytes and
  \<open>ip_word\<close> reads a word out of them.  \<^verbatim>\<open>ASSERT_SIZE\<close> is the invariant \<open>addr_wf\<close>: every constructor
  except the one that adopts a message of the protobuf library establishes it, every operation keeps
  it.  The base-32 and SHA-256 routines of Botan are the parameters \<open>b32\<close> and \<open>sha256\<close>.
\<close>

record net_addr =
  ip :: bytes
  na_port :: u32
  na_scope :: u32
  na_services :: u64
  na_time :: u32

definition addr_wf :: "net_addr \<Rightarrow> bool" where
  [inv_defs]: "addr_wf a = (length (ip a) = kIpByteSize)"

definition port_small :: "net_addr \<Rightarrow> bool" where
  [inv_defs]: "port_small a = (na_port a < 0x10000)"

definition ip_word :: "net_addr \<Rightarrow> nat \<Rightarrow> u32" where
  "ip_word a i = from_little_endian (take 4 (drop (4 * i) (ip a)))"

subsection \<open>Access to bytes and words\<close>

definition GetByte :: "net_addr \<Rightarrow> nat \<Rightarrow> u8" where
  "GetByte a n = ip a ! n"

definition SetByte :: "nat \<Rightarrow> u8 \<Rightarrow> net_addr \<Rightarrow> net_addr res" where
  "SetByte n v a =
     (if length (ip a) = 16 then if n \<le> 15 then Inr (a\<lparr>ip := (ip a)[n := v]\<rparr>) else Inl Assertion
      else Inl Assertion)"

fun set_bytes_from :: "nat \<Rightarrow> bytes \<Rightarrow> net_addr \<Rightarrow> net_addr res" where
  "set_bytes_from i [] a = Inr a"
| "set_bytes_from i (v # vs) a = res_bind (SetByte i v a) (set_bytes_from (Suc i) vs)"

definition SetNByte :: "bytes \<Rightarrow> nat \<Rightarrow> net_addr \<Rightarrow> net_addr res" where
  "SetNByte src n a =
     (if length (ip a) \<noteq> 16 then Inl Assertion else if 15 < n then Inl Assertion
      else set_bytes_from 0 (take n src) a)"

definition memcmp_eq :: "bytes \<Rightarrow> bytes \<Rightarrow> bool" where
  "memcmp_eq xs prefix = (take (length prefix) xs = prefix)"

subsection \<open>Classification\<close>

definition IsIpv4 :: "net_addr \<Rightarrow> bool" where
  "IsIpv4 a = memcmp_eq (ip a) kPchIpv4"

definition IsTor :: "net_addr \<Rightarrow> bool" where
  "IsTor a = memcmp_eq (ip a) kPchOnionCat"

definition IsInternal :: "net_addr \<Rightarrow> bool" where
  "IsInternal a = memcmp_eq (ip a) kBtcIpPrefix"

definition IsIpv6 :: "net_addr \<Rightarrow> bool" where
  "IsIpv6 a = (\<not> IsIpv4 a \<and> \<not> IsTor a \<and> \<not> IsInternal a)"

definition IsRFC1918 :: "net_addr \<Rightarrow> bool" where
  "IsRFC1918 a = (IsIpv4 a \<and>
     (GetByte a 12 = 10 \<or>
      (GetByte a 12 = 192 \<and> GetByte a 13 = 168) \<or>
      (GetByte a 12 = 172 \<and> (16 \<le> GetByte a 13 \<and> GetByte a 13 \<le> 31))))"

definition IsRFC2544 :: "net_addr \<Rightarrow> bool" where
  "IsRFC2544 a = (IsIpv4 a \<and> GetByte a 12 = 198 \<and> (GetByte a 13 = 18 \<or> GetByte a 13 = 19))"

definition IsRFC6598 :: "net_addr \<Rightarrow> bool" where
  "IsRFC6598 a = (IsIpv4 a \<and> GetByte a 12 = 100 \<and> 64 \<le> GetByte a 13 \<and> GetByte a 13 \<le> 127)"

definition IsRFC5737 :: "net_addr \<Rightarrow> bool" where
  "IsRFC5737 a = (IsIpv4 a \<and>
     ((GetByte a 12 = 192 \<and> GetByte a 13 = 0 \<and> GetByte a 14 = 2) \<or>
      (GetByte a 12 = 198 \<and> GetByte a 13 = 51 \<and> GetByte a 14 = 100) \<or>
      (GetByte a 12 = 203 \<and> GetByte a 13 = 0 \<and> GetByte a 14 = 113)))"

definition IsRFC3849 :: "net_addr \<Rightarrow> bool" where
  "IsRFC3849 a = (IsIpv6 a \<and> GetByte a 0 = 0x20 \<and> GetByte a 1 = 0x01 \<and> GetByte a 2 = 0x0D \<and>
     GetByte a 3 = 0xB8)"

definition IsRFC3927 :: "net_addr \<Rightarrow> bool" where
  "IsRFC3927 a = (IsIpv4 a \<and> GetByte a 12 = 169 \<and> GetByte a 13 = 254)"

definition IsRFC3964 :: "net_addr \<Rightarrow> bool" where
  "IsRFC3964 a = (IsIpv6 a \<and> GetByte a 0 = 0x20 \<and> GetByte a 1 = 0x02)"

definition IsRFC4193 :: "net_addr \<Rightarrow> bool" where
  "IsRFC4193 a = (IsIpv6 a \<and> GetByte a 0 AND 0xFE = 0xFC)"

definition IsRFC4380 :: "net_addr \<Rightarrow> bool" where
  "IsRFC4380 a = (IsIpv6 a \<and> GetByte a 0 = 0x20 \<and> GetByte a 1 = 0x01 \<and> GetByte a 2 = 0 \<and>
     GetByte a 3 = 0)"

definition IsRFC4843 :: "net_addr \<Rightarrow> bool" where
  "IsRFC4843 a = (IsIpv6 a \<and> GetByte a 0 = 0x20 \<and> GetByte a 1 = 0x01 \<and> GetByte a 2 = 0x00 \<and>
     GetByte a 3 AND 0xF0 = 0x10)"

definition IsRFC4862 :: "net_addr \<Rightarrow> bool" where
  "IsRFC4862 a = (IsIpv6 a \<and> ip_word a 0 = 0x80FE \<and> ip_word a 1 = 0)"

definition IsRFC6052 :: "net_addr \<Rightarrow> bool" where
  "IsRFC6052 a = (IsIpv6 a \<and> ip_word a 0 = 0x9BFF6400 \<and> ip_word a 1 = 0)"

definition IsRFC6145 :: "net_addr \<Rightarrow> bool" where
  "IsRFC6145 a = (IsIpv6 a \<and> ip_word a 0 = 0 \<and> ip_word a 1 = 0 \<and> ip_word a 2 = 0xFFFF)"

definition IsLocal :: "net_addr \<Rightarrow> bool" where
  "IsLocal a =
     (if IsIpv4 a \<and> (GetByte a 12 = 127 \<or> GetByte a 12 = 0) then True
      else if IsIpv6 a \<and> ip_word a 0 = 0 \<and> ip_word a 1 = 0 \<and> ip_word a 2 = 0 \<and> ip_word a 3 = 0x1000000
      then True else False)"

definition INADDR_NONE :: u32 where
  "INADDR_NONE = 0xffffffff"

definition NetAddr_IsValid :: "net_addr \<Rightarrow> bool" where
  "NetAddr_IsValid a =
     (if memcmp_eq (ip a) (drop 3 kPchIpv4) then False
      else if memcmp_eq (ip a) (replicate kIpByteSize 0) then False
      else if IsRFC3849 a then False
      else if IsInternal a then False
      else if IsIpv4 a \<and> ip_word a 3 = INADDR_NONE then False
      else if IsIpv4 a \<and> ip_word a 3 = 0 then False
      else True)"

definition IsRoutable :: "net_addr \<Rightarrow> bool" where
  "IsRoutable a = (NetAddr_IsValid a \<and>
     \<not> (IsRFC1918 a \<or> IsRFC2544 a \<or> IsRFC3927 a \<or> IsRFC4862 a \<or> IsRFC6598 a \<or> IsRFC5737 a \<or>
        IsRFC4193 a \<or> IsRFC4843 a \<or> (IsRFC4193 a \<and> \<not> IsTor a) \<or> IsLocal a \<or> IsInternal a))"

datatype addr_family = kAfUnroutable | kAfIpv4 | kAfIpv6 | kAfTor | kAfInternal | kAfTeredo | kAfMaximum

fun af_byte :: "addr_family \<Rightarrow> u8" where
  "af_byte kAfUnroutable = 0" | "af_byte kAfIpv4 = 1" | "af_byte kAfIpv6 = 2" | "af_byte kAfTor = 3"
| "af_byte kAfInternal = 4" | "af_byte kAfTeredo = 5" | "af_byte kAfMaximum = 6"

definition GetFamily :: "net_addr \<Rightarrow> addr_family" where
  "GetFamily a =
     (if IsInternal a then kAfInternal else if \<not> IsRoutable a then kAfUnroutable
      else if IsIpv4 a then kAfIpv4 else if IsTor a then kAfTor else kAfIpv6)"

definition GetExtFamily :: "net_addr \<Rightarrow> addr_family" where
  "GetExtFamily a = (if IsRFC4380 a then kAfTeredo else GetFamily a)"

datatype reachability =
  kReachUnreachable | kReachDefault | kReachTeredo | kReachIpv6Weak | kReachIpv4 | kReachIpv6Strong | kReachPrivate

text \<open>The two nested \<^verbatim>\<open>switch\<close> statements, without fall-through: every inner branch returns.\<close>

fun reach_switch :: "addr_family \<Rightarrow> addr_family \<Rightarrow> bool \<Rightarrow> reachability" where
  "reach_switch kAfIpv4 our is_tunnel = (if our = kAfIpv4 then kReachIpv4 else kReachDefault)"
| "reach_switch kAfIpv6 our is_tunnel =
    (case our of kAfTeredo \<Rightarrow> kReachTeredo | kAfIpv4 \<Rightarrow> kReachIpv4
     | kAfIpv6 \<Rightarrow> if is_tunnel then kReachIpv6Weak else kReachIpv6Strong | _ \<Rightarrow> kReachDefault)"
| "reach_switch kAfTor our is_tunnel =
    (case our of kAfIpv4 \<Rightarrow> kReachIpv4 | kAfTor \<Rightarrow> kReachPrivate | _ \<Rightarrow> kReachDefault)"
| "reach_switch kAfTeredo our is_tunnel =
    (case our of kAfTeredo \<Rightarrow> kReachTeredo | kAfIpv6 \<Rightarrow> kReachIpv6Weak | kAfIpv4 \<Rightarrow> kReachIpv4
     | _ \<Rightarrow> kReachDefault)"
| "reach_switch _ our is_tunnel =
    (case our of kAfTeredo \<Rightarrow> kReachTeredo | kAfIpv6 \<Rightarrow> kReachIpv6Weak | kAfIpv4 \<Rightarrow> kReachIpv4
     | kAfTor \<Rightarrow> kReachPrivate | _ \<Rightarrow> kReachDefault)"

definition GetReachability :: "net_addr \<Rightarrow> net_addr \<Rightarrow> reachability" where
  "GetReachability a partner =
     (if \<not> IsRoutable a \<or> IsInternal a then kReachUnreachable
      else reach_switch (GetExtFamily partner) (GetExtFamily a) (IsRFC3964 a \<or> IsRFC6052 a \<or> IsRFC6145 a))"

subsection \<open>Groups\<close>

function group_bytes :: "net_addr \<Rightarrow> nat \<Rightarrow> nat \<Rightarrow> bytes" where
  "group_bytes a start_byte bits =
     (if 8 \<le> bits then GetByte a start_byte # group_bytes a (Suc start_byte) (bits - 8)
      else if 0 < bits then [GetByte a start_byte OR (push_bit (8 - bits) 1 - 1)] else [])"
  by auto
termination by (relation "measure (\<lambda>(a, s, b). b)") auto

declare group_bytes.simps [simp del]

definition GetGroup :: "net_addr \<Rightarrow> bytes" where
  "GetGroup a =
     (let (af, start_byte, bits) = (if IsLocal a then (255, 0, 0) else (af_byte kAfIpv6, 0, 16)) in
      if IsInternal a then
        af_byte kAfInternal # group_bytes a (length kBtcIpPrefix) ((kIpByteSize - length kBtcIpPrefix) * 8)
      else if \<not> IsRoutable a then af_byte kAfUnroutable # group_bytes a start_byte 0
      else if IsIpv4 a \<or> IsRFC6145 a \<or> IsRFC6052 a then af_byte kAfIpv4 # group_bytes a 12 bits
      else if IsRFC3964 a then af_byte kAfIpv4 # group_bytes a 2 bits
      else if IsRFC4380 a then [af_byte kAfIpv4, GetByte a 12 XOR 0xFF, GetByte a 13 XOR 0xFF]
      else if IsTor a then af_byte kAfTor # group_bytes a 6 4
      else if GetByte a 0 = 0x20 \<and> GetByte a 1 = 0x01 \<and> GetByte a 2 = 0x04 \<and> GetByte a 3 = 0x70 then
        af # group_bytes a start_byte 36
      else af # group_bytes a start_byte 32)"

subsection \<open>Construction and update\<close>

definition NetAddr_new :: net_addr where
  "NetAddr_new = \<lparr>ip = replicate 16 0, na_port = 0, na_scope = 0, na_services = 0, na_time = 0\<rparr>"

definition NetAddr_make :: "u32 \<Rightarrow> u64 \<Rightarrow> bytes \<Rightarrow> u16 \<Rightarrow> net_addr" where
  "NetAddr_make ts sv ipb p = \<lparr>ip = ipb, na_port = ucast p, na_scope = 0, na_services = sv, na_time = ts\<rparr>"

definition NetAddr_Clear :: "net_addr \<Rightarrow> net_addr" where
  "NetAddr_Clear a = a\<lparr>na_time := 0, na_services := 0, ip := replicate (length (ip a)) 0, na_port := 0\<rparr>"

definition GetIpv4 :: "net_addr \<Rightarrow> u32" where
  "GetIpv4 a = (if \<not> IsIpv4 a then INADDR_NONE else ip_word a 3)"

definition set_ip_word :: "nat \<Rightarrow> u32 \<Rightarrow> net_addr \<Rightarrow> net_addr" where
  "set_ip_word i w a = a\<lparr>ip := take (4 * i) (ip a) @ to_little_endian 4 w @ drop (4 * i + 4) (ip a)\<rparr>"

definition SetIpv4 :: "u32 \<Rightarrow> net_addr \<Rightarrow> net_addr res" where
  "SetIpv4 w a =
     (if length (ip a) \<noteq> 16 then Inl Assertion
      else res_bind (if \<not> IsIpv4 a then SetNByte kPchIpv4 (length kPchIpv4) a else Inr a)
             (\<lambda>a'. Inr (set_ip_word 3 w a')))"

definition GetIpv6 :: "net_addr \<Rightarrow> bytes option" where
  "GetIpv6 a = (if \<not> IsIpv6 a then None else Some (take kIpByteSize (ip a)))"

definition SetIpv6 :: "bytes \<Rightarrow> net_addr \<Rightarrow> net_addr res" where
  "SetIpv6 src a =
     (if length (ip a) \<noteq> 16 then Inl Assertion else set_bytes_from 0 (take kIpByteSize src) a)"

definition SetInternal :: "(bytes \<Rightarrow> bytes) \<Rightarrow> bytes \<Rightarrow> net_addr \<Rightarrow> bool \<times> net_addr" where
  "SetInternal sha256 name a =
     (if name = [] then (False, a)
      else (True, a\<lparr>ip := kBtcIpPrefix @ take (kIpByteSize - length kBtcIpPrefix) (sha256 name)\<rparr>))"

text \<open>The socket address structures: address and port in network byte order.\<close>

datatype sock_addr =
    SockIn "u32" "u16"                \<comment> \<open>\<^verbatim>\<open>sockaddr_in\<close>: \<^verbatim>\<open>s_addr\<close>, \<^verbatim>\<open>sin_port\<close>\<close>
  | SockIn6 "bytes" "u16" "u32"       \<comment> \<open>\<^verbatim>\<open>sockaddr_in6\<close>: \<^verbatim>\<open>s6_addr\<close>, \<^verbatim>\<open>sin6_port\<close>, \<^verbatim>\<open>sin6_scope_id\<close>\<close>
  | SockOther

definition ntohs :: "u16 \<Rightarrow> u16" where
  "ntohs w = from_big_endian (to_little_endian 2 w)"

definition NetAddr_in :: "u32 \<Rightarrow> u16 \<Rightarrow> net_addr res" where
  "NetAddr_in w p = res_bind (SetIpv4 w NetAddr_new) (\<lambda>a. Inr (a\<lparr>na_port := ucast (ntohs p)\<rparr>))"

definition NetAddr_in6 :: "bytes \<Rightarrow> u16 \<Rightarrow> u32 \<Rightarrow> net_addr res" where
  "NetAddr_in6 b p sc =
     res_bind (SetIpv6 b NetAddr_new) (\<lambda>a. Inr (a\<lparr>na_port := ucast (ntohs p), na_scope := sc\<rparr>))"

definition ToSockAddr :: "net_addr \<Rightarrow> sock_addr option" where
  "ToSockAddr a =
     (if IsIpv4 a then Some (SockIn (GetIpv4 a) (ntohs (ucast (na_port a))))
      else if IsIpv6 a then
        Some (SockIn6 (case GetIpv6 a of Some b \<Rightarrow> b | None \<Rightarrow> replicate 16 0) (ntohs (ucast (na_port a))) (na_scope a))
      else None)"

definition FromSockAddr :: "sock_addr \<Rightarrow> net_addr \<Rightarrow> (bool \<times> net_addr) res" where
  "FromSockAddr s a =
     (case s of SockIn w p \<Rightarrow> res_bind (NetAddr_in w p) (\<lambda>b. Inr (True, b))
      | SockIn6 b p sc \<Rightarrow> res_bind (NetAddr_in6 b p sc) (\<lambda>b. Inr (True, b))
      | SockOther \<Rightarrow> Inr (False, a))"

definition NetAddr_port :: "net_addr \<Rightarrow> u16" where
  "NetAddr_port a = ucast (na_port a)"

definition NetAddr_set_port :: "u16 \<Rightarrow> net_addr \<Rightarrow> net_addr" where
  "NetAddr_set_port p a = a\<lparr>na_port := ucast p\<rparr>"

definition NetAddr_set_scope_id :: "u32 \<Rightarrow> net_addr \<Rightarrow> net_addr" where
  "NetAddr_set_scope_id i a = a\<lparr>na_scope := i\<rparr>"

definition NetAddr_set_services :: "u64 \<Rightarrow> net_addr \<Rightarrow> net_addr" where
  "NetAddr_set_services s a = a\<lparr>na_services := s\<rparr>"

definition NetAddr_set_timestamp :: "u32 \<Rightarrow> net_addr \<Rightarrow> net_addr" where
  "NetAddr_set_timestamp t a = a\<lparr>na_time := t\<rparr>"

definition NetAddr_eq :: "net_addr \<Rightarrow> net_addr \<Rightarrow> bool" where
  "NetAddr_eq a b = (take kIpByteSize (ip a) = take kIpByteSize (ip b) \<and> na_port a = na_port b)"

text \<open>The digest of an address: the four words, then the port as the 32-bit integer it is stored in.\<close>

definition NetAddr_GetHash :: "(bytes \<Rightarrow> bytes) \<Rightarrow> net_addr \<Rightarrow> bytes" where
  "NetAddr_GetHash sha a = sha (concat (map (\<lambda>i. ser_write_data (ip_word a i)) [0..<4]) @ ser_write_data (na_port a))"

subsection \<open>Wire form\<close>

definition NetAddr_ser :: "net_addr \<Rightarrow> bytes" where
  "NetAddr_ser a =
     ser_write_data (na_time a) @ ser_write_data (na_services a) @ ser_write_array (ip a) @
     ser_write_data (ucast (na_port a) :: u16)"

definition NetAddr_deser :: "net_addr \<Rightarrow> bytes \<Rightarrow> (net_addr \<times> bytes) res" where
  "NetAddr_deser a s =
     res_bind (ser_read_data s) (\<lambda>(ts, s1).
     res_bind (ser_read_data s1) (\<lambda>(sv, s2).
     res_bind (ser_read_array (length (ip a)) s2) (\<lambda>(b, s3).
     res_bind (ser_read_data s3) (\<lambda>(p :: u16, s4).
       Inr (a\<lparr>ip := b, na_time := ts, na_services := sv, na_port := ucast p\<rparr>, s4)))))"

definition NetAddr_SerializedSize :: "net_addr \<Rightarrow> nat" where
  "NetAddr_SerializedSize a = 4 + 8 + kIpByteSize + 2"

subsection \<open>Text form\<close>

definition digit_char :: "nat \<Rightarrow> char" where
  "digit_char n = (if n < 10 then char_of (48 + n) else char_of (87 + n))"

text \<open>\<^verbatim>\<open>operator<<\<close> of a stream on an unsigned integer, base 10 or 16, no leading zeros.\<close>

function show_base :: "nat \<Rightarrow> nat \<Rightarrow> string" where
  "show_base b n = (if n < b \<or> b < 2 then [digit_char n] else show_base b (n div b) @ [digit_char (n mod b)])"
  by auto
termination by (relation "measure snd") auto

declare show_base.simps [simp del]

definition dec_str :: "u8 \<Rightarrow> string" where
  "dec_str b = show_base 10 (unat b)"

definition hex16 :: "u8 \<Rightarrow> u8 \<Rightarrow> string" where
  "hex16 hi lo = show_base 16 (unat hi * 256 + unat lo)"

definition dotted :: "bytes \<Rightarrow> string" where
  "dotted b = dec_str (b ! 12) @ ''.'' @ dec_str (b ! 13) @ ''.'' @ dec_str (b ! 14) @ ''.'' @ dec_str (b ! 15)"

definition colons :: "bytes \<Rightarrow> string" where
  "colons b = hex16 (b ! 0) (b ! 1) @ '':'' @ hex16 (b ! 2) (b ! 3) @ '':'' @ hex16 (b ! 4) (b ! 5) @ '':'' @
     hex16 (b ! 6) (b ! 7) @ '':'' @ hex16 (b ! 8) (b ! 9) @ '':'' @ hex16 (b ! 10) (b ! 11) @ '':'' @
     hex16 (b ! 12) (b ! 13) @ '':'' @ hex16 (b ! 14) (b ! 15)"

definition NetAddr_ToString :: "(bytes \<Rightarrow> string) \<Rightarrow> net_addr \<Rightarrow> string" where
  "NetAddr_ToString b32 a =
     (if IsTor a then b32 (drop (length kPchOnionCat) (ip a)) @ ''.onion''
      else if IsInternal a then b32 (drop (length kBtcIpPrefix) (ip a)) @ ''.internal''
      else if IsIpv4 a then dotted (ip a) else colons (ip a))"

subsection \<open>Classification lemmas\<close>

lemma memcmp_eq_nth: "memcmp_eq xs p \<Longrightarrow> i < length p \<Longrightarrow> xs ! i = p ! i"
  by (metis memcmp_eq_def nth_take)

lemma ipv4_bytes: "IsIpv4 a \<Longrightarrow> ip a ! 0 = 0 \<and> ip a ! 10 = 0xff"
  using memcmp_eq_nth[of "ip a" kPchIpv4 0] memcmp_eq_nth[of "ip a" kPchIpv4 10]
  by (simp add: IsIpv4_def kPchIpv4_def)

lemma tor_bytes: "IsTor a \<Longrightarrow> ip a ! 0 = 0xfd \<and> ip a ! 1 = 0x87"
  using memcmp_eq_nth[of "ip a" kPchOnionCat 0] memcmp_eq_nth[of "ip a" kPchOnionCat 1]
  by (simp add: IsTor_def kPchOnionCat_def)

lemma internal_bytes: "IsInternal a \<Longrightarrow> ip a ! 0 = 0xfd \<and> ip a ! 1 = 0x6b"
  using memcmp_eq_nth[of "ip a" kBtcIpPrefix 0] memcmp_eq_nth[of "ip a" kBtcIpPrefix 1]
  by (simp add: IsInternal_def kBtcIpPrefix_def)

lemma kinds_disjoint:
  "IsIpv4 a \<Longrightarrow> \<not> IsTor a" "IsIpv4 a \<Longrightarrow> \<not> IsInternal a" "IsTor a \<Longrightarrow> \<not> IsInternal a"
  "IsIpv4 a \<Longrightarrow> \<not> IsIpv6 a" "IsTor a \<Longrightarrow> \<not> IsIpv6 a" "IsInternal a \<Longrightarrow> \<not> IsIpv6 a"
  using ipv4_bytes[of a] tor_bytes[of a] internal_bytes[of a] by (auto simp: IsIpv6_def)

lemma routable_not: "IsRoutable a \<Longrightarrow> NetAddr_IsValid a \<and> \<not> IsInternal a \<and> \<not> IsLocal a"
  by (simp add: IsRoutable_def)

lemma v6_prefix_kinds:
  assumes "\<not> IsIpv6 a"
  shows "\<not> IsRFC6145 a" "\<not> IsRFC6052 a" "\<not> IsRFC3964 a" "\<not> IsRFC4380 a"
  using assms by (simp_all add: IsRFC6145_def IsRFC6052_def IsRFC3964_def IsRFC4380_def)

lemma reach_rows:
  assumes "IsRoutable a"
  shows "GetReachability a b = reach_switch (GetExtFamily b) (GetExtFamily a) (IsRFC3964 a \<or> IsRFC6052 a \<or> IsRFC6145 a)"
  using assms routable_not by (auto simp: GetReachability_def)

lemma reach_switch_values:
  "(reach_switch f our t = kReachIpv4) = (our = kAfIpv4)"
  "(reach_switch f our t = kReachIpv6Strong) = (f = kAfIpv6 \<and> our = kAfIpv6 \<and> \<not> t)"
  "(reach_switch f our t = kReachPrivate) = (our = kAfTor \<and> f \<notin> {kAfIpv4, kAfIpv6, kAfTeredo})"
  "(reach_switch f our t = kReachTeredo) = (our = kAfTeredo \<and> f \<notin> {kAfIpv4, kAfTor})"
  "reach_switch f our t \<noteq> kReachUnreachable"
  by (cases f; cases our; simp)+

text \<open>Which address the node advertises to a partner is decided by a score.  The score is zero exactly for
  an address that is not routable, the IPv4 score exactly for a routable IPv4 address whatever the
  partner is, the strong IPv6 score exactly between two native IPv6 addresses, and the private score
  exactly for an onion address towards a partner that is neither IPv4, IPv6 nor Teredo.\<close>
theorem GetReachability_exact:
  "(GetReachability a b = kReachUnreachable) = (\<not> IsRoutable a) \<and>
   (GetReachability a b = kReachIpv4) = (IsRoutable a \<and> GetExtFamily a = kAfIpv4) \<and>
   (GetReachability a b = kReachIpv6Strong) =
     (IsRoutable a \<and> GetExtFamily a = kAfIpv6 \<and> GetExtFamily b = kAfIpv6 \<and>
      \<not> (IsRFC3964 a \<or> IsRFC6052 a \<or> IsRFC6145 a)) \<and>
   (GetReachability a b = kReachPrivate) =
     (IsRoutable a \<and> IsTor a \<and> GetExtFamily b \<notin> {kAfIpv4, kAfIpv6, kAfTeredo}) \<and>
   (GetExtFamily a = kAfIpv4) = (IsRoutable a \<and> IsIpv4 a)"
proof -
  have ext: "(GetExtFamily a = kAfIpv4) = (IsRoutable a \<and> IsIpv4 a)"
    using kinds_disjoint[of a] v6_prefix_kinds[of a]
    by (auto simp: GetExtFamily_def GetFamily_def dest: routable_not)
  have tor: "(GetExtFamily a = kAfTor) = (IsRoutable a \<and> IsTor a)"
    using kinds_disjoint[of a] v6_prefix_kinds[of a]
    by (auto simp: GetExtFamily_def GetFamily_def dest: routable_not)
  show ?thesis
  proof (cases "IsRoutable a")
    case True
    then show ?thesis using tor by (auto simp: reach_rows reach_switch_values ext)
  qed (simp add: GetReachability_def ext)
qed

subsection \<open>Group lemmas\<close>

text \<open>
  What a group stands for: the internal addresses by their name hash, the unroutable ones, the
  IPv4 /16 an address carries (mapped, translated, tunnelled), four bits of an onion address, the
  /36 of he.net, the /32 of any other IPv6 address.
\<close>

datatype addr_group =
  GInternal bytes | GUnroutable | GIpv4 u8 u8 | GTor u8 | GHeNet u8 | GIpv6 bytes

definition carried_ipv4 :: "net_addr \<Rightarrow> (u8 \<times> u8) option" where
  "carried_ipv4 a =
     (if IsIpv4 a \<or> IsRFC6145 a \<or> IsRFC6052 a then Some (GetByte a 12, GetByte a 13)
      else if IsRFC3964 a then Some (GetByte a 2, GetByte a 3)
      else if IsRFC4380 a then Some (NOT (GetByte a 12), NOT (GetByte a 13)) else None)"

definition addr_group_of :: "net_addr \<Rightarrow> addr_group" where
  "addr_group_of a =
     (if IsInternal a then GInternal (drop 6 (ip a)) else if \<not> IsRoutable a then GUnroutable
      else case carried_ipv4 a of Some (x, y) \<Rightarrow> GIpv4 x y
      | None \<Rightarrow> if IsTor a then GTor (drop_bit 4 (GetByte a 6))
          else if take 4 (ip a) = [0x20, 0x01, 0x04, 0x70] then GHeNet (drop_bit 4 (GetByte a 4))
          else GIpv6 (take 4 (ip a)))"

fun group_code :: "addr_group \<Rightarrow> bytes" where
  "group_code (GInternal n) = 4 # n"
| "group_code GUnroutable = [0]"
| "group_code (GIpv4 x y) = [1, x, y]"
| "group_code (GTor x) = [3, push_bit 4 x OR 0x0F]"
| "group_code (GHeNet x) = [2, 0x20, 0x01, 0x04, 0x70, push_bit 4 x OR 0x0F]"
| "group_code (GIpv6 p) = 2 # p"

lemma group_bytes_0 [simp]: "group_bytes a s 0 = []"
  by (subst group_bytes.simps) simp

lemma group_bytes_step: "group_bytes a s (n + 8) = GetByte a s # group_bytes a (Suc s) n"
  by (subst group_bytes.simps) simp

lemma group_bytes_16: "group_bytes a s 16 = [GetByte a s, GetByte a (Suc s)]"
  using group_bytes_step[of a s 8] group_bytes_step[of a "Suc s" 0] by simp

lemma group_bytes_4: "group_bytes a s 4 = [GetByte a s OR 0x0F]"
  by (subst group_bytes.simps) simp

lemma group_bytes_whole: "group_bytes a s (n * 8) = map (GetByte a) [s..<s + n]"
proof (induction n arbitrary: s)
  case (Suc n)
  have "group_bytes a s (Suc n * 8) = GetByte a s # group_bytes a (Suc s) (n * 8)"
    using group_bytes_step[of a s "n * 8"] by (simp add: add.commute)
  also have "\<dots> = map (GetByte a) (s # [Suc s..<Suc s + n])" by (simp add: Suc)
  also have "s # [Suc s..<Suc s + n] = [s..<s + Suc n]" by (simp add: upt_conv_Cons del: upt_Suc)
  finally show ?case .
qed simp

lemma group_bytes_36:
  "group_bytes a 0 36 = map (GetByte a) [0..<4] @ [GetByte a 4 OR 0x0F]"
  using group_bytes_step[of a 0 28] group_bytes_step[of a 1 20] group_bytes_step[of a 2 12]
    group_bytes_step[of a 3 4] group_bytes_4[of a 4]
  by (simp add: upt_rec numeral_2_eq_2 numeral_3_eq_3 numeral_eq_Suc)

lemma map_GetByte: "addr_wf a \<Longrightarrow> i \<le> j \<Longrightarrow> j \<le> 16 \<Longrightarrow> map (GetByte a) [i..<j] = drop i (take j (ip a))"
  by (simp add: addr_wf_def kIpByteSize_def list_eq_iff_nth_eq GetByte_def)

lemma nibble_or: "push_bit 4 (drop_bit 4 x) OR 0x0F = x OR 0x0F" for x :: u8
proof (rule bit_word_eqI)
  fix n assume "n < LENGTH(8)"
  then have "n \<in> {0, 1, 2, 3, 4, 5, 6, 7}" by auto
  then show "bit (push_bit 4 (drop_bit 4 x) OR 0x0F) n = bit (x OR 0x0F) n" by (auto simp: bit_simps)
qed

lemma nibble_or_inj:
  assumes "x OR 0x0F = y OR (0x0F :: u8)"
  shows "drop_bit 4 x = drop_bit 4 y"
proof (rule bit_word_eqI)
  fix n assume "n < LENGTH(8)"
  then have "n \<in> {0, 1, 2, 3, 4, 5, 6, 7}" by auto
  then have no: "\<not> bit (0x0F :: u8) (4 + n)" by (elim insertE) simp_all
  have "bit (x OR 0x0F) (4 + n) = bit (y OR 0x0F) (4 + n)" using assms by simp
  then show "bit (drop_bit 4 x) n = bit (drop_bit 4 y) n" using no by (auto simp: bit_or_iff bit_drop_bit_eq)
qed

lemma xor_ff: "x XOR 0xFF = NOT (x :: u8)"
proof (rule bit_word_eqI)
  fix n assume "n < LENGTH(8)"
  then have "n \<in> {0, 1, 2, 3, 4, 5, 6, 7}" by auto
  then show "bit (x XOR 0xFF) n = bit (NOT x) n" by (auto simp: bit_simps)
qed

lemma he_net_prefix:
  assumes "addr_wf a"
  shows "(GetByte a 0 = 0x20 \<and> GetByte a 1 = 0x01 \<and> GetByte a 2 = 0x04 \<and> GetByte a 3 = 0x70) =
    (take 4 (ip a) = [0x20, 0x01, 0x04, 0x70])"
proof -
  have "take 4 (ip a) = [GetByte a 0, GetByte a 1, GetByte a 2, GetByte a 3]"
    using map_GetByte[OF assms, of 0 4] by (simp add: upt_rec numeral_2_eq_2 numeral_3_eq_3 numeral_eq_Suc)
  then show ?thesis by simp
qed

lemma GetGroup_code:
  assumes wf: "addr_wf a"
  shows "GetGroup a = group_code (addr_group_of a)"
proof (cases "IsInternal a \<or> \<not> IsRoutable a")
  case True
  have "group_bytes a 6 (10 * 8) = drop 6 (take 16 (ip a))"
    using map_GetByte[OF wf, of 6 16] by (simp only: group_bytes_whole) simp
  then have "group_bytes a 6 80 = drop 6 (ip a)" using wf by (simp add: inv_defs kIpByteSize_def)
  moreover have "length kBtcIpPrefix = 6" by (simp add: kBtcIpPrefix_def)
  ultimately show ?thesis using True
    by (cases "IsInternal a") (simp_all add: GetGroup_def addr_group_of_def split_beta kIpByteSize_def)
next
  case False
  then have "\<not> IsLocal a" using routable_not by blast
  have p4: "group_bytes a 0 32 = take 4 (ip a)"
    using group_bytes_whole[of a 0 4] map_GetByte[OF wf, of 0 4] by simp
  have p36: "group_bytes a 0 36 = take 4 (ip a) @ [GetByte a 4 OR 0x0F]"
    using group_bytes_36 map_GetByte[OF wf, of 0 4] by simp
  consider (v4) "IsIpv4 a \<or> IsRFC6145 a \<or> IsRFC6052 a"
    | (other) "\<not> (IsIpv4 a \<or> IsRFC6145 a \<or> IsRFC6052 a)" by blast
  then show ?thesis
  proof cases
    case v4
    then show ?thesis using False \<open>\<not> IsLocal a\<close>
      by (simp add: GetGroup_def addr_group_of_def carried_ipv4_def group_bytes_16)
  next
    case other
    then show ?thesis using False \<open>\<not> IsLocal a\<close>
      unfolding GetGroup_def he_net_prefix[OF wf]
      by (simp add: addr_group_of_def carried_ipv4_def group_bytes_16 group_bytes_4 nibble_or xor_ff p4 p36)
  qed
qed

lemma group_code_inj:
  assumes "group_code (addr_group_of a) = group_code (addr_group_of b)" "addr_wf a" "addr_wf b"
  shows "addr_group_of a = addr_group_of b"
  using assms
  by (auto simp: addr_group_of_def nibble_or inv_defs kIpByteSize_def dest: nibble_or_inj
      arg_cong[where f = length] split: if_splits option.splits)

lemma group_code_hd: "hd (group_code g) \<le> 4"
  by (cases g) auto

text \<open>Two addresses have the same group bytes exactly when they stand for the same group, for every
  pair of families: the byte strings of different families never collide, and an IPv4 /16 carried in
  a mapped, translated, 6to4 or Teredo address is the group of the plain IPv4 address.  The family
  byte is one of the five of \<^verbatim>\<open>AddrFamily\<close>; the value 255 set for local addresses never comes out.\<close>
theorem GetGroup_separates:
  assumes "addr_wf a" "addr_wf b"
  shows "(GetGroup a = GetGroup b) = (addr_group_of a = addr_group_of b) \<and> (hd (GetGroup a) \<le> 4)"
  using assms group_code_inj[of a b] group_code_hd by (auto simp: GetGroup_code)

lemma GetGroup_separates_witness:
  "GetGroup (NetAddr_make 0 0 (kPchIpv4 @ [8, 8, 1, 1]) 1) =
   GetGroup (NetAddr_make 0 0 [0x20, 0x02, 8, 8, 0, 0, 0, 0, 0, 0, 0, 0, 0, 0, 0, 1] 2)"
proof -
  let ?a = "NetAddr_make 0 0 (kPchIpv4 @ [8, 8, 1, 1]) 1"
  let ?b = "NetAddr_make 0 0 [0x20, 0x02, 8, 8, 0, 0, 0, 0, 0, 0, 0, 0, 0, 0, 0, 1] 2"
  have "addr_wf ?a" "addr_wf ?b" "addr_group_of ?a = GIpv4 8 8" "addr_group_of ?b = GIpv4 8 8"
    by code_simp+
  then show ?thesis using GetGroup_separates[of ?a ?b] by simp
qed

subsection \<open>The order of the scores\<close>

text \<open>The scores are C++ \<^verbatim>\<open>int\<close>s and are compared as such.\<close>

fun reach_code :: "reachability \<Rightarrow> nat" where
  "reach_code kReachUnreachable = 0" | "reach_code kReachDefault = 1" | "reach_code kReachTeredo = 2"
| "reach_code kReachIpv6Weak = 3" | "reach_code kReachIpv4 = 4" | "reach_code kReachIpv6Strong = 5"
| "reach_code kReachPrivate = 6"

lemma reach_code_inj: "reach_code x = reach_code y \<Longrightarrow> x = y"
  by (cases x; cases y) simp_all

instantiation reachability :: linorder
begin

definition less_eq_reachability :: "reachability \<Rightarrow> reachability \<Rightarrow> bool" where
  "less_eq_reachability x y = (reach_code x \<le> reach_code y)"

definition less_reachability :: "reachability \<Rightarrow> reachability \<Rightarrow> bool" where
  "less_reachability x y = (reach_code x < reach_code y)"

instance
  by standard (auto simp: less_eq_reachability_def less_reachability_def dest: reach_code_inj)

end

lemma reach_least: "kReachUnreachable \<le> r" and reach_greatest: "r \<le> kReachPrivate"
  by (cases r; simp add: less_eq_reachability_def)+

text \<open>The score of an unreachable address is below the score of any routable one.\<close>

lemma reach_routable_above:
  assumes "\<not> IsRoutable a" "IsRoutable b"
  shows "GetReachability a p < GetReachability b q"
proof -
  have "GetReachability a p = kReachUnreachable" using assms by (simp add: GetReachability_def)
  moreover have "GetReachability b q \<noteq> kReachUnreachable"
    unfolding reach_rows[OF assms(2)] by (rule reach_switch_values(5))
  ultimately show ?thesis using reach_least[of "GetReachability b q"] by (simp add: less_le)
qed

text \<open>The well-known prefix of RFC 6052 is 96 bits long; the test looks at 64 of them.\<close>

lemma rfc6052_tests_64_bits:
  "IsRFC6052 (NetAddr_make 0 0 [0, 0x64, 0xff, 0x9b, 0, 0, 0, 0, 0, 0, 0, 1, 8, 8, 8, 8] 0)"
  by code_simp

subsection \<open>Update lemmas\<close>

lemma ntohs_ntohs [simp]: "ntohs (ntohs w) = w"
proof (rule bit_word_eqI)
  fix n assume "n < LENGTH(16)"
  then have "n \<in> {0, 1, 2, 3, 4, 5, 6, 7, 8, 9, 10, 11, 12, 13, 14, 15}" by simp arith
  then show "bit (ntohs (ntohs w)) n = bit w n"
    by (elim insertE) (simp_all add: ntohs_def from_big_endian_def numeral_2_eq_2 bit_simps)
qed

lemma set_bytes_from_eq:
  "length (ip a) = 16 \<Longrightarrow> i + length vs \<le> 16 \<Longrightarrow>
   set_bytes_from i vs a = Inr (a\<lparr>ip := take i (ip a) @ vs @ drop (i + length vs) (ip a)\<rparr>)"
proof (induction vs arbitrary: i a)
  case (Cons v vs)
  then have "set_bytes_from i (v # vs) a = set_bytes_from (Suc i) vs (a\<lparr>ip := (ip a)[i := v]\<rparr>)"
    by (simp add: SetByte_def)
  also have "\<dots> = Inr (a\<lparr>ip := take (Suc i) ((ip a)[i := v]) @ vs @ drop (Suc i + length vs) ((ip a)[i := v])\<rparr>)"
    using Cons.prems by (subst Cons.IH) auto
  also have "take (Suc i) ((ip a)[i := v]) = take i (ip a) @ [v]"
    using Cons.prems by (simp add: take_Suc_conv_app_nth)
  finally show ?case by (simp add: drop_update_cancel)
qed simp

lemma ip_word_set: "addr_wf a \<Longrightarrow> i < 4 \<Longrightarrow> ip_word (set_ip_word i w a) i = w"
  by (simp add: ip_word_def set_ip_word_def inv_defs kIpByteSize_def min_def from_to_little_endian)

lemma set_word_of_word:
  assumes "length b = 16"
  shows "take 12 b @ to_little_endian 4 (from_little_endian (take 4 (drop 12 b)) :: u32) = b"
proof -
  have "to_little_endian 4 (from_little_endian (take 4 (drop 12 b)) :: u32) = take 4 (drop 12 b)"
    using to_from_little_endian[of "take 4 (drop 12 b)", where 'a = 32] assms by simp
  then show ?thesis using assms by simp
qed

lemma length_kPchIpv4: "length kPchIpv4 = 12"
  by (simp add: kPchIpv4_def)

lemma SetIpv4_new: "SetIpv4 w NetAddr_new = Inr (NetAddr_new\<lparr>ip := kPchIpv4 @ to_little_endian 4 w\<rparr>)"
proof -
  have "set_bytes_from 0 kPchIpv4 NetAddr_new = Inr (NetAddr_new\<lparr>ip := kPchIpv4 @ replicate 4 0\<rparr>)"
    by (subst set_bytes_from_eq) (simp_all add: NetAddr_new_def kPchIpv4_def)
  moreover have "\<not> IsIpv4 NetAddr_new" "length (ip NetAddr_new) = 16" "length kPchIpv4 = 12"
    by (simp_all add: IsIpv4_def memcmp_eq_def kPchIpv4_def NetAddr_new_def)
  ultimately show ?thesis by (simp add: SetIpv4_def SetNByte_def set_ip_word_def)
qed

lemma SetIpv6_new: "length b = 16 \<Longrightarrow> SetIpv6 b NetAddr_new = Inr (NetAddr_new\<lparr>ip := b\<rparr>)"
  by (simp add: SetIpv6_def kIpByteSize_def) (subst set_bytes_from_eq, simp_all add: NetAddr_new_def)

text \<open>C23: An IPv4 or IPv6 address of 16 bytes with a 16-bit port survives the way through the socket structures:
  same bytes and same port, and the same scope for IPv6; services and time stamp are reset.\<close>
theorem sockaddr_roundtrip:
  assumes "addr_wf a" "port_small a" "IsIpv4 a \<or> IsIpv6 a"
  shows "(case ToSockAddr a of None \<Rightarrow> False
          | Some s \<Rightarrow> FromSockAddr s x =
              Inr (True, \<lparr>ip = ip a, na_port = na_port a, na_scope = (if IsIpv4 a then 0 else na_scope a),
                          na_services = 0, na_time = 0\<rparr>))"
proof -
  have len: "length (ip a) = 16" using assms(1) by (simp add: inv_defs kIpByteSize_def)
  have port: "ucast (ntohs (ntohs (ucast (na_port a)))) = na_port a"
    using assms(2) by (simp add: port_small_def word_less_nat_alt ucast_narrow_widen)
  show ?thesis
  proof (cases "IsIpv4 a")
    case True
    then have "take 12 (ip a) = kPchIpv4"
      unfolding IsIpv4_def memcmp_eq_def by (simp add: length_kPchIpv4)
    then have "kPchIpv4 @ to_little_endian 4 (ip_word a 3) = ip a"
      using set_word_of_word[OF len] by (simp add: ip_word_def)
    then show ?thesis using True port
      by (simp add: ToSockAddr_def FromSockAddr_def NetAddr_in_def GetIpv4_def SetIpv4_new) (simp add: NetAddr_new_def)
  next
    case False
    then show ?thesis using assms(3) port len
      by (simp add: ToSockAddr_def FromSockAddr_def NetAddr_in6_def GetIpv6_def SetIpv6_new kIpByteSize_def)
        (simp add: NetAddr_new_def)
  qed
qed


lemma sockaddr_roundtrip_witness:
  "ToSockAddr (NetAddr_make 0 0 (kPchIpv4 @ [10, 1, 2, 3]) 8333) \<noteq> None \<and>
   (case ToSockAddr (NetAddr_make 0 0 (kPchIpv4 @ [10, 1, 2, 3]) 8333) of None \<Rightarrow> False
    | Some s \<Rightarrow> FromSockAddr s NetAddr_new = Inr (True, NetAddr_make 0 0 (kPchIpv4 @ [10, 1, 2, 3]) 8333))"
proof -
  let ?a = "NetAddr_make 0 0 (kPchIpv4 @ [10, 1, 2, 3]) 8333"
  have "addr_wf ?a" "port_small ?a" "IsIpv4 ?a" by code_simp+
  moreover have "\<lparr>ip = ip ?a, na_port = na_port ?a, na_scope = 0, na_services = 0, na_time = 0\<rparr> = ?a"
    by (simp add: NetAddr_make_def)
  ultimately show ?thesis
    using sockaddr_roundtrip[of ?a NetAddr_new] by (auto split: option.splits)
qed

subsection \<open>Wire form lemmas\<close>

definition addr_wire_ok :: "net_addr \<Rightarrow> bool" where
  "addr_wire_ok a = (addr_wf a \<and> port_small a \<and> na_scope a = 0)"

lemma port_widen [simp]: "port_small a \<Longrightarrow> ucast (ucast (na_port a) :: u16) = na_port a"
  by (simp add: port_small_def word_less_nat_alt ucast_narrow_widen)

lemma u16_widen_narrow [simp]: "(ucast (ucast p :: u32) :: u16) = p"
  using unat_lt2p[of p] by (simp add: ucast_narrow_widen)

lemma port_small_ucast [simp]: "(ucast (p :: u16) :: u32) < 0x10000"
  using unat_lt2p[of p] by (simp add: word_less_nat_alt unat_ucast_up)

lemma NetAddr_dec_enc:
  assumes "addr_wire_ok a"
  shows "NetAddr_deser NetAddr_new (NetAddr_ser a @ rest) = Inr (a, rest)"
proof -
  have "length (ip NetAddr_new) = 16" "length (ip a) = 16"
    using assms by (simp_all add: NetAddr_new_def addr_wire_ok_def inv_defs kIpByteSize_def)
  then show ?thesis using assms
    by (simp add: NetAddr_deser_def NetAddr_ser_def read_append read_array_append ser_write_array_def addr_wire_ok_def)
      (simp add: NetAddr_new_def)
qed

lemma NetAddr_canon:
  assumes "NetAddr_deser NetAddr_new s = Inr (a, rest)"
  shows "addr_wire_ok a \<and> s = NetAddr_ser a @ rest"
proof -
  have l: "length (ip NetAddr_new) = 16" by (simp add: NetAddr_new_def)
  show ?thesis using assms
    by (auto simp: NetAddr_deser_def NetAddr_ser_def l res_bind_eq_Inr read_array_eq_Inr ser_write_array_def
        u16c.dec_iff[of tidy] u32c.dec_iff[of tidy] u64c.dec_iff[of tidy] addr_wire_ok_def inv_defs
        kIpByteSize_def)
      (simp_all add: NetAddr_new_def)
qed

lemma NetAddr_size [size_simps]: "addr_wf a \<Longrightarrow> length (NetAddr_ser a) = NetAddr_SerializedSize a"
  by (simp add: NetAddr_ser_def NetAddr_SerializedSize_def inv_defs ser_write_array_def)

interpretation netaddr: canon_codec NetAddr_ser "\<lambda>_. NetAddr_deser NetAddr_new" addr_wire_ok
  by unfold_locales (auto simp: NetAddr_dec_enc dest: NetAddr_canon)

interpretation netaddr_s: sized_codec NetAddr_ser "\<lambda>_. NetAddr_deser NetAddr_new" addr_wire_ok NetAddr_SerializedSize
  by unfold_locales (simp add: addr_wire_ok_def NetAddr_size)

end
