(* ===== verification/Sub_Net.thy ===== *)
theory Sub_Net
  imports Net_Addr
begin

text \<open>
  Subnets: \<^verbatim>\<open>SubNet\<close> of \<^verbatim>\<open>src/network/src/network_address.cpp\<close>, an address and a mask of sixteen
  bytes.  The lemmas describe masks and addresses by their bits, most significant first.
\<close>

subsection \<open>Construction\<close>

record subnet =
  sn_addr :: net_addr
  sn_mask :: bytes
  sn_valid :: bool

definition SubNet_new :: subnet where
  "SubNet_new = \<lparr>sn_addr = NetAddr_new, sn_mask = replicate 16 0, sn_valid = False\<rparr>"

definition SubNet_of :: "net_addr \<Rightarrow> subnet" where
  "SubNet_of a = \<lparr>sn_addr = a, sn_mask = replicate 16 0xff, sn_valid = NetAddr_IsValid a\<rparr>"

text \<open>The move constructor asks the address it has moved from (\<open>moved\<close>) whether it is valid.\<close>

definition SubNet_move :: "net_addr \<Rightarrow> net_addr \<Rightarrow> subnet" where
  "SubNet_move moved a = \<lparr>sn_addr = a, sn_mask = replicate 16 0xff, sn_valid = NetAddr_IsValid moved\<rparr>"

text \<open>\<^verbatim>\<open>for (; n < 128; ++n) netmask_[n>>3] &= ~(1<<(7-(n&7)))\<close>\<close>

definition clear_bit :: "nat \<Rightarrow> bytes \<Rightarrow> bytes" where
  "clear_bit n m = m[n div 8 := m ! (n div 8) AND NOT (push_bit (7 - n mod 8) 1)]"

function clear_bits :: "nat \<Rightarrow> bytes \<Rightarrow> bytes" where
  "clear_bits n m =
     (if n < 128 then clear_bits (Suc n) (clear_bit n m) else m)"
  by auto
termination by (relation "measure (\<lambda>(n, m). 128 - n)") auto

declare clear_bits.simps [simp del]

definition normalize :: "net_addr \<Rightarrow> bytes \<Rightarrow> net_addr" where
  "normalize a m = a\<lparr>ip := map (\<lambda>x. GetByte a x AND m ! x) [0..<16]\<rparr>"

definition first_byte :: "net_addr \<Rightarrow> nat" where
  "first_byte a = (if IsIpv4 a then 12 else 0)"

definition SubNet_bits :: "net_addr \<Rightarrow> int \<Rightarrow> subnet" where
  "SubNet_bits a nbits =
     (let ofs = first_byte a;
          (m, v) = (if 0 \<le> nbits \<and> nbits \<le> 128 - int ofs * 8
                    then (clear_bits (nat nbits + ofs * 8) (replicate 16 0xff), True)
                    else (replicate 16 0xff, False)) in
      \<lparr>sn_addr = normalize a m, sn_mask = m, sn_valid = v\<rparr>)"

definition SubNet_mask :: "net_addr \<Rightarrow> net_addr \<Rightarrow> subnet" where
  "SubNet_mask a na =
     (let ofs = first_byte a;
          m = map (\<lambda>x. if ofs \<le> x then GetByte na x else 255) [0..<16] in
      \<lparr>sn_addr = normalize a m, sn_mask = m, sn_valid = True\<rparr>)"

subsection \<open>Operations\<close>

definition SubNet_Clear :: "subnet \<Rightarrow> subnet" where
  "SubNet_Clear s = s\<lparr>sn_addr := NetAddr_Clear (sn_addr s), sn_mask := replicate (length (sn_mask s)) 0, sn_valid := False\<rparr>"

definition SubNet_eq :: "subnet \<Rightarrow> subnet \<Rightarrow> bool" where
  "SubNet_eq a b = NetAddr_eq (sn_addr a) (sn_addr b)"

definition Match :: "subnet \<Rightarrow> net_addr \<Rightarrow> bool" where
  "Match s a =
     (if \<not> sn_valid s \<or> \<not> NetAddr_IsValid a then False
      else list_all (\<lambda>i. GetByte a i AND sn_mask s ! i = GetByte (sn_addr s) i) [0..<16])"

definition NetmaskBits :: "u8 \<Rightarrow> int" where
  "NetmaskBits x =
     (if x = 0x00 then 0 else if x = 0x80 then 1 else if x = 0xc0 then 2 else if x = 0xe0 then 3
      else if x = 0xf0 then 4 else if x = 0xf8 then 5 else if x = 0xfc then 6 else if x = 0xfe then 7
      else if x = 0xff then 8 else -1)"

text \<open>The prefix length a mask stands for, as the printer scans it from the first byte on.\<close>

fun mask_cidr :: "bytes \<Rightarrow> nat option" where
  "mask_cidr [] = Some 0"
| "mask_cidr (b # bs) =
     (if b = 0xff then map_option (\<lambda>c. c + 8) (mask_cidr bs)
      else if NetmaskBits b < 0 then None
      else if list_all (\<lambda>x. x = 0x00) bs then Some (nat (NetmaskBits b)) else None)"

definition SubNet_ToString :: "(bytes \<Rightarrow> string) \<Rightarrow> subnet \<Rightarrow> string" where
  "SubNet_ToString b32 s =
     NetAddr_ToString b32 (sn_addr s) @ ''/'' @
     (case mask_cidr (drop (first_byte (sn_addr s)) (sn_mask s)) of
        Some c \<Rightarrow> show_base 10 c
      | None \<Rightarrow> if IsIpv4 (sn_addr s) then dotted (sn_mask s) else colons (sn_mask s))"

subsection \<open>Masks\<close>

lemma length_clear_bit [simp]: "length (clear_bit n m) = length m"
  by (simp add: clear_bit_def)

lemma length_clear_bits [simp]: "length (clear_bits n m) = length m"
proof (induction n m rule: clear_bits.induct)
  case (1 n m)
  then show ?case by (cases "n < 128") (subst clear_bits.simps, simp)+
qed

text \<open>Bit \<open>k\<close> of an address, counted from the most significant bit of the first byte.\<close>

definition addr_bit :: "bytes \<Rightarrow> nat \<Rightarrow> bool" where
  "addr_bit b k = bit (b ! (k div 8)) (7 - k mod 8)"

lemma addr_bit_clear_one:
  assumes "n < 128" "k < 128" "length m = 16"
  shows "addr_bit (clear_bit n m) k = (addr_bit m k \<and> k \<noteq> n)"
proof (cases "k div 8 = n div 8")
  case True
  then have "k = n \<longleftrightarrow> k mod 8 = n mod 8" by (metis div_mod_decomp)
  moreover have "7 - k mod 8 = 7 - n mod 8 \<longleftrightarrow> k mod 8 = n mod 8"
    using mod_less_divisor[of 8 k] mod_less_divisor[of 8 n] by linarith
  moreover have "7 - k mod 8 < 8" by simp
  ultimately show ?thesis using assms True by (auto simp: addr_bit_def clear_bit_def bit_simps)
qed (use assms in \<open>auto simp: addr_bit_def clear_bit_def\<close>)

lemma addr_bit_clear:
  "length m = 16 \<Longrightarrow> k < 128 \<Longrightarrow> addr_bit (clear_bits n m) k = (addr_bit m k \<and> k < n)"
proof (induction n m rule: clear_bits.induct)
  case (1 n m)
  show ?case
  proof (cases "n < 128")
    case True
    then have "addr_bit (clear_bits n m) k =
        addr_bit (clear_bits (Suc n) (clear_bit n m)) k"
      by (subst clear_bits.simps) simp
    then show ?thesis using 1 True by (auto simp: addr_bit_clear_one less_Suc_eq)
  next
    case False
    then show ?thesis using 1 by (subst clear_bits.simps) simp
  qed
qed

lemma addr_bit_ones [simp]: "k < 128 \<Longrightarrow> addr_bit (replicate 16 0xff) k"
proof -
  assume "k < 128"
  moreover have "bit (0xff :: u8) j" if "j < 8" for j
  proof -
    from that have "j \<in> {0, 1, 2, 3, 4, 5, 6, 7}" by auto
    then show ?thesis by (elim insertE) simp_all
  qed
  ultimately show ?thesis by (simp add: addr_bit_def)
qed

text \<open>Two addresses agree on every byte exactly when they agree on every bit.\<close>

lemma bytes_by_bits:
  "(\<forall>i<16. (f :: nat \<Rightarrow> u8) i = g i) = (\<forall>k<128. bit (f (k div 8)) (7 - k mod 8) = bit (g (k div 8)) (7 - k mod 8))"
proof
  assume r: "\<forall>k<128. bit (f (k div 8)) (7 - k mod 8) = bit (g (k div 8)) (7 - k mod 8)"
  show "\<forall>i<16. f i = g i"
  proof (intro allI impI bit_word_eqI)
    fix i j :: nat assume i: "i < 16" and j: "j < LENGTH(8)"
    obtain r where j': "r < 8" "7 - r = j" using j by (intro that[of "7 - j"]) auto
    define k where "k = 8 * i + r"
    have "k div 8 = i" "k mod 8 = r" "k < 128" using i j' by (simp_all add: k_def)
    moreover note j'(2)
    ultimately show "bit (f i) j = bit (g i) j" using r by metis
  qed
qed simp

lemma wf_length [simp]: "addr_wf a \<Longrightarrow> length (ip a) = 16"
  by (simp add: inv_defs kIpByteSize_def)

lemma GetByte_normalize [simp]: "i < 16 \<Longrightarrow> GetByte (normalize a m) i = GetByte a i AND m ! i"
  by (simp add: normalize_def GetByte_def)

lemma normalize_wf [simp]: "addr_wf (normalize a m)"
  by (simp add: normalize_def inv_defs kIpByteSize_def)

lemma list_all_upt: "list_all P [0..<n] = (\<forall>i<n. P i)"
  by (auto simp: list_all_iff)

lemma masked_match:
  "list_all (\<lambda>i. GetByte b i AND m ! i = GetByte (normalize a m) i) [0..<16] =
   (\<forall>k<128. addr_bit m k \<longrightarrow> addr_bit (ip b) k = addr_bit (ip a) k)"
proof -
  have "list_all (\<lambda>i. GetByte b i AND m ! i = GetByte (normalize a m) i) [0..<16] =
      (\<forall>i<16. GetByte b i AND m ! i = GetByte a i AND m ! i)"
    unfolding list_all_upt by auto
  also have "\<dots> = (\<forall>k<128. addr_bit m k \<longrightarrow> addr_bit (ip b) k = addr_bit (ip a) k)"
    unfolding bytes_by_bits by (auto simp: addr_bit_def GetByte_def bit_and_iff)
  finally show ?thesis .
qed

lemma first_byte_le: "first_byte a \<le> 12"
  by (simp add: first_byte_def)

text \<open>A subnet built from an address and a prefix length matches exactly the valid addresses that agree
  with it on the prefix, bit for bit, where the length counts from bit 96 for an IPv4 address; a
  length outside the address matches nothing.\<close>
theorem Match_prefix:
  assumes "addr_wf a" "addr_wf b"
  shows "Match (SubNet_bits a n) b =
    (0 \<le> n \<and> n \<le> 128 - 8 * int (first_byte a) \<and> NetAddr_IsValid b \<and>
     (\<forall>k < nat n + 8 * first_byte a. addr_bit (ip b) k = addr_bit (ip a) k))"
proof (cases "0 \<le> n \<and> n \<le> 128 - 8 * int (first_byte a)")
  case True
  define N where "N = nat n + first_byte a * 8"
  have N: "N \<le> 128" using True by (auto simp: N_def)
  let ?m = "clear_bits N (replicate 16 0xff)"
  have m: "addr_bit ?m k = (k < N)" if "k < 128" for k using that by (simp add: addr_bit_clear)
  have "SubNet_bits a n = \<lparr>sn_addr = normalize a ?m, sn_mask = ?m, sn_valid = True\<rparr>"
    using True by (simp add: SubNet_bits_def Let_def N_def)
  then have "Match (SubNet_bits a n) b = (NetAddr_IsValid b \<and> 
     (\<forall>k<128. addr_bit ?m k \<longrightarrow> addr_bit (ip b) k = addr_bit (ip a) k))"
    using masked_match[of b ?m a] by (simp add: Match_def)
  also have "\<dots> = (NetAddr_IsValid b \<and> (\<forall>k < N. addr_bit (ip b) k = addr_bit (ip a) k))"
    using m N by (metis order_less_le_trans)
  finally show ?thesis using True by (simp add: N_def mult.commute)
next
  case False
  then have "\<not> sn_valid (SubNet_bits a n)" by (auto simp: SubNet_bits_def Let_def mult.commute)
  then show ?thesis using False by (auto simp: Match_def)
qed

lemma all_bits_eq: "addr_wf a \<Longrightarrow> addr_wf b \<Longrightarrow> (\<forall>k<128. addr_bit (ip b) k = addr_bit (ip a) k) = (ip a = ip b)"
  using bytes_by_bits[of "\<lambda>i. ip b ! i" "\<lambda>i. ip a ! i"]
  by (auto simp: addr_bit_def list_eq_iff_nth_eq)

lemma and_ff: "x AND 0xff = (x :: u8)"
proof (rule bit_word_eqI)
  fix j assume "j < LENGTH(8)"
  then have "j \<in> {0, 1, 2, 3, 4, 5, 6, 7}" by auto
  then show "bit (x AND 0xff) j = bit x j" by (elim insertE) (simp_all add: bit_and_iff)
qed

lemma Match_single: 
  assumes "addr_wf a" "addr_wf b"
  shows "Match (SubNet_of a) b = (NetAddr_IsValid a \<and> ip a = ip b)"
proof -
  have "Match (SubNet_of a) b = (NetAddr_IsValid a \<and> NetAddr_IsValid b \<and> (\<forall>i<16. ip b ! i = ip a ! i))"
    using and_ff by (auto simp: Match_def SubNet_of_def list_all_upt GetByte_def)
  also have "(\<forall>i<16. ip b ! i = ip a ! i) = (ip b = ip a)"
    using assms by (auto simp: list_eq_iff_nth_eq)
  finally have *: "Match (SubNet_of a) b = (NetAddr_IsValid a \<and> NetAddr_IsValid b \<and> ip b = ip a)" .
  have "NetAddr_IsValid a = NetAddr_IsValid b" if "ip b = ip a"
    using that by (simp add: NetAddr_IsValid_def IsRFC3849_def IsInternal_def IsIpv4_def IsIpv6_def IsTor_def
        GetByte_def ip_word_def)
  then show ?thesis using * by auto
qed

lemma Match_prefix_witness:
  "Match (SubNet_bits (NetAddr_make 0 0 (kPchIpv4 @ [10, 1, 2, 3]) 8333) 8)
         (NetAddr_make 0 0 (kPchIpv4 @ [10, 9, 9, 9]) 8333)"
proof -
  have wf: "addr_wf (NetAddr_make 0 0 (kPchIpv4 @ [10, x, y, z]) 8333)" for x y z
    by (simp add: NetAddr_make_def inv_defs kPchIpv4_def kIpByteSize_def)
  have v4: "IsIpv4 (NetAddr_make 0 0 (kPchIpv4 @ [10, 1, 2, 3]) 8333)"
    by (simp add: NetAddr_make_def IsIpv4_def memcmp_eq_def)
  have "NetAddr_IsValid (NetAddr_make 0 0 (kPchIpv4 @ [10, 9, 9, 9]) 8333)"
    by code_simp
  moreover have "addr_bit (kPchIpv4 @ [10, 9, 9, 9]) k = addr_bit (kPchIpv4 @ [10, 1, 2, 3]) k" if "k < 104" for k
    using that by (simp add: addr_bit_def kPchIpv4_def nth_Cons' ) 
  ultimately show ?thesis
    using Match_prefix[OF wf wf, of 1 2 3 8 9 9 9] v4
    by (simp add: first_byte_def) (simp add: NetAddr_make_def)
qed

end
