(* ===== verification/Addr_Text.thy ===== *)
theory Addr_Text
  imports Sub_Net
begin

text \<open>
  The printed form of an address identifies it: numbers in base 10 and 16 are printed injectively and
  never contain the separators, so the dotted and the colon form can be read back.
\<close>

lemma digit_char_inj: "x < 16 \<Longrightarrow> y < 16 \<Longrightarrow> digit_char x = digit_char y \<Longrightarrow> x = y"
proof -
  assume "x < 16" "y < 16" "digit_char x = digit_char y"
  then have "of_char (digit_char x) = (of_char (digit_char y) :: nat)" by simp
  then show "x = y" using \<open>x < 16\<close> \<open>y < 16\<close> by (auto simp: digit_char_def split: if_splits)
qed

lemma show_base_small: "n < b \<Longrightarrow> show_base b n = [digit_char n]"
  by (subst show_base.simps) simp

lemma show_base_large: "b \<le> n \<Longrightarrow> 2 \<le> b \<Longrightarrow> show_base b n = show_base b (n div b) @ [digit_char (n mod b)]"
  by (subst show_base.simps) simp

lemma show_base_nonempty [simp]: "show_base b n \<noteq> []"
  by (subst show_base.simps) simp

lemma show_base_inj: "2 \<le> b \<Longrightarrow> b \<le> 16 \<Longrightarrow> show_base b m = show_base b n \<Longrightarrow> m = n"
proof (induction m arbitrary: n rule: less_induct)
  case (less m)
  consider "m < b" "n < b" | "m < b" "b \<le> n" | "b \<le> m" "n < b" | "b \<le> m" "b \<le> n" by linarith
  then show ?case
  proof cases
    case 4
    then have "m div b < m" using less.prems by simp
    moreover have "show_base b (m div b) = show_base b (n div b)" "digit_char (m mod b) = digit_char (n mod b)"
      using less.prems 4 by (simp_all add: show_base_large)
    moreover have "m mod b < 16" "n mod b < 16"
      using less.prems mod_less_divisor[of b m] mod_less_divisor[of b n] by linarith+
    ultimately have "m div b = n div b" "m mod b = n mod b"
      using less.IH less.prems(1,2) digit_char_inj by blast+
    then show ?thesis by (metis div_mod_decomp)
  next
    case 1
    then show ?thesis using less.prems by (auto simp: show_base_small intro: digit_char_inj)
  next
    case 2
    then show ?thesis using less.prems show_base_nonempty[of b "n div b"] by (simp add: show_base_small show_base_large)
  next
    case 3
    then show ?thesis using less.prems show_base_nonempty[of b "m div b"] by (simp add: show_base_small show_base_large)
  qed
qed

lemma show_base_chars:
  assumes "2 \<le> b" "b \<le> 16" "c \<in> set (show_base b n)"
  shows "\<exists>d<16. c = digit_char d"
  using assms(3)
proof (induction n rule: less_induct)
  case (less n)
  show ?case
  proof (cases "n < b")
    case True
    then have "c = digit_char n" "n < 16" using less.prems assms by (auto simp: show_base_small)
    then show ?thesis by blast
  next
    case False
    moreover have "n mod b < 16" using assms mod_less_divisor[of b n] by linarith
    moreover have "n div b < n" using False assms by simp
    ultimately show ?thesis using less.IH[of "n div b"] less.prems assms(1,2) by (auto simp: show_base_large)
  qed
qed

lemma digit_not_sep: "d < 16 \<Longrightarrow> digit_char d \<notin> {CHR ''.'', CHR '':'', CHR ''/''}"
proof
  assume d: "d < 16" and "digit_char d \<in> {CHR ''.'', CHR '':'', CHR ''/''}"
  then have "of_char (digit_char d) \<in> {46 :: nat, 58, 47}" by (auto simp: of_char_def)
  then show False using d by (auto simp: digit_char_def split: if_splits)
qed

lemma show_base_no_sep:
  assumes "2 \<le> b" "b \<le> 16" "c \<in> {CHR ''.'', CHR '':'', CHR ''/''}"
  shows "c \<notin> set (show_base b n)"
  using show_base_chars[OF assms(1,2), of c n] digit_not_sep assms(3) by blast

lemma split_sep: "c \<notin> set xs \<Longrightarrow> c \<notin> set ys \<Longrightarrow> xs @ c # r = ys @ c # r' \<longleftrightarrow> xs = ys \<and> r = r'"
proof (induction xs arbitrary: ys)
  case (Cons x xs)
  then show ?case by (cases ys) auto
next
  case Nil
  then show ?case by (cases ys) auto
qed

lemma dec_str_eq [simp]: "dec_str x = dec_str y \<longleftrightarrow> x = y"
  using show_base_inj[of 10 "unat x" "unat y"] by (auto simp: dec_str_def word_unat_eq_iff)

lemma two_digits: "b < k \<Longrightarrow> b' < k \<Longrightarrow> a * k + b = a' * k + b' \<Longrightarrow> a = a' \<and> b = (b' :: nat)"
proof
  assume l: "b < k" "b' < k" and e: "a * k + b = a' * k + b'"
  have "(a * k + b) div k = (a' * k + b') div k" "(a * k + b) mod k = (a' * k + b') mod k" by (simp_all only: e)
  then show "a = a'" "b = b'" using l by simp_all
qed

lemma hex16_eq [simp]: "hex16 x y = hex16 x' y' \<longleftrightarrow> x = x' \<and> y = y'"
proof
  assume "hex16 x y = hex16 x' y'"
  then have "show_base 16 (unat x * 256 + unat y) = show_base 16 (unat x' * 256 + unat y')"
    by (simp only: hex16_def)
  then have e: "unat x * 256 + unat y = unat x' * 256 + unat y'"
    by (rule show_base_inj[rotated 2]) simp_all
  moreover have "unat y < 256" "unat y' < 256" using unat_lt2p[of y] unat_lt2p[of y'] by simp_all
  ultimately have "unat x = unat x' \<and> unat y = unat y'"
    using two_digits[of "unat y" 256] by blast
  then show "x = x' \<and> y = y'" by (simp add: word_unat_eq_iff)
qed simp

lemma no_sep [simp]:
  "CHR ''.'' \<notin> set (dec_str x)" "CHR ''/'' \<notin> set (dec_str x)"
  "CHR '':'' \<notin> set (hex16 x y)" "CHR ''.'' \<notin> set (hex16 x y)" "CHR ''/'' \<notin> set (hex16 x y)"
  unfolding dec_str_def hex16_def by (rule show_base_no_sep; simp)+

lemma all_less_16: "(\<forall>i<16. P i) = (P 0 \<and> P 1 \<and> P 2 \<and> P 3 \<and> P 4 \<and> P 5 \<and> P 6 \<and> P 7 \<and> P 8 \<and> P 9 \<and>
    P 10 \<and> P 11 \<and> P 12 \<and> P 13 \<and> P 14 \<and> P (15 :: nat))"
proof -
  have "(\<forall>i<16. P i) = (\<forall>i \<in> {0, 1, 2, 3, 4, 5, 6, 7, 8, 9, 10, 11, 12, 13, 14, 15 :: nat}. P i)"
    unfolding Ball_def by (intro all_cong1 arg_cong2[where f = "(\<longrightarrow>)"] refl) (simp, arith)
  then show ?thesis by (simp only: ball_simps HOL.simp_thms)
qed

lemma dotted_eq: "dotted b = dotted c \<longleftrightarrow> b ! 12 = c ! 12 \<and> b ! 13 = c ! 13 \<and> b ! 14 = c ! 14 \<and> b ! 15 = c ! 15"
  by (simp add: dotted_def split_sep)

lemma colons_eq: "colons b = colons c \<longleftrightarrow> (\<forall>i<16. b ! i = c ! i)"
  unfolding all_less_16 colons_def by (simp add: split_sep)

lemma dotted_not_colons: "dotted b \<noteq> colons c"
proof -
  have "CHR ''.'' \<in> set (dotted b)" "CHR ''.'' \<notin> set (colons c)" by (simp_all add: dotted_def colons_def)
  then show ?thesis by metis
qed

lemma no_slash [simp]: "CHR ''/'' \<notin> set (dotted b)" "CHR ''/'' \<notin> set (colons b)"
  by (simp_all add: dotted_def colons_def)

end
