(* ===== verification/Proto_Map.thy ===== *)
theory Proto_Map
  imports Prelude "HOL-Library.AList"
begin

text \<open>
  The map of the protobuf library as its callers see it: \<^verbatim>\<open>find\<close>, \<^verbatim>\<open>insert\<close> (which keeps an entry that is
  already there), the assignment \<^verbatim>\<open>m[k] = v\<close>, \<^verbatim>\<open>erase\<close>, iteration in some order.  The locale states what
  the ban list and the peer tables rely on; its model is an association list, in iteration order.
\<close>

locale proto_map =
  fixes find :: "'m \<Rightarrow> 'k \<Rightarrow> 'v option"
    and ins :: "'k \<Rightarrow> 'v \<Rightarrow> 'm \<Rightarrow> 'm"
    and put :: "'k \<Rightarrow> 'v \<Rightarrow> 'm \<Rightarrow> 'm"
    and erase :: "'k \<Rightarrow> 'm \<Rightarrow> 'm"
  assumes find_ins: "find (ins k v m) j = (if j = k then Some (case find m k of None \<Rightarrow> v | Some w \<Rightarrow> w) else find m j)"
    and find_put: "find (put k v m) j = (if j = k then Some v else find m j)"
    and find_erase: "find (erase k m) j = (if j = k then None else find m j)"
begin

lemma find_put_ins: "find m k = None \<Longrightarrow> find (ins k v m) j = find (put k v m) j"
  by (simp add: find_ins find_put)

lemma ins_present: "find m k = Some w \<Longrightarrow> find (ins k v m) j = find m j"
  by (auto simp: find_ins)

lemma dom_ins: "dom (find (ins k v m)) = insert k (dom (find m))"
  by (auto simp: find_ins dom_def)

lemma dom_put: "dom (find (put k v m)) = insert k (dom (find m))"
  by (auto simp: find_put dom_def)

lemma dom_erase: "dom (find (erase k m)) = dom (find m) - {k}"
  by (auto simp: find_erase dom_def)

lemma find_eraseD: "find (erase k m) j = Some v \<Longrightarrow> find m j = Some v \<and> j \<noteq> k"
  by (simp add: find_erase split: if_splits)

lemma find_insD: "find (ins k v m) j = Some w \<Longrightarrow> find m j = Some w \<or> j = k \<and> w = v"
  by (auto simp: find_ins split: if_splits option.splits)

end

type_synonym ('k, 'v) pmap = "('k \<times> 'v) list"

definition pm_find :: "('k, 'v) pmap \<Rightarrow> 'k \<Rightarrow> 'v option" where
  "pm_find m k = map_of m k"

definition pm_insert :: "'k \<Rightarrow> 'v \<Rightarrow> ('k, 'v) pmap \<Rightarrow> ('k, 'v) pmap" where
  "pm_insert k v m = (case map_of m k of None \<Rightarrow> (k, v) # m | Some _ \<Rightarrow> m)"

definition pm_put :: "'k \<Rightarrow> 'v \<Rightarrow> ('k, 'v) pmap \<Rightarrow> ('k, 'v) pmap" where
  "pm_put k v m = AList.update k v m"

definition pm_erase :: "'k \<Rightarrow> ('k, 'v) pmap \<Rightarrow> ('k, 'v) pmap" where
  "pm_erase k m = AList.delete k m"

interpretation pm: proto_map pm_find pm_insert pm_put pm_erase
  by unfold_locales (auto simp: pm_find_def pm_insert_def pm_put_def pm_erase_def update_conv' delete_conv'
      split: option.splits)

definition pm_wf :: "('k, 'v) pmap \<Rightarrow> bool" where
  [inv_defs]: "pm_wf m = distinct (map fst m)"

lemma pm_wf_ops [simp]:
  "pm_wf m \<Longrightarrow> pm_wf (pm_insert k v m)" "pm_wf m \<Longrightarrow> pm_wf (pm_put k v m)" "pm_wf m \<Longrightarrow> pm_wf (pm_erase k m)"
  by (auto simp: pm_wf_def pm_insert_def pm_put_def pm_erase_def distinct_update distinct_delete
      map_of_eq_None_iff split: option.splits)

lemma pm_find_mem: "pm_wf m \<Longrightarrow> (pm_find m k = Some v) = ((k, v) \<in> set m)"
  by (simp add: pm_wf_def pm_find_def map_of_eq_Some_iff)

lemma pm_dom: "dom (pm_find m) = fst ` set m"
  by (simp add: pm_find_def[abs_def] dom_map_of_conv_image_fst)

lemma pm_size: "pm_wf m \<Longrightarrow> card (dom (pm_find m)) = length m"
  unfolding pm_dom pm_wf_def by (metis distinct_card length_map set_map)

lemma pm_find_simps [simp]: "pm_find [] k = None" "pm_wf []"
  by (simp_all add: pm_find_def pm_wf_def)

end
