(* ===== verification/Ban_List.thy ===== *)
theory Ban_List
  imports Addr_Text Proto_Map Constants
begin

text \<open>
  The ban list: \<^verbatim>\<open>src/network/src/banlist.cpp\<close>, a map from the text of a subnet to an entry of the
  protobuf library.  Times are seconds in \<^verbatim>\<open>int64_t\<close>, as integers; an operation that reads the clock
  takes what it reads as arguments (\<^verbatim>\<open>Add\<close> reads it twice).
\<close>

record ban_entry =
  be_version :: nat
  create_time :: int
  ban_until :: int
  ban_reason :: nat

definition ban_entry_default :: ban_entry where
  "ban_entry_default = \<lparr>be_version = 0, create_time = 0, ban_until = 0, ban_reason = 0\<rparr>"

datatype ban_why = kUnknown | kNodeMisbehaving | kManuallyAdded

fun ban_why_code :: "ban_why \<Rightarrow> nat" where
  "ban_why_code kUnknown = 0" | "ban_why_code kNodeMisbehaving = 1" | "ban_why_code kManuallyAdded = 2"

type_synonym ban_map = "(string, ban_entry) pmap"

definition Ban_Add_entry :: "string \<Rightarrow> ban_entry \<Rightarrow> ban_map \<Rightarrow> bool \<times> ban_map" where
  "Ban_Add_entry k e m =
     (let m1 = pm_insert k ban_entry_default m;
          old = (case pm_find m1 k of Some o1 \<Rightarrow> o1 | None \<Rightarrow> ban_entry_default) in
      if ban_until old < ban_until e then (True, pm_put k e m1) else (False, m1))"

definition Ban_Add_subnet :: "(bytes \<Rightarrow> string) \<Rightarrow> int \<times> int \<Rightarrow> subnet \<Rightarrow> ban_why \<Rightarrow> ban_map \<Rightarrow> bool \<times> ban_map" where
  "Ban_Add_subnet b32 clock sn why m =
     (let e = \<lparr>be_version = 0, create_time = fst clock,
               ban_until = snd clock + int kDefaultMisbehavingBantime, ban_reason = ban_why_code why\<rparr> in
      Ban_Add_entry (SubNet_ToString b32 sn) e m)"

definition Ban_Add :: "(bytes \<Rightarrow> string) \<Rightarrow> int \<times> int \<Rightarrow> net_addr \<Rightarrow> ban_why \<Rightarrow> ban_map \<Rightarrow> bool \<times> ban_map" where
  "Ban_Add b32 clock a why m = Ban_Add_subnet b32 clock (SubNet_of a) why m"

definition Ban_Erase_subnet :: "(bytes \<Rightarrow> string) \<Rightarrow> subnet \<Rightarrow> ban_map \<Rightarrow> bool \<times> ban_map" where
  "Ban_Erase_subnet b32 sn m =
     (let k = SubNet_ToString b32 sn in
      case pm_find m k of None \<Rightarrow> (False, m) | Some _ \<Rightarrow> (True, pm_erase k m))"

definition Ban_Erase :: "(bytes \<Rightarrow> string) \<Rightarrow> net_addr \<Rightarrow> ban_map \<Rightarrow> bool \<times> ban_map" where
  "Ban_Erase b32 a m = Ban_Erase_subnet b32 (SubNet_of a) m"

definition Ban_Clear :: "ban_map \<Rightarrow> ban_map" where
  "Ban_Clear m = []"

definition Ban_Size :: "ban_map \<Rightarrow> nat" where
  "Ban_Size m = length m"

definition Ban_IsEmpty :: "ban_map \<Rightarrow> bool" where
  "Ban_IsEmpty m = (m = [])"

text \<open>
  The loop erases the entry its iterator stands on, and then logs through the iterator and advances
  it: undefined behaviour at the first expired entry.
\<close>

fun sweep_loop :: "int \<Rightarrow> (string \<times> ban_entry) list \<Rightarrow> ban_map \<Rightarrow> ban_map res" where
  "sweep_loop now [] m = Inr m"
| "sweep_loop now ((k, e) # rest) m =
     (if ban_until e < now then Inl Undefined else sweep_loop now rest m)"

definition SweepBanned :: "int \<Rightarrow> ban_map \<Rightarrow> ban_map res" where
  "SweepBanned now m = sweep_loop now m m"

definition IsBanned :: "(bytes \<Rightarrow> string) \<Rightarrow> int \<Rightarrow> net_addr \<Rightarrow> ban_map \<Rightarrow> bool" where
  "IsBanned b32 now a m =
     (case pm_find m (SubNet_ToString b32 (SubNet_of a)) of
        Some e \<Rightarrow> if now < ban_until e then True else False
      | None \<Rightarrow> False)"

text \<open>\<^verbatim>\<open>BanDb\<close>: what the file receives (\<open>ok\<close> is the result of the protobuf writer), what it gives back.\<close>

definition DumpBanList :: "int \<Rightarrow> bool \<Rightarrow> ban_map \<Rightarrow> (bool \<times> ban_map option) res" where
  "DumpBanList now ok m =
     res_bind (SweepBanned now m) (\<lambda>m'. Inr (if \<not> ok then (False, None) else (True, Some m')))"

definition LoadBanList :: "(bool \<times> ban_map) option \<Rightarrow> ban_map \<Rightarrow> bool \<times> ban_map" where
  "LoadBanList file m =
     (let m1 = Ban_Clear m in
      case file of None \<Rightarrow> (False, m1) | Some (ok, m2) \<Rightarrow> (ok, m2))"

subsection \<open>What the list promises\<close>

text \<open>The time until which an address is banned; the default entry expires at 0.\<close>

definition banned_until :: "(bytes \<Rightarrow> string) \<Rightarrow> ban_map \<Rightarrow> net_addr \<Rightarrow> int" where
  "banned_until b32 m a =
     (case pm_find m (SubNet_ToString b32 (SubNet_of a)) of Some e \<Rightarrow> ban_until e | None \<Rightarrow> 0)"

lemma IsBanned_until: "0 \<le> now \<Longrightarrow> IsBanned b32 now a m = (now < banned_until b32 m a)"
  by (auto simp: IsBanned_def banned_until_def split: option.splits)

lemma find_Add_entry: "(case pm_find (snd (Ban_Add_entry k e m)) j of Some x \<Rightarrow> ban_until x | None \<Rightarrow> 0) =
   (let old = (case pm_find m j of Some x \<Rightarrow> ban_until x | None \<Rightarrow> 0) in if j = k then max old (ban_until e) else old)"
  by (auto simp: Ban_Add_entry_def Let_def pm.find_ins pm.find_put ban_entry_default_def split: option.splits)

definition single_text :: "net_addr \<Rightarrow> string" where
  "single_text a = (if IsIpv4 a then dotted (ip a) @ ''/32'' else colons (ip a) @ ''/128'')"

lemma show_base_consts: "show_base 10 32 = ''32''" "show_base 10 128 = ''128''"
  by code_simp+

lemma ones_cidr:
  "mask_cidr (drop 12 (replicate 16 0xff)) = Some 32" "mask_cidr (replicate 16 0xff) = Some 128"
  by code_simp+

lemma SubNet_text_single:
  assumes "IsIpv4 a \<or> IsIpv6 a"
  shows "SubNet_ToString b32 (SubNet_of a) = single_text a"
proof -
  have "\<not> IsTor a" "\<not> IsInternal a" using assms kinds_disjoint[of a] by (auto simp: IsIpv6_def)
  then show ?thesis
    using ones_cidr
    by (simp add: SubNet_ToString_def SubNet_of_def NetAddr_ToString_def single_text_def first_byte_def
        show_base_consts)
qed

lemma same_prefix_ip:
  assumes "addr_wf a" "addr_wf b" "IsIpv4 a" "IsIpv4 b"
    "ip a ! 12 = ip b ! 12" "ip a ! 13 = ip b ! 13" "ip a ! 14 = ip b ! 14" "ip a ! 15 = ip b ! 15"
  shows "ip a = ip b"
proof -
  have "take 12 (ip a) = take 12 (ip b)"
    using assms(3,4) unfolding IsIpv4_def memcmp_eq_def length_kPchIpv4 by simp
  moreover have "drop 12 (ip a) = drop 12 (ip b)"
  proof (rule nth_equalityI)
    fix i assume "i < length (drop 12 (ip a))"
    then have "i \<in> {0, 1, 2, 3}" using assms(1) by auto
    then show "drop 12 (ip a) ! i = drop 12 (ip b) ! i" using assms by auto
  qed (use assms in simp)
  ultimately show ?thesis by (metis append_take_drop_id)
qed

lemma single_text_inj:
  assumes "addr_wf a" "addr_wf b" "single_text a = single_text b"
  shows "ip a = ip b"
proof (cases "IsIpv4 a \<and> IsIpv4 b")
  case True
  then have "dotted (ip a) = dotted (ip b)" using assms(3) by (simp add: single_text_def)
  then show ?thesis using same_prefix_ip[OF assms(1,2)] True by (simp add: dotted_eq)
next
  case False
  have "CHR ''.'' \<in> set (single_text x) \<longleftrightarrow> IsIpv4 x" for x
    by (simp add: single_text_def dotted_def colons_def)
  then have "\<not> IsIpv4 a" "\<not> IsIpv4 b" using False assms(3) by metis+
  then have "colons (ip a) = colons (ip b)" using assms(3) by (simp add: single_text_def)
  then have "\<forall>i<16. ip a ! i = ip b ! i" by (simp only: colons_eq)
  then show ?thesis using assms(1,2) by (simp add: list_eq_iff_nth_eq)
qed

lemma single_text_eq: "addr_wf a \<Longrightarrow> addr_wf b \<Longrightarrow> single_text a = single_text b \<longleftrightarrow> ip a = ip b"
  using single_text_inj[of a b] by (auto simp: single_text_def IsIpv4_def)

lemmas ban_simps = Ban_Add_def Ban_Add_subnet_def Ban_Erase_def Ban_Erase_subnet_def banned_until_def SubNet_text_single

lemma ban_Add_until:
  assumes "addr_wf a" "IsIpv4 a \<or> IsIpv6 a" "addr_wf b" "IsIpv4 b \<or> IsIpv6 b"
  shows "banned_until b32 (snd (Ban_Add b32 clock a why m)) b =
    (if ip b = ip a then max (banned_until b32 m b) (snd clock + 86400) else banned_until b32 m b)"
  using assms by (auto simp: ban_simps find_Add_entry single_text_eq Let_def const_defs)

lemma ban_Erase_until:
  assumes "addr_wf a" "IsIpv4 a \<or> IsIpv6 a" "addr_wf b" "IsIpv4 b \<or> IsIpv6 b"
  shows "banned_until b32 (snd (Ban_Erase b32 a m)) b = (if ip b = ip a then 0 else banned_until b32 m b)"
  unfolding single_text_eq[OF assms(3,1), symmetric]
  using assms by (auto simp: ban_simps pm.find_erase Let_def split: option.splits)

text \<open>C19: the list bans what it was told to.  For IPv4 and IPv6 addresses, after \<^verbatim>\<open>Add\<close> exactly the addresses
  with the same sixteen bytes become banned, for a day from the clock of the call, or stay banned
  longer; after \<^verbatim>\<open>Erase\<close> exactly those are not banned; every other address is as before.  \<^verbatim>\<open>Add\<close> reports whether it prolonged the ban.\<close>
theorem ban_list_exact:
  assumes "addr_wf a" "IsIpv4 a \<or> IsIpv6 a" "addr_wf b" "IsIpv4 b \<or> IsIpv6 b" "0 \<le> now"
  shows "IsBanned b32 now b (snd (Ban_Add b32 clock a why m)) =
      (IsBanned b32 now b m \<or> ip b = ip a \<and> now < snd clock + 86400) \<and>
    IsBanned b32 now b (snd (Ban_Erase b32 a m)) = (IsBanned b32 now b m \<and> ip b \<noteq> ip a) \<and>
    fst (Ban_Add b32 clock a why m) = (banned_until b32 m a < snd clock + 86400) \<and>
    \<not> IsBanned b32 now b (Ban_Clear m)"
proof -
  have "fst (Ban_Add b32 clock a why m) = (banned_until b32 m a < snd clock + 86400)"
    using assms by (auto simp: ban_simps Ban_Add_entry_def Let_def pm.find_ins ban_entry_default_def const_defs
        split: option.splits)
  moreover have "\<not> IsBanned b32 now b (Ban_Clear m)" by (simp add: IsBanned_def Ban_Clear_def)
  ultimately show ?thesis
    using assms by (auto simp: IsBanned_until ban_Add_until ban_Erase_until)
qed

subsection \<open>Subnet bans\<close>

lemma prefix_cidr: "n < 32 \<Longrightarrow> mask_cidr (drop 12 (clear_bits (n + 96) (replicate 16 0xff))) = Some n"
proof -
  have "list_all (\<lambda>n. mask_cidr (drop 12 (clear_bits (n + 96) (replicate 16 0xff))) = Some n) [0..<32]"
    by code_simp
  then show "n < 32 \<Longrightarrow> ?thesis" by (simp add: list_all_iff)
qed

lemma normalize_ipv4:
  assumes "IsIpv4 a" "addr_wf a" "\<forall>i<12. m ! i = 0xff"
  shows "IsIpv4 (normalize a m)"
proof -
  have "take 12 (ip (normalize a m)) = take 12 (ip a)"
    using assms(2,3) and_ff by (auto simp: list_eq_iff_nth_eq normalize_def GetByte_def)
  then show ?thesis using assms(1) unfolding IsIpv4_def memcmp_eq_def length_kPchIpv4 by simp
qed

lemma clear_bits_low: "i < 12 \<Longrightarrow> 96 \<le> n \<Longrightarrow> length m = 16 \<Longrightarrow> clear_bits n m ! i = m ! i"
proof (induction n m rule: clear_bits.induct)
  case (1 n m)
  show ?case
  proof (cases "n < 128")
    case True
    have "n div 8 \<noteq> i" using "1.prems" by auto
    then have "clear_bit n m ! i = m ! i" by (simp add: clear_bit_def)
    then show ?thesis using 1 True by (subst clear_bits.simps) simp
  qed (subst clear_bits.simps, simp)
qed

lemma subnet_text:
  assumes "IsIpv4 a" "addr_wf a" "n < 32"
  shows "\<exists>d. SubNet_ToString b32 (SubNet_bits a (int n)) = dotted d @ ''/'' @ show_base 10 n"
proof -
  let ?m = "clear_bits (n + 96) (replicate 16 0xff)"
  have v4: "IsIpv4 (normalize a ?m)"
    using assms by (intro normalize_ipv4) (auto simp: clear_bits_low)
  have "SubNet_bits a (int n) = \<lparr>sn_addr = normalize a ?m, sn_mask = ?m, sn_valid = True\<rparr>"
    using assms by (simp add: SubNet_bits_def first_byte_def Let_def)
  then show ?thesis using v4 kinds_disjoint[of "normalize a ?m"] prefix_cidr[OF assms(3)]
    by (auto simp: SubNet_ToString_def NetAddr_ToString_def first_byte_def)
qed

text \<open>A ban on an IPv4 subnet shorter than 32 bits bans nobody: whatever address is asked for, inside or
  outside the subnet, \<^verbatim>\<open>IsBanned\<close> answers as before, because it looks for the text of the single address.\<close>
theorem subnet_ban_misses:
  assumes "IsIpv4 a" "addr_wf a" "n < 32" "addr_wf b" "IsIpv4 b \<or> IsIpv6 b"
  shows "IsBanned b32 now b (snd (Ban_Add_subnet b32 clock (SubNet_bits a (int n)) why m)) = IsBanned b32 now b m"
proof -
  obtain d where d: "SubNet_ToString b32 (SubNet_bits a (int n)) = dotted d @ ''/'' @ show_base 10 n"
    using subnet_text[OF assms(1-3)] by blast
  have "show_base 10 n \<noteq> ''32''" "show_base 10 n \<noteq> ''128''"
    using show_base_inj[of 10 n 32] show_base_inj[of 10 n 128] assms(3) show_base_consts by auto
  then have "single_text b \<noteq> dotted d @ ''/'' @ show_base 10 n"
    using split_sep[of "CHR ''/''" "dotted (ip b)" "dotted d" "''32''" "show_base 10 n"]
      split_sep[of "CHR ''/''" "colons (ip b)" "dotted d" "''128''" "show_base 10 n"]
    by (auto simp: single_text_def)
  then have "pm_find (snd (Ban_Add_entry (dotted d @ ''/'' @ show_base 10 n) e m)) (single_text b) =
      pm_find m (single_text b)" for e
    by (simp add: Ban_Add_entry_def Let_def pm.find_ins pm.find_put)
  then show ?thesis using assms by (simp add: IsBanned_def Ban_Add_subnet_def SubNet_text_single d Let_def)
qed

lemma sweep_loop_eq: "sweep_loop now es m = (if list_all (\<lambda>(k, e). now \<le> ban_until e) es then Inr m else Inl Undefined)"
  by (induction now es m rule: sweep_loop.induct) auto

lemma subnet_ban_misses_witness:
  "let a = NetAddr_make 0 0 (kPchIpv4 @ [10, 0, 0, 0]) 0; b = NetAddr_make 0 0 (kPchIpv4 @ [10, 1, 2, 3]) 0 in
   Match (SubNet_bits a (int 8)) b \<and>
   \<not> IsBanned (\<lambda>_. []) 5 b (snd (Ban_Add_subnet (\<lambda>_. []) (0, 0) (SubNet_bits a (int 8)) kManuallyAdded []))"
proof -
  let ?a = "NetAddr_make 0 0 (kPchIpv4 @ [10, 0, 0, 0]) 0" and ?b = "NetAddr_make 0 0 (kPchIpv4 @ [10, 1, 2, 3]) 0"
  have "addr_wf ?a" "addr_wf ?b" "IsIpv4 ?a" "IsIpv4 ?b" "Match (SubNet_bits ?a (int 8)) ?b" by code_simp+
  then show ?thesis
    using subnet_ban_misses[of ?a 8 ?b "\<lambda>_. []" 5 "(0, 0)" kManuallyAdded "[]"]
    by (simp add: Let_def IsBanned_def[of _ _ _ "[]"])
qed

lemma ban_list_exact_witness:
  "let a = NetAddr_make 0 0 (kPchIpv4 @ [10, 0, 0, 1]) 1; b = NetAddr_make 0 0 (kPchIpv4 @ [10, 0, 0, 1]) 2 in
   IsBanned (\<lambda>_. []) 86399 b (snd (Ban_Add (\<lambda>_. []) (0, 0) a kNodeMisbehaving []))"
proof -
  let ?a = "NetAddr_make 0 0 (kPchIpv4 @ [10, 0, 0, 1]) 1" and ?b = "NetAddr_make 0 0 (kPchIpv4 @ [10, 0, 0, 1]) 2"
  have "addr_wf ?a" "addr_wf ?b" "IsIpv4 ?a" "IsIpv4 ?b" "ip ?b = ip ?a" by code_simp+
  then show ?thesis
    using ban_list_exact[of ?a ?b 86399 "\<lambda>_. []" "(0, 0)" kNodeMisbehaving "[]"] by (simp add: Let_def)
qed

text \<open>Sweeping the list, and so writing it to disk, is defined only when no entry has expired, and
  then it removes nothing: with an expired entry the loop uses the iterator it has just invalidated.\<close>
theorem sweep_undefined:
  "SweepBanned now m = (if list_all (\<lambda>(k, e). now \<le> ban_until e) m then Inr m else Inl Undefined) \<and>
   DumpBanList now ok m =
     (if list_all (\<lambda>(k, e). now \<le> ban_until e) m then Inr (if ok then (True, Some m) else (False, None))
      else Inl Undefined)"
  by (simp add: SweepBanned_def DumpBanList_def sweep_loop_eq)


end
