(* ===== verification/Peers.thy ===== *)
theory Peers
  imports Sub_Net Proto_Map Constants "HOL-Library.Multiset"
begin

text \<open>
  The peer store: \<^verbatim>\<open>src/network/src/peers.cpp\<close> over the messages of \<^verbatim>\<open>peers.proto\<close>.  The three maps and the
  key vector are the state, times are seconds in \<^verbatim>\<open>int64_t\<close> as integers except where the code computes in
  \<^verbatim>\<open>uint32_t\<close>.  SHA-256 is the parameter \<open>sha\<close>; an operation takes the readings of the clock
  (\<open>clock\<close>, \<open>now\<close>), of the random source (\<open>rnd\<close>) and of the shuffle (\<open>shuf\<close>) as arguments.
  The section on the invariant shows that no sequence of calls leaves the tables inconsistent.
\<close>

record peer =
  pr_addr :: net_addr
  pr_source :: net_addr
  attempts :: u32
  last_try :: int
  last_success :: int

definition peer_time :: "peer \<Rightarrow> int" where
  "peer_time p = int (unat (na_time (pr_addr p)))"

definition addr_time :: "net_addr \<Rightarrow> int" where
  "addr_time a = int (unat (na_time a))"

definition IsTerriblePeer :: "peer \<Rightarrow> int \<Rightarrow> bool" where
  "IsTerriblePeer p now =
     (if last_try p \<noteq> 0 \<and> now - 60 \<le> last_try p then False
      else if now + 10 * 60 < peer_time p then True
      else if peer_time p = 0 \<or> kPeerHorizonDays * 24 * 60 * 60 < now - peer_time p then True
      else if last_success p = 0 \<and> kPeerRetries \<le> unat (attempts p) then True
      else if kMinPeerFailDays * 24 * 60 * 60 < now - last_success p \<and> kMaxPeerFailures \<le> unat (attempts p) then True
      else False)"

record peers =
  map_peers :: "(u64, peer) pmap"
  new_tbl :: "(u64, u64) pmap"
  tried_tbl :: "(u64, u64) pmap"
  rand_order_keys :: "u64 list"
  peers_key :: bytes

definition Peers_new :: "bytes \<Rightarrow> peers" where
  "Peers_new k = \<lparr>map_peers = [], new_tbl = [], tried_tbl = [], rand_order_keys = [], peers_key = k\<rparr>"

text \<open>The vector is created with sixteen zero bytes before the address is appended; the port is left out.\<close>

definition MakeMapKey :: "(bytes \<Rightarrow> bytes) \<Rightarrow> bytes \<Rightarrow> net_addr \<Rightarrow> bool \<Rightarrow> u64" where
  "MakeMapKey sha key a by_group =
     (let vec = (if by_group then GetGroup a else replicate kIpByteSize 0 @ map (GetByte a) [0..<kIpByteSize]) in
      from_little_endian (take 8 (sha (ser_write_array key @ ser_write_bytes vec))))"

subsection \<open>Lookup\<close>

definition Find :: "u64 \<Rightarrow> u64 \<Rightarrow> peers \<Rightarrow> (peer \<times> bool \<times> bool) option" where
  "Find map_key group_key s =
     (case pm_find (map_peers s) map_key of
        None \<Rightarrow> None
      | Some p \<Rightarrow> Some (p, pm_find (new_tbl s) group_key = Some map_key, pm_find (tried_tbl s) group_key = Some map_key))"

definition Find_addr :: "(bytes \<Rightarrow> bytes) \<Rightarrow> net_addr \<Rightarrow> peers \<Rightarrow> (peer \<times> bool \<times> bool) option" where
  "Find_addr sha a s = Find (MakeMapKey sha (peers_key s) a False) (MakeMapKey sha (peers_key s) a True) s"

text \<open>The entry of the table is looked up in the peer map and dereferenced without a test.\<close>

definition deref_peer :: "u64 \<Rightarrow> peers \<Rightarrow> peer res" where
  "deref_peer k s = (case pm_find (map_peers s) k of None \<Rightarrow> Inl Undefined | Some p \<Rightarrow> Inr p)"

definition FindSameGroup :: "u64 \<Rightarrow> peers \<Rightarrow> (peer \<times> bool \<times> u64) option res" where
  "FindSameGroup group_key s =
     (case pm_find (new_tbl s) group_key of
        Some k \<Rightarrow> res_bind (deref_peer k s) (\<lambda>p. Inr (Some (p, False, k)))
      | None \<Rightarrow>
        (case pm_find (tried_tbl s) group_key of
           Some k \<Rightarrow> res_bind (deref_peer k s) (\<lambda>p. Inr (Some (p, True, k)))
         | None \<Rightarrow> Inr None))"

fun index_of :: "'a \<Rightarrow> 'a list \<Rightarrow> nat option" where
  "index_of k [] = None"
| "index_of k (x # xs) = (if k = x then Some 0 else map_option Suc (index_of k xs))"

definition EraseRand :: "u64 \<Rightarrow> u64 list \<Rightarrow> u64 list" where
  "EraseRand k ks =
     (case index_of k ks of None \<Rightarrow> ks
      | Some pos \<Rightarrow> butlast ((ks[pos := ks ! (length ks - 1)])[length ks - 1 := ks ! pos]))"

subsection \<open>Adding\<close>

definition erase_new :: "u64 \<Rightarrow> peers \<Rightarrow> peers" where
  "erase_new g s = s\<lparr>new_tbl := pm_erase g (new_tbl s)\<rparr>"

definition erase_tried :: "u64 \<Rightarrow> peers \<Rightarrow> peers" where
  "erase_tried g s = s\<lparr>tried_tbl := pm_erase g (tried_tbl s)\<rparr>"

definition erase_peer :: "u64 \<Rightarrow> peers \<Rightarrow> peers" where
  "erase_peer k s = s\<lparr>map_peers := pm_erase k (map_peers s), rand_order_keys := EraseRand k (rand_order_keys s)\<rparr>"

definition set_peer :: "u64 \<Rightarrow> peer \<Rightarrow> peers \<Rightarrow> peers" where
  "set_peer k p s = s\<lparr>map_peers := pm_put k p (map_peers s)\<rparr>"

text \<open>
  The refresh of a known peer.  \<^verbatim>\<open>addr.timestamp() - update_interval\<close> is computed in \<^verbatim>\<open>uint32_t\<close> and
  wraps; the rest is \<^verbatim>\<open>int64_t\<close>.
\<close>

definition refresh_peer :: "int \<Rightarrow> int \<Rightarrow> net_addr \<Rightarrow> peer \<Rightarrow> peer" where
  "refresh_peer now penalty a p =
     (let online = (now - addr_time a < 24 * 60 * 60);
          interval = (if online then 60 * 60 else 24 * 60 * 60 :: u32);
          p1 = (if na_time a \<noteq> 0 \<and> (peer_time p = 0 \<or> peer_time p < int (unat (na_time a - interval)) - penalty)
                then p\<lparr>pr_addr := (pr_addr p)\<lparr>na_time := of_int (max 0 (addr_time a - penalty))\<rparr>\<rparr> else p) in
      p1\<lparr>pr_addr := (pr_addr p1)\<lparr>na_services := na_services (pr_addr p) OR na_services a\<rparr>\<rparr>)"

definition Peers_Add :: "(bytes \<Rightarrow> bytes) \<Rightarrow> int \<times> int \<Rightarrow> net_addr \<Rightarrow> net_addr \<Rightarrow> int \<Rightarrow> peers \<Rightarrow> (bool \<times> peers) res" where
  "Peers_Add sha clock a source time_penalty s =
     (let map_key = MakeMapKey sha (peers_key s) a False; group_key = MakeMapKey sha (peers_key s) a True in
      if \<not> IsRoutable a then Inr (False, s)
      else
        let penalty = (if NetAddr_eq a source then 0 else time_penalty) in
        case Find map_key group_key s of
          Some (p, is_new, is_tried) \<Rightarrow>
            if IsTerriblePeer p (fst clock) then
              let s1 = (if is_new then erase_new group_key s else if is_tried then erase_tried group_key s else s) in
              Inr (False, erase_peer map_key s1)
            else if na_time a = 0 \<or> (peer_time p \<noteq> 0 \<and> addr_time a \<le> peer_time p) then Inr (False, s)
            else Inr (False, set_peer map_key (refresh_peer (snd clock) penalty a p) s)
        | None \<Rightarrow>
            res_bind (FindSameGroup group_key s) (\<lambda>found.
            let (s1, add_new) =
              (case found of None \<Rightarrow> (s, True)
               | Some (p, is_tried, k) \<Rightarrow>
                   if IsTerriblePeer p (fst clock)
                   then (erase_peer k (if is_tried then erase_tried group_key s else erase_new group_key s), True)
                   else (s, False));
                p = \<lparr>pr_addr = a, pr_source = source, attempts = 0, last_try = 0, last_success = 0\<rparr>;
                s2 = s1\<lparr>map_peers := pm_insert map_key p (map_peers s1),
                        rand_order_keys := rand_order_keys s1 @ [map_key]\<rparr>;
                s3 = (if add_new then s2\<lparr>new_tbl := pm_insert group_key map_key (new_tbl s2)\<rparr> else s2) in
            Inr (True, s3)))"

fun Peers_Add_all ::
  "(bytes \<Rightarrow> bytes) \<Rightarrow> int \<times> int \<Rightarrow> net_addr list \<Rightarrow> net_addr \<Rightarrow> int \<Rightarrow> peers \<Rightarrow> (nat \<times> peers) res" where
  "Peers_Add_all sha clock [] source pen s = Inr (0, s)"
| "Peers_Add_all sha clock (a # as) source pen s =
     res_bind (Peers_Add sha clock a source pen s) (\<lambda>(added, s1).
     res_bind (Peers_Add_all sha clock as source pen s1) (\<lambda>(n, s2). Inr ((if added then 1 else 0) + n, s2)))"

definition Peers_Add_vec ::
  "(bytes \<Rightarrow> bytes) \<Rightarrow> int \<times> int \<Rightarrow> net_addr list \<Rightarrow> net_addr \<Rightarrow> int \<Rightarrow> peers \<Rightarrow> (bool \<times> peers) res" where
  "Peers_Add_vec sha clock as source pen s =
     res_bind (Peers_Add_all sha clock as source pen s) (\<lambda>(n, s'). Inr (0 < n, s'))"

subsection \<open>Updating known peers\<close>

definition MakeTried :: "(bytes \<Rightarrow> bytes) \<Rightarrow> net_addr \<Rightarrow> int \<Rightarrow> peers \<Rightarrow> bool \<times> peers" where
  "MakeTried sha a time s =
     (let map_key = MakeMapKey sha (peers_key s) a False; group_key = MakeMapKey sha (peers_key s) a True in
      case Find map_key group_key s of None \<Rightarrow> (False, s)
      | Some (p, is_new, is_tried) \<Rightarrow>
          if \<not> NetAddr_eq (pr_addr p) a then (False, s)
          else
            let s1 = set_peer map_key (p\<lparr>last_success := time, last_try := time, attempts := 0\<rparr>) s in
            if is_tried then (False, s1)
            else (True, s1\<lparr>tried_tbl := pm_insert group_key map_key (tried_tbl s1), new_tbl := pm_erase group_key (new_tbl s1)\<rparr>))"

definition update_known ::
  "(bytes \<Rightarrow> bytes) \<Rightarrow> net_addr \<Rightarrow> (peer \<Rightarrow> peer) \<Rightarrow> peers \<Rightarrow> bool \<times> peers" where
  "update_known sha a f s =
     (let map_key = MakeMapKey sha (peers_key s) a False; group_key = MakeMapKey sha (peers_key s) a True in
      case Find map_key group_key s of None \<Rightarrow> (False, s)
      | Some (p, is_new, is_tried) \<Rightarrow> if \<not> NetAddr_eq (pr_addr p) a then (False, s) else (True, set_peer map_key (f p) s))"

definition Peers_SetServices :: "(bytes \<Rightarrow> bytes) \<Rightarrow> net_addr \<Rightarrow> u64 \<Rightarrow> peers \<Rightarrow> bool \<times> peers" where
  "Peers_SetServices sha a sv = update_known sha a (\<lambda>p. p\<lparr>pr_addr := (pr_addr p)\<lparr>na_services := sv\<rparr>\<rparr>)"

definition Attempt :: "(bytes \<Rightarrow> bytes) \<Rightarrow> net_addr \<Rightarrow> int \<Rightarrow> peers \<Rightarrow> bool \<times> peers" where
  "Attempt sha a time = update_known sha a (\<lambda>p. p\<lparr>last_try := time, attempts := attempts p + 1\<rparr>)"

definition Peers_UpdateTime :: "(bytes \<Rightarrow> bytes) \<Rightarrow> net_addr \<Rightarrow> int \<Rightarrow> peers \<Rightarrow> bool \<times> peers" where
  "Peers_UpdateTime sha a time = update_known sha a
     (\<lambda>p. if 20 * 60 < time - peer_time p then p\<lparr>pr_addr := (pr_addr p)\<lparr>na_time := of_int time\<rparr>\<rparr> else p)"

subsection \<open>Choosing\<close>

text \<open>
  \<^verbatim>\<open>util::RandUint64(max)\<close> is \<open>rnd max\<close>, between 0 and \<open>max\<close>.  The iterator is advanced \<open>rand_pos\<close>
  times from the first entry and dereferenced.
\<close>

definition pick :: "(u64, u64) pmap \<Rightarrow> nat \<Rightarrow> peers \<Rightarrow> peer option res" where
  "pick tbl rand_pos s =
     (if rand_pos < length tbl then res_bind (deref_peer (snd (tbl ! rand_pos)) s) (\<lambda>p. Inr (Some p)) else Inl Undefined)"

definition Select :: "(nat \<Rightarrow> nat) \<Rightarrow> bool \<Rightarrow> peers \<Rightarrow> peer option res" where
  "Select rnd new_only s =
     (if length (new_tbl s) = 0 \<and> length (tried_tbl s) = 0 then Inr None
      else if new_only \<and> length (new_tbl s) = 0 then Inr None
      else if \<not> new_only \<and> 0 < length (tried_tbl s) \<and> (length (new_tbl s) = 0 \<or> rnd 1 = 0)
      then pick (tried_tbl s) (rnd (length (tried_tbl s) - 1)) s
      else pick (new_tbl s) (rnd (length (new_tbl s) - 1)) s)"

fun getaddrs_loop :: "int \<Rightarrow> nat \<Rightarrow> nat \<Rightarrow> peers \<Rightarrow> net_addr list res" where
  "getaddrs_loop now i 0 s = Inr []"
| "getaddrs_loop now i (Suc n) s =
     (if i < length (rand_order_keys s) then
        res_bind (deref_peer (rand_order_keys s ! i) s) (\<lambda>p.
        res_bind (getaddrs_loop now (Suc i) n s) (\<lambda>as.
          Inr (if \<not> IsTerriblePeer p now then pr_addr p # as else as)))
      else Inl Undefined)"

text \<open>\<^verbatim>\<open>std::random_shuffle\<close> is \<open>shuf\<close>.\<close>

definition GetAddrs :: "(u64 list \<Rightarrow> u64 list) \<Rightarrow> int \<Rightarrow> peers \<Rightarrow> (net_addr list \<times> peers) res" where
  "GetAddrs shuf now s =
     (let n = length (map_peers s);
          count = (if kMaxGetaddrPct * n div 100 < kMaxGetaddrCount then kMaxGetaddrPct * n div 100 else kMaxGetaddrCount);
          s1 = s\<lparr>rand_order_keys := shuf (rand_order_keys s)\<rparr> in
      res_bind (getaddrs_loop now 0 count s1) (\<lambda>as. Inr (as, s1)))"

subsection \<open>Clearing and loading\<close>

definition Peers_Clear :: "peers \<Rightarrow> peers" where
  "Peers_Clear s = s\<lparr>new_tbl := [], tried_tbl := [], map_peers := [], rand_order_keys := []\<rparr>"

definition Peers_Size :: "peers \<Rightarrow> nat" where
  "Peers_Size s = length (map_peers s)"

definition Peers_IsEmpty :: "peers \<Rightarrow> bool" where
  "Peers_IsEmpty s = (map_peers s = [])"

text \<open>What the protobuf parser fills in: the three maps; neither the key vector nor the key member.\<close>

definition Peers_Parse :: "bool \<times> peers \<Rightarrow> peers \<Rightarrow> bool \<times> peers" where
  "Peers_Parse file s =
     (fst file, s\<lparr>map_peers := map_peers (snd file), new_tbl := new_tbl (snd file), tried_tbl := tried_tbl (snd file)\<rparr>)"

definition LoadPeers :: "(bool \<times> peers) option \<Rightarrow> peers \<Rightarrow> bool \<times> peers" where
  "LoadPeers file s =
     (let s1 = Peers_Clear s in case file of None \<Rightarrow> (False, s1) | Some f \<Rightarrow> Peers_Parse f s1)"

definition DumpPeers :: "bool \<Rightarrow> peers \<Rightarrow> bool \<times> peers option" where
  "DumpPeers ok s = (if \<not> ok then (False, None) else (True, Some s))"

subsection \<open>Keys\<close>

lemma GetByte_cong: "ip a = ip b \<Longrightarrow> GetByte a = GetByte b"
  by (simp add: GetByte_def fun_eq_iff)

lemma ip_word_cong: "ip a = ip b \<Longrightarrow> ip_word a = ip_word b"
  by (simp add: ip_word_def fun_eq_iff)

lemma group_bytes_cong: "ip a = ip b \<Longrightarrow> group_bytes a i n = group_bytes b i n"
proof (induction a i n rule: group_bytes.induct)
  case (1 a i n)
  then show ?case
    by (subst (1 2) group_bytes.simps) (auto simp: GetByte_cong[of a b])
qed

lemma kinds_cong:
  assumes "ip a = ip b"
  shows "IsIpv4 a = IsIpv4 b" "IsTor a = IsTor b" "IsInternal a = IsInternal b" "IsIpv6 a = IsIpv6 b"
  using assms by (simp_all add: IsIpv4_def IsTor_def IsInternal_def IsIpv6_def)

lemmas rfc_defs = IsRFC1918_def IsRFC2544_def IsRFC3927_def IsRFC4862_def IsRFC6598_def IsRFC5737_def
  IsRFC4193_def IsRFC4843_def IsRFC3849_def IsRFC6145_def IsRFC6052_def IsRFC3964_def IsRFC4380_def IsLocal_def

lemma routable_cong:
  assumes "ip a = ip b"
  shows "IsRoutable a = IsRoutable b" "NetAddr_IsValid a = NetAddr_IsValid b" "IsLocal a = IsLocal b"
  by (simp_all only: IsRoutable_def NetAddr_IsValid_def rfc_defs GetByte_cong[OF assms] ip_word_cong[OF assms]
      kinds_cong[OF assms] assms)

lemma GetGroup_cong:
  assumes "ip a = ip b"
  shows "GetGroup a = GetGroup b"
  by (simp only: GetGroup_def rfc_defs GetByte_cong[OF assms] ip_word_cong[OF assms] kinds_cong[OF assms]
      routable_cong[OF assms] group_bytes_cong[OF assms])

lemma MakeMapKey_cong: "ip a = ip b \<Longrightarrow> MakeMapKey sha key a g = MakeMapKey sha key b g"
  using GetByte_cong[of a b] GetGroup_cong[of a b] by (simp add: MakeMapKey_def)

text \<open>Among the addresses \<open>S\<close>, the 64-bit key of an address determines its group key.\<close>

definition collision_free :: "(bytes \<Rightarrow> bytes) \<Rightarrow> bytes \<Rightarrow> net_addr set \<Rightarrow> bool" where
  "collision_free sha key S =
     (\<forall>a\<in>S. \<forall>b\<in>S. MakeMapKey sha key a False = MakeMapKey sha key b False \<longrightarrow>
        MakeMapKey sha key a True = MakeMapKey sha key b True)"

subsection \<open>The key vector\<close>

lemma index_of_Some: "index_of k ks = Some i \<Longrightarrow> i < length ks \<and> ks ! i = k"
  by (induction ks arbitrary: i) (auto split: if_splits)

lemma index_of_None: "index_of k ks = None \<longleftrightarrow> k \<notin> set ks"
  by (induction ks) auto

lemma mset_EraseRand: "mset (EraseRand k ks) = mset ks - {#k#}"
proof (cases "index_of k ks")
  case None
  then have "k \<notin> set ks" by (rule index_of_None[THEN iffD1])
  then show ?thesis using None by (simp add: EraseRand_def diff_single_trivial)
next
  case (Some i)
  then have i: "i < length ks" "ks ! i = k" by (simp_all add: index_of_Some)
  let ?n = "length ks - 1"
  let ?xs = "ks[i := ks ! ?n, ?n := k]"
  have "mset ?xs = mset ks" using mset_swap[of ?n ks i] i by simp
  moreover have "?xs = butlast ?xs @ [k]"
    using i by (metis append_butlast_last_id last_list_update length_greater_0_conv length_list_update
        list.size(3) not_less_zero)
  ultimately have "mset ks = mset (butlast ?xs) + {#k#}" by (metis mset.simps(1) mset.simps(2) union_code)
  then show ?thesis using Some i by (simp add: EraseRand_def)
qed

lemma EraseRand_distinct:
  assumes "distinct ks"
  shows "distinct (EraseRand k ks)" "set (EraseRand k ks) = set ks - {k}"
proof -
  have "distinct (EraseRand k ks) \<and> set (EraseRand k ks) = set ks - {k}"
  proof (cases "k \<in> set ks")
    case True
    then have "mset (EraseRand k ks @ [k]) = mset ks" by (simp add: mset_EraseRand)
    then have "distinct (EraseRand k ks @ [k])" "set (EraseRand k ks @ [k]) = set ks"
      using assms mset_eq_imp_distinct_iff mset_eq_setD by blast+
    then show ?thesis by auto
  next
    case False
    then show ?thesis using assms by (simp add: EraseRand_def index_of_None[THEN iffD2])
  qed
  then show "distinct (EraseRand k ks)" "set (EraseRand k ks) = set ks - {k}" by auto
qed

subsection \<open>The invariant of the tables\<close>

text \<open>
  Every peer is stored under the key of its address; the key vector lists exactly the stored keys,
  once each; a group has at most one entry in the two tables together, and the entry leads to a stored
  peer of that group.
\<close>

definition tables_ok :: "(bytes \<Rightarrow> bytes) \<Rightarrow> peers \<Rightarrow> bool" where
  [inv_defs]: "tables_ok sha s =
     (dom (pm_find (new_tbl s)) \<inter> dom (pm_find (tried_tbl s)) = {} \<and>
      (\<forall>g k. pm_find (new_tbl s) g = Some k \<or> pm_find (tried_tbl s) g = Some k \<longrightarrow>
        (\<exists>p. pm_find (map_peers s) k = Some p \<and> MakeMapKey sha (peers_key s) (pr_addr p) True = g)))"

definition peers_ok :: "(bytes \<Rightarrow> bytes) \<Rightarrow> net_addr set \<Rightarrow> peers \<Rightarrow> bool" where
  [inv_defs]: "peers_ok sha S s =
     (\<forall>k p. pm_find (map_peers s) k = Some p \<longrightarrow>
        MakeMapKey sha (peers_key s) (pr_addr p) False = k \<and> (\<exists>a\<in>S. ip (pr_addr p) = ip a))"

definition peers_inv :: "(bytes \<Rightarrow> bytes) \<Rightarrow> net_addr set \<Rightarrow> peers \<Rightarrow> bool" where
  "peers_inv sha S s =
     (pm_wf (map_peers s) \<and> pm_wf (new_tbl s) \<and> pm_wf (tried_tbl s) \<and>
      distinct (rand_order_keys s) \<and> set (rand_order_keys s) = dom (pm_find (map_peers s)) \<and>
      tables_ok sha s \<and> peers_ok sha S s)"

lemma tables_okI:
  assumes "\<And>g k k'. pm_find (new_tbl s) g = Some k \<Longrightarrow> pm_find (tried_tbl s) g = Some k' \<Longrightarrow> False"
    and "\<And>g k. pm_find (new_tbl s) g = Some k \<or> pm_find (tried_tbl s) g = Some k \<Longrightarrow>
      \<exists>p. pm_find (map_peers s) k = Some p \<and> MakeMapKey sha (peers_key s) (pr_addr p) True = g"
  shows "tables_ok sha s"
  unfolding tables_ok_def using assms by (auto simp: disjoint_iff)

lemma tables_okD:
  assumes "tables_ok sha s" "pm_find (new_tbl s) g = Some k \<or> pm_find (tried_tbl s) g = Some k"
  obtains p where "pm_find (map_peers s) k = Some p" "MakeMapKey sha (peers_key s) (pr_addr p) True = g"
  using assms unfolding tables_ok_def by blast

lemma tables_ok_ex:
  "tables_ok sha s \<Longrightarrow> pm_find (new_tbl s) g = Some k \<or> pm_find (tried_tbl s) g = Some k \<Longrightarrow>
   \<exists>p. pm_find (map_peers s) k = Some p \<and> MakeMapKey sha (peers_key s) (pr_addr p) True = g"
  unfolding tables_ok_def by blast

lemma tables_ok_disjoint:
  "tables_ok sha s \<Longrightarrow> pm_find (new_tbl s) g = Some k \<Longrightarrow> pm_find (tried_tbl s) g = Some k' \<Longrightarrow> False"
  unfolding tables_ok_def by blast

lemma peers_inv_new: "peers_inv sha S (Peers_new key)"
  by (simp add: peers_inv_def Peers_new_def tables_ok_def peers_ok_def dom_def)

lemma set_peer_inv:
  assumes "peers_inv sha S s" "pm_find (map_peers s) k = Some p" "ip (pr_addr p') = ip (pr_addr p)"
  shows "peers_inv sha S (set_peer k p' s)"
proof -
  have key: "MakeMapKey sha (peers_key s) (pr_addr p') g = MakeMapKey sha (peers_key s) (pr_addr p) g" for g
    using assms(3) by (rule MakeMapKey_cong)
  have tok: "tables_ok sha s" using assms(1) by (simp add: peers_inv_def)
  have "tables_ok sha (set_peer k p' s)"
  proof (rule tables_okI)
    fix g j assume "pm_find (new_tbl (set_peer k p' s)) g = Some j \<or> pm_find (tried_tbl (set_peer k p' s)) g = Some j"
    then obtain q where "pm_find (map_peers s) j = Some q" "MakeMapKey sha (peers_key s) (pr_addr q) True = g"
      using tok by (auto simp: set_peer_def elim: tables_okD)
    then show "\<exists>p. pm_find (map_peers (set_peer k p' s)) j = Some p \<and>
        MakeMapKey sha (peers_key (set_peer k p' s)) (pr_addr p) True = g"
      using assms(2) key by (auto simp: set_peer_def pm.find_put)
  qed (use tok in \<open>auto simp: set_peer_def dest: tables_ok_disjoint\<close>)
  moreover have "peers_ok sha S (set_peer k p' s)"
    using assms key unfolding peers_inv_def peers_ok_def by (simp add: set_peer_def pm.find_put)
  moreover have "insert k (dom (pm_find (map_peers s))) = dom (pm_find (map_peers s))" using assms(2) by auto
  ultimately show ?thesis using assms(1) by (simp add: peers_inv_def set_peer_def pm.dom_put)
qed

text \<open>Forgetting a peer together with the table entry of its group.\<close>

lemma drop_inv:
  assumes inv: "peers_inv sha S s" and p: "pm_find (map_peers s) k = Some p"
    and g: "MakeMapKey sha (peers_key s) (pr_addr p) True = g"
    and t: "t = s \<or> t = erase_new g s \<or> t = erase_tried g s"
    and gone: "pm_find (new_tbl t) g \<noteq> Some k" "pm_find (tried_tbl t) g \<noteq> Some k"
  shows "peers_inv sha S (erase_peer k t)"
proof -
  have same: "map_peers t = map_peers s" "rand_order_keys t = rand_order_keys s" "peers_key t = peers_key s"
    using t by (auto simp: erase_new_def erase_tried_def)
  have wf: "pm_wf (map_peers t)" "pm_wf (new_tbl t)" "pm_wf (tried_tbl t)"
    using inv t by (auto simp: peers_inv_def erase_new_def erase_tried_def)
  have sub: "pm_find (new_tbl t) g' = Some k' \<Longrightarrow> pm_find (new_tbl s) g' = Some k'"
    "pm_find (tried_tbl t) g' = Some k' \<Longrightarrow> pm_find (tried_tbl s) g' = Some k'" for g' k'
    using t by (auto simp: erase_new_def erase_tried_def pm.find_erase split: if_splits)
  have tok: "tables_ok sha s" using inv by (simp add: peers_inv_def)
  have "tables_ok sha (erase_peer k t)"
  proof (rule tables_okI)
    fix g' k' assume a: "pm_find (new_tbl (erase_peer k t)) g' = Some k' \<or> pm_find (tried_tbl (erase_peer k t)) g' = Some k'"
    then have "pm_find (new_tbl s) g' = Some k' \<or> pm_find (tried_tbl s) g' = Some k'"
      using sub by (auto simp: erase_peer_def)
    then obtain p' where p': "pm_find (map_peers s) k' = Some p'" "MakeMapKey sha (peers_key s) (pr_addr p') True = g'"
      by (rule tables_okD[OF tok])
    then have "k' \<noteq> k" using a p g gone by (auto simp: erase_peer_def)
    then show "\<exists>p. pm_find (map_peers (erase_peer k t)) k' = Some p \<and>
        MakeMapKey sha (peers_key (erase_peer k t)) (pr_addr p) True = g'"
      using p' same by (simp add: erase_peer_def pm.find_erase)
  next
    fix g' k1 k2
    assume "pm_find (new_tbl (erase_peer k t)) g' = Some k1" "pm_find (tried_tbl (erase_peer k t)) g' = Some k2"
    then show False using tables_ok_disjoint[OF tok sub(1) sub(2)] by (simp add: erase_peer_def)
  qed
  moreover have "peers_ok sha S (erase_peer k t)"
    using inv same by (simp add: peers_inv_def peers_ok_def erase_peer_def pm.find_erase)
  ultimately show ?thesis
    using inv wf same by (simp add: peers_inv_def erase_peer_def EraseRand_distinct pm.dom_erase)
qed

text \<open>A new peer, with or without an entry in the table of new peers.\<close>

lemma insert_inv:
  assumes inv: "peers_inv sha S s" and k: "pm_find (map_peers s) k = None" "MakeMapKey sha (peers_key s) (pr_addr p) False = k"
    and a: "a \<in> S" "ip (pr_addr p) = ip a" and g: "MakeMapKey sha (peers_key s) (pr_addr p) True = g"
    and n: "nt = new_tbl s \<or> (nt = pm_insert g k (new_tbl s) \<and> pm_find (new_tbl s) g = None \<and> pm_find (tried_tbl s) g = None)"
  shows "peers_inv sha S (s\<lparr>map_peers := pm_insert k p (map_peers s), rand_order_keys := rand_order_keys s @ [k], new_tbl := nt\<rparr>)"
    (is "peers_inv sha S ?t")
proof -
  have tok: "tables_ok sha s" using inv by (simp add: peers_inv_def)
  have nt: "pm_find nt g' = Some k' \<Longrightarrow> pm_find (new_tbl s) g' = Some k' \<or> g' = g \<and> k' = k \<and> pm_find (tried_tbl s) g = None" for g' k'
    using n pm.find_insD by fastforce
  have "tables_ok sha ?t"
  proof (rule tables_okI)
    fix g' k' assume "pm_find (new_tbl ?t) g' = Some k' \<or> pm_find (tried_tbl ?t) g' = Some k'"
    then have "(pm_find (new_tbl s) g' = Some k' \<or> pm_find (tried_tbl s) g' = Some k') \<or> g' = g \<and> k' = k"
      using nt by auto
    then show "\<exists>p. pm_find (map_peers ?t) k' = Some p \<and> MakeMapKey sha (peers_key ?t) (pr_addr p) True = g'"
    proof (elim disjE[of "_ \<or> _"])
      assume "pm_find (new_tbl s) g' = Some k' \<or> pm_find (tried_tbl s) g' = Some k'"
      then obtain q where "pm_find (map_peers s) k' = Some q" "MakeMapKey sha (peers_key s) (pr_addr q) True = g'"
        by (rule tables_okD[OF tok])
      then show ?thesis using k(1) by (auto simp: pm.find_ins)
    next
      assume "g' = g \<and> k' = k"
      then show ?thesis using g k(1) by (simp add: pm.find_ins)
    qed
  qed (use nt tok in \<open>fastforce dest: tables_ok_disjoint\<close>)
  moreover have "peers_ok sha S ?t"
    using inv k a unfolding peers_inv_def peers_ok_def by (auto simp: pm.find_ins split: if_splits)
  moreover have "pm_wf nt" using inv n by (auto simp: peers_inv_def)
  moreover have "k \<notin> set (rand_order_keys s)" using inv k(1) by (auto simp: peers_inv_def)
  ultimately show ?thesis using inv by (simp add: peers_inv_def pm.dom_ins)
qed

subsection \<open>The operations keep the invariant\<close>

lemma peers_inv_tables [dest]: "peers_inv sha S s \<Longrightarrow> tables_ok sha s"
  by (simp add: peers_inv_def)

lemma peers_inv_peer:
  assumes "peers_inv sha S s" "pm_find (map_peers s) k = Some p"
  obtains b where "b \<in> S" "ip (pr_addr p) = ip b" "MakeMapKey sha (peers_key s) b False = k"
  using assms MakeMapKey_cong unfolding peers_inv_def peers_ok_def by metis

text \<open>The entry of a group found in one of the tables, and the state without that entry.\<close>

definition forget_group :: "bool \<Rightarrow> u64 \<Rightarrow> peers \<Rightarrow> peers" where
  "forget_group is_tried g s = (if is_tried then erase_tried g s else erase_new g s)"

lemma forget_group_sel [simp]:
  "map_peers (forget_group t g s) = map_peers s" "rand_order_keys (forget_group t g s) = rand_order_keys s"
  "peers_key (forget_group t g s) = peers_key s"
  by (simp_all add: forget_group_def erase_new_def erase_tried_def)

lemma FindSameGroup_ok:
  assumes "peers_inv sha S s"
  obtains (none) "FindSameGroup g s = Inr None" "pm_find (new_tbl s) g = None" "pm_find (tried_tbl s) g = None"
    | (found) p t k where "FindSameGroup g s = Inr (Some (p, t, k))" "pm_find (map_peers s) k = Some p"
        "MakeMapKey sha (peers_key s) (pr_addr p) True = g"
        "pm_find (new_tbl (forget_group t g s)) g = None" "pm_find (tried_tbl (forget_group t g s)) g = None"
proof (cases "pm_find (new_tbl s) g")
  case None
  show ?thesis
  proof (cases "pm_find (tried_tbl s) g")
    case (Some k)
    then obtain p where "pm_find (map_peers s) k = Some p" "MakeMapKey sha (peers_key s) (pr_addr p) True = g"
      using tables_okD[of sha s g k] assms by blast
    then show ?thesis using None Some found[of p True k]
      by (simp add: FindSameGroup_def deref_peer_def forget_group_def erase_tried_def pm.find_erase)
  qed (use None none in \<open>simp add: FindSameGroup_def\<close>)
next
  case (Some k)
  then obtain p where p: "pm_find (map_peers s) k = Some p" "MakeMapKey sha (peers_key s) (pr_addr p) True = g"
    using tables_okD[of sha s g k] assms by blast
  have "pm_find (tried_tbl s) g = None"
    using tables_ok_disjoint[of sha s g k] assms Some by (cases "pm_find (tried_tbl s) g") auto
  then show ?thesis using Some p found[of p False k]
    by (simp add: FindSameGroup_def deref_peer_def forget_group_def erase_new_def pm.find_erase)
qed

lemma refresh_ip [simp]: "ip (pr_addr (refresh_peer now pen a p)) = ip (pr_addr p)"
  by (simp add: refresh_peer_def Let_def)

definition fresh_peer :: "net_addr \<Rightarrow> net_addr \<Rightarrow> peer" where
  "fresh_peer a source = \<lparr>pr_addr = a, pr_source = source, attempts = 0, last_try = 0, last_success = 0\<rparr>"

text \<open>Adding an address that is not known: the new peer is stored, whatever happens to its group.\<close>

lemma Peers_Add_unknown:
  assumes inv: "peers_inv sha S s" and a: "a \<in> S" and r: "IsRoutable a"
    and k: "pm_find (map_peers s) (MakeMapKey sha (peers_key s) a False) = None"
  obtains s' where "Peers_Add sha clock a src pen s = Inr (True, s')" "peers_inv sha S s'" "peers_key s' = peers_key s"
    "pm_find (map_peers s') (MakeMapKey sha (peers_key s) a False) = Some (fresh_peer a src)"
proof -
  let ?k = "MakeMapKey sha (peers_key s) a False" and ?g = "MakeMapKey sha (peers_key s) a True"
  have known: "Find ?k ?g s = None" using k by (simp add: Find_def)
  define result where "result s1 nt = s1\<lparr>map_peers := pm_insert ?k (fresh_peer a src) (map_peers s1),
      rand_order_keys := rand_order_keys s1 @ [?k], new_tbl := nt\<rparr>" for s1 :: peers and nt
  have result: "peers_inv sha S (result s1 nt)"
      "pm_find (map_peers (result s1 nt)) ?k = Some (fresh_peer a src)" "peers_key (result s1 nt) = peers_key s"
    if "peers_inv sha S s1" "pm_find (map_peers s1) ?k = None" "peers_key s1 = peers_key s"
      "nt = new_tbl s1 \<or> nt = pm_insert ?g ?k (new_tbl s1) \<and> pm_find (new_tbl s1) ?g = None \<and> pm_find (tried_tbl s1) ?g = None"
    for s1 nt
    using that a insert_inv[of sha S s1 ?k "fresh_peer a src" a ?g nt]
    by (auto simp: result_def fresh_peer_def pm.find_ins)
  note goal = that
  have finish: thesis
    if "Peers_Add sha clock a src pen s = Inr (True, result s1 nt)" "peers_inv sha S s1"
      "pm_find (map_peers s1) ?k = None" "peers_key s1 = peers_key s"
      "nt = new_tbl s1 \<or> nt = pm_insert ?g ?k (new_tbl s1) \<and> pm_find (new_tbl s1) ?g = None \<and> pm_find (tried_tbl s1) ?g = None"
    for s1 nt
    by (rule goal[OF that(1)]) (use result[OF that(2-5)] in simp_all)
  have keep: "s1\<lparr>map_peers := m, rand_order_keys := r, new_tbl := new_tbl s1\<rparr> = s1\<lparr>map_peers := m, rand_order_keys := r\<rparr>"
    for s1 :: peers and m r by (cases s1) simp
  note add_simps = Peers_Add_def Let_def result_def fresh_peer_def known r keep
  show thesis
  proof (cases rule: FindSameGroup_ok[OF inv, of ?g, case_names none found])
    case none
    then show thesis using inv k by (intro finish[of s "pm_insert ?g ?k (new_tbl s)"]) (simp_all add: add_simps)
  next
    case (found p t j)
    let ?e = "erase_peer j (forget_group t ?g s)"
    show thesis
    proof (cases "IsTerriblePeer p (fst clock)")
      case True
      have "peers_inv sha S ?e"
        by (rule drop_inv[OF inv found(2,3)]) (use found in \<open>auto simp: forget_group_def\<close>)
      then show thesis using found True k
        by (intro finish[of ?e "pm_insert ?g ?k (new_tbl ?e)"])
          (simp_all add: add_simps forget_group_def erase_peer_def erase_new_def erase_tried_def pm.find_erase)
    next
      case False
      then show thesis using found inv k by (intro finish[of s "new_tbl s"]) (simp_all add: add_simps)
    qed
  qed
qed

text \<open>Adding an address that is known, or not routable.\<close>

lemma Peers_Add_known:
  assumes inv: "peers_inv sha S s" and cf: "collision_free sha (peers_key s) S" and a: "a \<in> S"
    and k: "pm_find (map_peers s) (MakeMapKey sha (peers_key s) a False) = Some p \<or> \<not> IsRoutable a"
  obtains s' where "Peers_Add sha clock a src pen s = Inr (False, s')" "peers_inv sha S s'" "peers_key s' = peers_key s"
proof (cases "IsRoutable a")
  case False
  then show ?thesis using that[of s] inv by (simp add: Peers_Add_def Let_def)
next
  case True
  let ?k = "MakeMapKey sha (peers_key s) a False" and ?g = "MakeMapKey sha (peers_key s) a True"
  let ?new = "pm_find (new_tbl s) ?g = Some ?k" and ?tried = "pm_find (tried_tbl s) ?g = Some ?k"
  have p: "pm_find (map_peers s) ?k = Some p" using k True by blast
  obtain b where b: "b \<in> S" "ip (pr_addr p) = ip b" "MakeMapKey sha (peers_key s) b False = ?k"
    using peers_inv_peer[OF inv p] .
  then have g: "MakeMapKey sha (peers_key s) (pr_addr p) True = ?g"
    using cf a MakeMapKey_cong[of "pr_addr p" b] unfolding collision_free_def by metis
  have f: "Find ?k ?g s = Some (p, ?new, ?tried)" using p by (simp add: Find_def)
  show ?thesis
  proof (cases "IsTerriblePeer p (fst clock)")
    case True
    let ?t = "if ?new then erase_new ?g s else if ?tried then erase_tried ?g s else s"
    have "\<not> (?new \<and> ?tried)" using inv tables_ok_disjoint by blast
    then have "peers_inv sha S (erase_peer ?k ?t)"
      by (intro drop_inv[OF inv p g]) (auto simp: erase_new_def erase_tried_def pm.find_erase)
    then show ?thesis
      using that[of "erase_peer ?k ?t"] True \<open>IsRoutable a\<close> f
      by (simp add: Peers_Add_def Let_def erase_peer_def erase_new_def erase_tried_def)
  next
    case False
    let ?p = "refresh_peer (snd clock) (if NetAddr_eq a src then 0 else pen) a p"
    have upd: "peers_inv sha S (set_peer ?k ?p s)" by (rule set_peer_inv[OF inv p]) simp
    show ?thesis
    proof (cases "na_time a = 0 \<or> peer_time p \<noteq> 0 \<and> addr_time a \<le> peer_time p")
      case True
      then show ?thesis using that[of s] False \<open>IsRoutable a\<close> f inv by (simp add: Peers_Add_def Let_def)
    next
      case fresh: False
      then have "Peers_Add sha clock a src pen s = Inr (False, set_peer ?k ?p s)"
        using False \<open>IsRoutable a\<close> f by (auto simp: Peers_Add_def Let_def)
      then show ?thesis using that upd by (simp add: set_peer_def)
    qed
  qed
qed

lemma peers_known_group:
  assumes "peers_inv sha S s" "collision_free sha (peers_key s) S" "a \<in> S"
    "pm_find (map_peers s) (MakeMapKey sha (peers_key s) a False) = Some p"
  shows "MakeMapKey sha (peers_key s) (pr_addr p) True = MakeMapKey sha (peers_key s) a True"
proof -
  obtain b where "b \<in> S" "ip (pr_addr p) = ip b"
    "MakeMapKey sha (peers_key s) b False = MakeMapKey sha (peers_key s) a False"
    using peers_inv_peer[OF assms(1,4)] .
  then show ?thesis using assms(2,3) MakeMapKey_cong[of "pr_addr p" b] unfolding collision_free_def by metis
qed

lemma set_peer_sel [simp]: "peers_key (set_peer k p s) = peers_key s" "new_tbl (set_peer k p s) = new_tbl s"
  "tried_tbl (set_peer k p s) = tried_tbl s" "pm_find (map_peers (set_peer k p s)) k = Some p"
  by (simp_all add: set_peer_def pm.find_put)

lemma update_known_inv:
  assumes "peers_inv sha S s" "\<And>p. ip (pr_addr (f p)) = ip (pr_addr p)"
  shows "peers_inv sha S (snd (update_known sha a f s)) \<and> peers_key (snd (update_known sha a f s)) = peers_key s"
  using assms set_peer_inv[OF assms(1)]
  by (auto simp: update_known_def Let_def Find_def split: option.splits)

text \<open>Moving a group from the table of new peers to the table of tried ones.\<close>

lemma move_inv:
  assumes inv: "peers_inv sha S s" and p: "pm_find (map_peers s) k = Some p" "MakeMapKey sha (peers_key s) (pr_addr p) True = g"
  shows "peers_inv sha S (s\<lparr>tried_tbl := pm_insert g k (tried_tbl s), new_tbl := pm_erase g (new_tbl s)\<rparr>)"
    (is "peers_inv sha S ?t")
proof -
  have tok: "tables_ok sha s" using inv by blast
  have "tables_ok sha ?t"
  proof (rule tables_okI)
    fix g' k' assume "pm_find (new_tbl ?t) g' = Some k' \<or> pm_find (tried_tbl ?t) g' = Some k'"
    then have "(pm_find (new_tbl s) g' = Some k' \<or> pm_find (tried_tbl s) g' = Some k') \<or> g' = g \<and> k' = k"
      by (auto dest: pm.find_eraseD pm.find_insD)
    then show "\<exists>p. pm_find (map_peers ?t) k' = Some p \<and> MakeMapKey sha (peers_key ?t) (pr_addr p) True = g'"
      using p tables_ok_ex[OF tok, of g' k'] by auto
  next
    fix g' k1 k2 assume "pm_find (new_tbl ?t) g' = Some k1" "pm_find (tried_tbl ?t) g' = Some k2"
    then have "pm_find (new_tbl s) g' = Some k1" "pm_find (tried_tbl s) g' = Some k2"
      by (auto simp: pm.find_erase pm.find_ins split: if_splits)
    then show False using tables_ok_disjoint[OF tok] by blast
  qed
  then show ?thesis using inv by (simp add: peers_inv_def peers_ok_def)
qed

lemma MakeTried_inv:
  assumes inv: "peers_inv sha S s" and cf: "collision_free sha (peers_key s) S" "a \<in> S"
  shows "peers_inv sha S (snd (MakeTried sha a time s)) \<and> peers_key (snd (MakeTried sha a time s)) = peers_key s"
proof (cases "pm_find (map_peers s) (MakeMapKey sha (peers_key s) a False)")
  case (Some p)
  let ?k = "MakeMapKey sha (peers_key s) a False" and ?g = "MakeMapKey sha (peers_key s) a True"
  let ?p = "p\<lparr>last_success := time, last_try := time, attempts := 0\<rparr>"
  let ?s = "set_peer ?k ?p s"
  have upd: "peers_inv sha S ?s" using Some by (intro set_peer_inv[OF inv]) simp_all
  have "MakeMapKey sha (peers_key s) (pr_addr p) True = ?g" using peers_known_group[OF inv cf Some] .
  then have "peers_inv sha S (?s\<lparr>tried_tbl := pm_insert ?g ?k (tried_tbl ?s), new_tbl := pm_erase ?g (new_tbl ?s)\<rparr>)"
    by (intro move_inv[OF upd, of _ ?p]) simp_all
  then show ?thesis using Some upd inv by (auto simp: MakeTried_def Let_def Find_def)
qed (use inv in \<open>simp add: MakeTried_def Let_def Find_def\<close>)

lemma pick_ok:
  assumes inv: "peers_inv sha S s" and "tbl = new_tbl s \<or> tbl = tried_tbl s" "pos < length tbl"
  shows "\<exists>p k. pick tbl pos s = Inr (Some p) \<and> pm_find (map_peers s) k = Some p \<and>
    (MakeMapKey sha (peers_key s) (pr_addr p) True, k) \<in> set tbl"
proof -
  obtain g k where e: "tbl ! pos = (g, k)" by fastforce
  then have mem: "(g, k) \<in> set tbl" using assms(3) nth_mem by metis
  then have "pm_find (new_tbl s) g = Some k \<or> pm_find (tried_tbl s) g = Some k"
    using assms inv by (auto simp: peers_inv_def pm_find_mem)
  then obtain p where "pm_find (map_peers s) k = Some p" "MakeMapKey sha (peers_key s) (pr_addr p) True = g"
    using tables_okD inv by blast
  then show ?thesis using assms(3) e mem by (auto simp: pick_def deref_peer_def)
qed

lemma Select_ok:
  assumes inv: "peers_inv sha S s" and rnd: "\<forall>m. rnd m \<le> m"
  shows "\<exists>r. Select rnd new_only s = Inr r \<and>
    (r = None) = (new_tbl s = [] \<and> (new_only \<or> tried_tbl s = [])) \<and>
    (\<forall>p. r = Some p \<longrightarrow> (\<exists>k. pm_find (map_peers s) k = Some p \<and>
      (MakeMapKey sha (peers_key s) (pr_addr p) True, k) \<in> set (if new_only then new_tbl s else new_tbl s @ tried_tbl s)))"
proof -
  have pos: "rnd (length tbl - 1) < length tbl" if "tbl \<noteq> []" for tbl :: "(u64, u64) pmap"
    using rnd[rule_format, of "length tbl - 1"] that by (cases tbl) auto
  have pick: "\<exists>p k. pick tbl (rnd (length tbl - 1)) s = Inr (Some p) \<and> pm_find (map_peers s) k = Some p \<and>
      (MakeMapKey sha (peers_key s) (pr_addr p) True, k) \<in> set tbl"
    if "tbl = new_tbl s \<or> tbl = tried_tbl s" "tbl \<noteq> []" for tbl
    using pick_ok[OF inv that(1)] pos[OF that(2)] by blast
  consider (none) "new_tbl s = [] \<and> (new_only \<or> tried_tbl s = [])"
    | (tried) "\<not> new_only" "tried_tbl s \<noteq> []" "new_tbl s = [] \<or> rnd 1 = 0"
    | (new) "new_tbl s \<noteq> []" "new_only \<or> tried_tbl s = [] \<or> rnd 1 \<noteq> 0" by blast
  then show ?thesis
  proof cases
    case tried
    then obtain p k where "pick (tried_tbl s) (rnd (length (tried_tbl s) - 1)) s = Inr (Some p)"
      "pm_find (map_peers s) k = Some p" "(MakeMapKey sha (peers_key s) (pr_addr p) True, k) \<in> set (tried_tbl s)"
      using pick[of "tried_tbl s"] by blast
    then show ?thesis using tried by (auto simp: Select_def)
  next
    case new
    then obtain p k where "pick (new_tbl s) (rnd (length (new_tbl s) - 1)) s = Inr (Some p)"
      "pm_find (map_peers s) k = Some p" "(MakeMapKey sha (peers_key s) (pr_addr p) True, k) \<in> set (new_tbl s)"
      using pick[of "new_tbl s"] by blast
    then show ?thesis using new by (auto simp: Select_def)
  qed (auto simp: Select_def)
qed

lemma getaddrs_loop_ok:
  assumes "set (rand_order_keys s) \<subseteq> dom (pm_find (map_peers s))"
  shows "i + n \<le> length (rand_order_keys s) \<Longrightarrow> \<exists>as. getaddrs_loop now i n s = Inr as \<and> length as \<le> n"
proof (induction n arbitrary: i)
  case (Suc n)
  then have "Suc i + n \<le> length (rand_order_keys s)" by simp
  then obtain as where "getaddrs_loop now (Suc i) n s = Inr as" "length as \<le> n" using Suc.IH by blast
  moreover obtain p where "pm_find (map_peers s) (rand_order_keys s ! i) = Some p"
    using assms Suc.prems nth_mem[of i "rand_order_keys s"] by fastforce
  ultimately show ?case using Suc.prems by (auto simp: deref_peer_def)
qed simp

lemma GetAddrs_ok:
  assumes inv: "peers_inv sha S s" and shuf: "\<forall>xs. mset (shuf xs) = mset xs"
  shows "\<exists>as. GetAddrs shuf now s = Inr (as, s\<lparr>rand_order_keys := shuf (rand_order_keys s)\<rparr>) \<and>
    length as \<le> min kMaxGetaddrCount (kMaxGetaddrPct * length (map_peers s) div 100) \<and>
    peers_inv sha S (s\<lparr>rand_order_keys := shuf (rand_order_keys s)\<rparr>)"
proof -
  let ?s = "s\<lparr>rand_order_keys := shuf (rand_order_keys s)\<rparr>"
  have perm: "set (shuf (rand_order_keys s)) = set (rand_order_keys s)" "distinct (shuf (rand_order_keys s))"
    using inv shuf mset_eq_setD mset_eq_imp_distinct_iff unfolding peers_inv_def by metis+
  have inv': "peers_inv sha S ?s" using inv perm by (simp add: peers_inv_def tables_ok_def peers_ok_def)
  have "length (shuf (rand_order_keys s)) = length (map_peers s)"
    using inv' pm_size[of "map_peers s"] distinct_card[of "shuf (rand_order_keys s)"] by (simp add: peers_inv_def)
  then have "\<exists>as. getaddrs_loop now 0 n ?s = Inr as \<and> length as \<le> n" if "n \<le> length (map_peers s)" for n
    using getaddrs_loop_ok[of ?s 0 n now] inv' that by (simp add: peers_inv_def)
  moreover have "kMaxGetaddrPct * length (map_peers s) div 100 \<le> length (map_peers s)" by (simp add: kMaxGetaddrPct_def)
  ultimately show ?thesis using inv'
    by (auto simp: GetAddrs_def Let_def min_def res_bind_eq_Inr)
qed

subsection \<open>Every sequence of calls\<close>

datatype peers_cmd =
    PAdd "int \<times> int" net_addr net_addr int
  | PTried net_addr int
  | PServices net_addr u64
  | PAttempt net_addr int
  | PTime net_addr int
  | PSelect "nat \<Rightarrow> nat" bool
  | PGetAddrs "u64 list \<Rightarrow> u64 list" int
  | PClear

fun peers_exec :: "(bytes \<Rightarrow> bytes) \<Rightarrow> peers_cmd \<Rightarrow> peers \<Rightarrow> peers res" where
  "peers_exec sha (PAdd clock a src pen) s = res_bind (Peers_Add sha clock a src pen s) (\<lambda>(_, s'). Inr s')"
| "peers_exec sha (PTried a time) s = Inr (snd (MakeTried sha a time s))"
| "peers_exec sha (PServices a sv) s = Inr (snd (Peers_SetServices sha a sv s))"
| "peers_exec sha (PAttempt a time) s = Inr (snd (Attempt sha a time s))"
| "peers_exec sha (PTime a time) s = Inr (snd (Peers_UpdateTime sha a time s))"
| "peers_exec sha (PSelect rnd new_only) s = res_bind (Select rnd new_only s) (\<lambda>_. Inr s)"
| "peers_exec sha (PGetAddrs shuf now) s = res_bind (GetAddrs shuf now s) (\<lambda>(_, s'). Inr s')"
| "peers_exec sha PClear s = Inr (Peers_Clear s)"

fun peers_run :: "(bytes \<Rightarrow> bytes) \<Rightarrow> peers_cmd list \<Rightarrow> peers \<Rightarrow> peers res" where
  "peers_run sha [] s = Inr s"
| "peers_run sha (c # cs) s = res_bind (peers_exec sha c s) (peers_run sha cs)"

text \<open>Calls that speak of addresses of \<open>S\<close>, with a random source and a shuffle as documented.\<close>

fun cmd_in :: "net_addr set \<Rightarrow> peers_cmd \<Rightarrow> bool" where
  "cmd_in S (PAdd clock a src pen) = (a \<in> S)"
| "cmd_in S (PTried a time) = (a \<in> S)"
| "cmd_in S (PSelect rnd new_only) = (\<forall>m. rnd m \<le> m)"
| "cmd_in S (PGetAddrs shuf now) = (\<forall>xs. mset (shuf xs) = mset xs)"
| "cmd_in S _ = True"

lemma Peers_Add_ok:
  assumes "peers_inv sha S s" "collision_free sha (peers_key s) S" "a \<in> S"
  obtains s' where "peers_inv sha S s'" "peers_key s' = peers_key s"
    "Peers_Add sha clock a src pen s =
      Inr (IsRoutable a \<and> pm_find (map_peers s) (MakeMapKey sha (peers_key s) a False) = None, s')"
proof (cases "IsRoutable a \<and> pm_find (map_peers s) (MakeMapKey sha (peers_key s) a False) = None")
  case True
  then obtain s' where "Peers_Add sha clock a src pen s = Inr (True, s')" "peers_inv sha S s'" "peers_key s' = peers_key s"
    using Peers_Add_unknown[OF assms(1,3), of clock src pen] by blast
  then show ?thesis using that True by simp
next
  case False
  then obtain p where "pm_find (map_peers s) (MakeMapKey sha (peers_key s) a False) = Some p \<or> \<not> IsRoutable a"
    by auto
  then obtain s' where "Peers_Add sha clock a src pen s = Inr (False, s')" "peers_inv sha S s'" "peers_key s' = peers_key s"
    using Peers_Add_known[OF assms, of p clock src pen] by blast
  moreover have "(IsRoutable a \<and> pm_find (map_peers s) (MakeMapKey sha (peers_key s) a False) = None) = False"
    using False by blast
  ultimately show ?thesis using that by simp
qed

lemma peers_exec_ok:
  assumes "peers_inv sha S s" "collision_free sha (peers_key s) S" "cmd_in S c"
  shows "\<exists>s'. peers_exec sha c s = Inr s' \<and> peers_inv sha S s' \<and> peers_key s' = peers_key s"
proof (cases c)
  case (PAdd clock a src pen)
  then have "a \<in> S" using assms(3) by simp
  then obtain s' b where "Peers_Add sha clock a src pen s = Inr (b, s')" "peers_inv sha S s'" "peers_key s' = peers_key s"
    using Peers_Add_ok[OF assms(1,2), of a clock src pen] by blast
  then show ?thesis using PAdd by simp
next
  case (PSelect rnd new_only)
  then have "\<forall>m. rnd m \<le> m" using assms(3) by simp
  then obtain r where "Select rnd new_only s = Inr r" using Select_ok[OF assms(1)] by blast
  then show ?thesis using PSelect assms(1) by simp
next
  case (PGetAddrs shuf now)
  then have "\<forall>xs. mset (shuf xs) = mset xs" using assms(3) by simp
  then obtain as where "GetAddrs shuf now s = Inr (as, s\<lparr>rand_order_keys := shuf (rand_order_keys s)\<rparr>)"
    "peers_inv sha S (s\<lparr>rand_order_keys := shuf (rand_order_keys s)\<rparr>)" using GetAddrs_ok[OF assms(1)] by blast
  then show ?thesis using PGetAddrs by simp
next
  case PClear
  then show ?thesis using peers_inv_new[of sha S] by (simp add: Peers_Clear_def Peers_new_def peers_inv_def tables_ok_def peers_ok_def)
qed (use assms MakeTried_inv update_known_inv in
    \<open>auto simp: Peers_SetServices_def Attempt_def Peers_UpdateTime_def\<close>)

lemma peers_run_ok:
  assumes "peers_inv sha S s" "collision_free sha (peers_key s) S" "list_all (cmd_in S) cs"
  shows "\<exists>s'. peers_run sha cs s = Inr s' \<and> peers_inv sha S s' \<and> peers_key s' = peers_key s"
  using assms
proof (induction cs arbitrary: s)
  case (Cons c cs)
  then obtain s1 where "peers_exec sha c s = Inr s1" "peers_inv sha S s1" "peers_key s1 = peers_key s"
    using peers_exec_ok[of sha S s c] by auto
  then show ?case using Cons.IH[of s1] Cons.prems by auto
qed simp

subsection \<open>Properties\<close>

text \<open>C9: no sequence of calls on a new peer store runs into undefined behaviour, and all of them keep the
  tables consistent: every table entry leads to a stored peer of its group, a group has at most one
  entry in both tables together, and the key vector lists exactly the stored peers.  The only
  assumption on the hash is that two of the addresses in play with the same 64-bit key are in the same group.\<close>
theorem peers_safe:
  assumes "collision_free sha key S" "list_all (cmd_in S) cs"
  shows "\<exists>s. peers_run sha cs (Peers_new key) = Inr s \<and> peers_inv sha S s"
  using peers_run_ok[OF peers_inv_new, of sha key S cs] assms by (auto simp: Peers_new_def)

text \<open>\<^verbatim>\<open>Add\<close> reports true exactly for a routable address whose key is not stored yet, and then the
  address is found under its key with no attempts on record.\<close>
theorem Peers_Add_result:
  assumes "peers_inv sha S s" "collision_free sha (peers_key s) S" "a \<in> S"
  shows "case Peers_Add sha clock a src pen s of Inl e \<Rightarrow> False
    | Inr (added, s') \<Rightarrow>
        added = (IsRoutable a \<and> Find_addr sha a s = None) \<and>
        (if added then map_option fst (Find_addr sha a s') = Some (fresh_peer a src) else True)"
proof (cases "IsRoutable a \<and> pm_find (map_peers s) (MakeMapKey sha (peers_key s) a False) = None")
  case True
  then obtain s' where "Peers_Add sha clock a src pen s = Inr (True, s')" "peers_key s' = peers_key s"
    "pm_find (map_peers s') (MakeMapKey sha (peers_key s) a False) = Some (fresh_peer a src)"
    using Peers_Add_unknown[OF assms(1,3), of clock src pen] by blast
  then show ?thesis using True by (simp add: Find_addr_def Find_def)
next
  case False
  obtain s' where "Peers_Add sha clock a src pen s =
      Inr (IsRoutable a \<and> pm_find (map_peers s) (MakeMapKey sha (peers_key s) a False) = None, s')"
    using Peers_Add_ok[OF assms, of clock src pen] by blast
  then show ?thesis using False by (auto simp: Find_addr_def Find_def split: option.splits)
qed

text \<open>\<^verbatim>\<open>Select\<close> always finds a peer unless the tables it may use are empty, and what it returns is a
  stored peer with an entry in one of those tables: a peer that was added to an occupied group, and so
  to neither table, is never selected.\<close>
theorem Select_from_tables:
  assumes "peers_inv sha S s" "\<forall>m. rnd m \<le> m"
  shows "\<exists>r. Select rnd new_only s = Inr r \<and>
    (r = None) = (new_tbl s = [] \<and> (new_only \<or> tried_tbl s = [])) \<and>
    (\<forall>p. r = Some p \<longrightarrow> (\<exists>k. pm_find (map_peers s) k = Some p \<and>
      (MakeMapKey sha (peers_key s) (pr_addr p) True, k) \<in> set (if new_only then new_tbl s else new_tbl s @ tried_tbl s)))"
  using assms by (rule Select_ok)

text \<open>After five or more peers have been loaded from disk, \<^verbatim>\<open>GetAddrs\<close> indexes the empty key vector:
  loading clears the vector and the parser does not fill it.\<close>
theorem loaded_GetAddrs_undefined:
  assumes "5 \<le> length (map_peers file)" "\<forall>xs. mset (shuf xs) = mset xs"
  shows "GetAddrs shuf now (snd (LoadPeers (Some (ok, file)) s)) = Inl Undefined"
proof -
  have "shuf [] = []" using assms(2)[rule_format, of "[]"] by simp
  moreover have "1 \<le> kMaxGetaddrPct * length (map_peers file) div 100" using assms(1) by (simp add: kMaxGetaddrPct_def)
  then obtain n where "(if kMaxGetaddrPct * length (map_peers file) div 100 < kMaxGetaddrCount
      then kMaxGetaddrPct * length (map_peers file) div 100 else kMaxGetaddrCount) = Suc n"
    by (metis (no_types) kMaxGetaddrCount_def not0_implies_Suc not_one_le_zero zero_neq_numeral)
  ultimately show ?thesis by (simp add: GetAddrs_def LoadPeers_def Peers_Parse_def Peers_Clear_def Let_def)
qed


text \<open>Two peers, and a digest that keeps the end of its input.\<close>

definition peer1 :: net_addr where
  "peer1 = NetAddr_make 1000000 1 (kPchIpv4 @ [8, 8, 1, 1]) 8333"

definition peer2 :: net_addr where
  "peer2 = NetAddr_make 1000000 1 (kPchIpv4 @ [8, 8, 2, 2]) 8333"

lemma peers_collision_free: "collision_free rev [1, 2, 3] {peer1, peer2}"
proof -
  have "MakeMapKey rev [1, 2, 3] peer1 False \<noteq> MakeMapKey rev [1, 2, 3] peer2 False" by code_simp
  then show ?thesis by (auto simp: collision_free_def)
qed

lemma peers_safe_witness:
  "\<exists>s. peers_run rev [PAdd (1000000, 1000000) peer1 peer2 0, PAdd (1000000, 1000000) peer2 peer2 0, PTried peer2 5,
        PAttempt peer1 7, PSelect (\<lambda>m. m) False, PGetAddrs rev 1000000] (Peers_new [1, 2, 3]) = Inr s \<and>
      peers_inv rev {peer1, peer2} s"
  by (rule peers_safe[OF peers_collision_free]) simp

lemma Peers_Add_result_witness:
  "case Peers_Add rev (0, 0) peer1 peer2 0 (Peers_new [1, 2, 3]) of Inl e \<Rightarrow> False | Inr (added, s') \<Rightarrow> added"
proof -
  have "IsRoutable peer1" "Find_addr rev peer1 (Peers_new [1, 2, 3]) = None" by code_simp+
  then show ?thesis
    using Peers_Add_result[of rev "{peer1, peer2}" "Peers_new [1, 2, 3]" peer1, where clock = "(0, 0)" and src = peer2 and pen = 0]
      peers_inv_new[of rev "{peer1, peer2}" "[1, 2, 3]"] peers_collision_free
    by (auto simp: Peers_new_def split: sum.splits)
qed

lemma Select_from_tables_witness: "Select (\<lambda>m. m) True (Peers_new [1, 2, 3]) = Inr None"
  using Select_from_tables[OF peers_inv_new[of rev "{}" "[1, 2, 3]"], of "\<lambda>m. m" True] by (auto simp: Peers_new_def)

lemma loaded_GetAddrs_undefined_witness:
  "GetAddrs rev 0 (snd (LoadPeers (Some (True, (Peers_new [])\<lparr>map_peers := replicate 5 (0, fresh_peer peer1 peer2)\<rparr>))
     (Peers_new []))) = Inl Undefined"
  by (rule loaded_GetAddrs_undefined) simp_all

end
