(* ===== verification/Messages.thy ===== *)
theory Messages
  imports Net_Addr Constants
begin

text \<open>
  The wire messages: \<^verbatim>\<open>src/network/src/protocol\<close>.  The header and every message the dispatcher knows,
  each with its writer, reader, size and validity check, and an instance of the codec contracts of
  the serialization theory.  Fixed-width enumerations are the words they are sent as, strings are
  byte strings.  The readers fill a default constructed object, as the dispatcher does.
\<close>

subsection \<open>MessageHeader\<close>

definition kCommandSize :: nat where
  "kCommandSize = 12"

definition kHeaderSize :: nat where
  "kHeaderSize = 4 + kCommandSize + 4 + 4"

record msg_header =
  h_magic :: u32
  h_command :: bytes
  h_payload_length :: u32
  h_checksum :: u32

definition set_command :: "bytes \<Rightarrow> msg_header \<Rightarrow> msg_header" where
  "set_command cmd h =
     (let size = (if length cmd < kCommandSize then length cmd else kCommandSize) in
      h\<lparr>h_command := take size cmd @ replicate (kCommandSize - size) 0\<rparr>)"

definition command :: "msg_header \<Rightarrow> bytes" where
  "command h = takeWhile (\<lambda>c. c \<noteq> 0) (h_command h)"

definition MsgHeader_default :: msg_header where
  "MsgHeader_default = \<lparr>h_magic = 0, h_command = replicate kCommandSize 0, h_payload_length = 0, h_checksum = 0\<rparr>"

definition MsgHeader_make :: "u32 \<Rightarrow> bytes \<Rightarrow> u32 \<Rightarrow> u32 \<Rightarrow> msg_header" where
  "MsgHeader_make magic cmd len checksum =
     set_command cmd \<lparr>h_magic = magic, h_command = [], h_payload_length = len, h_checksum = checksum\<rparr>"

definition MsgHeader_Clear :: "msg_header \<Rightarrow> msg_header" where
  "MsgHeader_Clear h = h\<lparr>h_magic := 0, h_command := replicate kCommandSize 0, h_payload_length := 0, h_checksum := 0\<rparr>"

definition MsgHeader_ser :: "msg_header \<Rightarrow> bytes" where
  "MsgHeader_ser h =
     ser_write_data (h_magic h) @ ser_write_array (h_command h) @ ser_write_data (h_payload_length h) @
     ser_write_data (h_checksum h)"

definition MsgHeader_deser :: "bytes \<Rightarrow> (msg_header \<times> bytes) res" where
  "MsgHeader_deser s =
     res_bind (ser_read_data s) (\<lambda>(m, s1).
     res_bind (ser_read_array kCommandSize s1) (\<lambda>(c, s2).
     res_bind (ser_read_data s2) (\<lambda>(l, s3).
     res_bind (ser_read_data s3) (\<lambda>(k, s4).
       Inr (\<lparr>h_magic = m, h_command = c, h_payload_length = l, h_checksum = k\<rparr>, s4)))))"

definition MsgHeader_of_raw :: "bytes \<Rightarrow> msg_header res" where
  "MsgHeader_of_raw raw = res_bind (MsgHeader_deser (take kHeaderSize raw)) (\<lambda>(h, _). Inr h)"

definition known_commands :: "bytes list" where
  "known_commands =
     [kMsgVersion, kMsgVerack, kMsgAddr, kMsgInv, kMsgGetData, kMsgMerkleBlock, kMsgGetBlocks, kMsgGetHeaders,
      kMsgTx, kMsgHeaders, kMsgBlock, kMsgGetAddr, kMsgMempool, kMsgPing, kMsgPong, kMsgNotFound,
      kMsgFilterLoad, kMsgFilterAdd, kMsgFilterClear, kMsgReject, kMsgSendHeaders, kMsgFeeFilter,
      kMsgSendCmpct, kMsgCmpctBlock, kMsgGetBlockTxn, kMsgBlockTxn]"

definition MsgHeader_IsValid :: "u32 \<Rightarrow> msg_header \<Rightarrow> bool" where
  "MsgHeader_IsValid magic h =
     (if (magic = kMainnetMagic \<or> magic = kTestnetMagic \<or> magic = kRegtestMagic) \<and> h_magic h \<noteq> magic then False
      else if \<not> (magic = kMainnetMagic \<or> magic = kTestnetMagic \<or> magic = kRegtestMagic) \<and>
              h_magic h \<noteq> kMainnetMagic \<and> h_magic h \<noteq> kTestnetMagic \<and> h_magic h \<noteq> kRegtestMagic then False
      else if command h \<notin> set known_commands then False
      else if kMaxMessageSize < unat (h_payload_length h) then False
      else True)"

subsection \<open>Version\<close>

record version_msg =
  v_version :: u32
  v_services :: u64
  v_time :: u64
  v_recv :: net_addr
  v_from :: net_addr
  v_nonce :: u64
  v_agent :: bytes
  v_height :: u32
  v_relay :: bool

definition kRelayedTxsVersion :: u32 where "kRelayedTxsVersion = 70001"
definition kBip31Version :: u32 where "kBip31Version = 60000"
definition kAddrTimeVersion :: u32 where "kAddrTimeVersion = 31402"
definition kGetheadersVersion :: u32 where "kGetheadersVersion = 31800"
definition kSendheadersVersion :: u32 where "kSendheadersVersion = 70012"
definition kShortIdsBlocksVersion :: u32 where "kShortIdsBlocksVersion = 70014"
definition kInvalidCbNoBanVersion :: u32 where "kInvalidCbNoBanVersion = 70015"
definition kProtocolVersion :: u32 where "kProtocolVersion = kInvalidCbNoBanVersion"
definition kMinPeerProtoVersion :: u32 where "kMinPeerProtoVersion = kGetheadersVersion"

text \<open>A \<^verbatim>\<open>bool\<close> travels as one byte and is read as not zero.\<close>

definition ser_write_bool :: "bool \<Rightarrow> bytes" where
  "ser_write_bool b = ser_write_data (if b then 1 else 0 :: u8)"

definition ser_read_bool :: "bytes \<Rightarrow> (bool \<times> bytes) res" where
  "ser_read_bool s = res_bind (ser_read_data s) (\<lambda>(b :: u8, s1). Inr (b \<noteq> 0, s1))"

definition Version_new :: version_msg where
  "Version_new = \<lparr>v_version = 0, v_services = 0, v_time = 0, v_recv = NetAddr_new, v_from = NetAddr_new,
     v_nonce = 0, v_agent = [], v_height = 0, v_relay = False\<rparr>"

definition Version_ser :: "version_msg \<Rightarrow> bytes" where
  "Version_ser v =
     ser_write_data (v_version v) @ ser_write_data (v_services v) @ ser_write_data (v_time v) @
     NetAddr_ser (v_recv v) @ NetAddr_ser (v_from v) @ ser_write_data (v_nonce v) @
     (if kMaxSubVersionSize < length (v_agent v) then ser_write_string (take kMaxSubVersionSize (v_agent v))
      else ser_write_string (v_agent v)) @
     ser_write_data (v_height v) @
     (if kRelayedTxsVersion \<le> v_version v then ser_write_bool (v_relay v) else [])"

definition Version_deser :: "compiler \<Rightarrow> bytes \<Rightarrow> (version_msg \<times> bytes) res" where
  "Version_deser cc s =
     res_bind (ser_read_data s) (\<lambda>(ver :: u32, s1).
     res_bind (ser_read_data s1) (\<lambda>(sv, s2).
     res_bind (ser_read_data s2) (\<lambda>(tm, s3).
     res_bind (ser_read_class (\<lambda>_. NetAddr_deser NetAddr_new) cc s3) (\<lambda>(recv, s4).
     res_bind (ser_read_class (\<lambda>_. NetAddr_deser NetAddr_new) cc s4) (\<lambda>(from, s5).
     res_bind (ser_read_data s5) (\<lambda>(nonce, s6).
     res_bind (ser_read_string cc s6) (\<lambda>(agent, s7).
     res_bind (ser_read_data s7) (\<lambda>(height, s8).
     let v = \<lparr>v_version = ver, v_services = sv, v_time = tm, v_recv = recv, v_from = from, v_nonce = nonce,
              v_agent = (if kMaxSubVersionSize < length agent then take kMaxSubVersionSize agent else agent),
              v_height = height, v_relay = False\<rparr> in
     if kRelayedTxsVersion \<le> ver then res_bind (ser_read_bool s8) (\<lambda>(r, s9). Inr (v\<lparr>v_relay := r\<rparr>, s9))
     else Inr (v, s8)))))))))"

definition Version_IsValid :: "version_msg \<Rightarrow> bool" where
  "Version_IsValid v =
     (v_version v \<noteq> 0 \<and> v_services v \<noteq> 0 \<and> v_time v \<noteq> 0 \<and> NetAddr_IsValid (v_recv v) \<and> v_nonce v \<noteq> 0)"

definition Version_Clear :: "version_msg \<Rightarrow> version_msg" where
  "Version_Clear v = v\<lparr>v_version := 0, v_services := 0, v_time := 0, v_recv := NetAddr_Clear (v_recv v),
     v_from := NetAddr_Clear (v_from v), v_nonce := 0, v_agent := [], v_height := 0, v_relay := False\<rparr>"

definition Version_SerializedSize :: "version_msg \<Rightarrow> nat" where
  "Version_SerializedSize v =
     (let size = 4 + 8 + 8 + NetAddr_SerializedSize (v_recv v) + NetAddr_SerializedSize (v_from v) + 8 +
                 VarIntSize (length (v_agent v)) + length (v_agent v) + 4 in
      if kRelayedTxsVersion \<le> v_version v then size + 1 else size)"

definition Version_eq :: "version_msg \<Rightarrow> version_msg \<Rightarrow> bool" where
  "Version_eq a b =
     (v_version a = v_version b \<and> v_services a = v_services b \<and> v_time a = v_time b \<and>
      na_time (v_recv a) = na_time (v_recv b) \<and> na_services (v_recv a) = na_services (v_recv b) \<and>
      NetAddr_eq (v_recv a) (v_recv b) \<and>
      na_time (v_from a) = na_time (v_from b) \<and> na_services (v_from a) = na_services (v_from b) \<and>
      NetAddr_eq (v_from a) (v_from b) \<and>
      v_nonce a = v_nonce b \<and> v_agent a = v_agent b \<and> v_height a = v_height b \<and> v_relay a = v_relay b)"

subsection \<open>Ping and Pong\<close>

record ping_msg =
  p_nonce :: u64
  p_version :: u32

definition Ping_make :: "u64 \<Rightarrow> u32 \<Rightarrow> ping_msg" where
  "Ping_make n v = \<lparr>p_nonce = n, p_version = v\<rparr>"

definition Ping_ser :: "ping_msg \<Rightarrow> bytes" where
  "Ping_ser p = (if kBip31Version \<le> p_version p then ser_write_data (p_nonce p) else [])"

definition Ping_deser :: "ping_msg \<Rightarrow> bytes \<Rightarrow> (ping_msg \<times> bytes) res" where
  "Ping_deser p s =
     (if kBip31Version \<le> p_version p then res_bind (ser_read_data s) (\<lambda>(n, s1). Inr (p\<lparr>p_nonce := n\<rparr>, s1))
      else Inr (p, s))"

definition Ping_IsValid :: "ping_msg \<Rightarrow> bool" where
  "Ping_IsValid p = (if p_version p < kBip31Version then True else p_nonce p \<noteq> 0)"

definition Ping_Clear :: "ping_msg \<Rightarrow> ping_msg" where
  "Ping_Clear p = p\<lparr>p_nonce := 0\<rparr>"

definition Ping_SerializedSize :: "ping_msg \<Rightarrow> nat" where
  "Ping_SerializedSize p = (if p_version p < kBip31Version then 0 else 8)"

definition Pong_ser :: "u64 \<Rightarrow> bytes" where
  "Pong_ser n = ser_write_data n"

definition Pong_deser :: "bytes \<Rightarrow> (u64 \<times> bytes) res" where
  "Pong_deser s = ser_read_data s"

definition Pong_IsValid :: "u64 \<Rightarrow> bool" where
  "Pong_IsValid n = (n \<noteq> 0)"

definition Pong_SerializedSize :: "u64 \<Rightarrow> nat" where
  "Pong_SerializedSize n = 8"

subsection \<open>Addr and Inv\<close>

definition Addr_ser :: "net_addr list \<Rightarrow> bytes" where
  "Addr_ser as = ser_write_vec NetAddr_ser as"

definition Addr_deser :: "compiler \<Rightarrow> bytes \<Rightarrow> (net_addr list \<times> bytes) res" where
  "Addr_deser cc s = ser_read_vec (ser_read_class (\<lambda>_. NetAddr_deser NetAddr_new)) cc s"

definition Addr_IsValid :: "net_addr list \<Rightarrow> bool" where
  "Addr_IsValid as = (as \<noteq> [])"

definition Addr_SerializedSize :: "net_addr list \<Rightarrow> nat" where
  "Addr_SerializedSize as = VarIntSize (length as) + (\<Sum>a\<leftarrow>as. NetAddr_SerializedSize a)"

record inv_vect =
  iv_type :: u32
  iv_hash :: bytes

definition InvVect_ser :: "inv_vect \<Rightarrow> bytes" where
  "InvVect_ser i = ser_write_data (iv_type i) @ ser_write_array (iv_hash i)"

definition InvVect_deser :: "bytes \<Rightarrow> (inv_vect \<times> bytes) res" where
  "InvVect_deser s =
     res_bind (ser_read_data s) (\<lambda>(t, s1).
     res_bind (ser_read_array kHashSize s1) (\<lambda>(h, s2). Inr (\<lparr>iv_type = t, iv_hash = h\<rparr>, s2)))"

definition InvVect_SerializedSize :: "inv_vect \<Rightarrow> nat" where
  "InvVect_SerializedSize i = 4 + length (iv_hash i)"

definition InvVect_Clear :: "inv_vect \<Rightarrow> inv_vect" where
  "InvVect_Clear i = i\<lparr>iv_type := 0, iv_hash := replicate (length (iv_hash i)) 0\<rparr>"

definition Inv_ser :: "inv_vect list \<Rightarrow> bytes" where
  "Inv_ser is = ser_write_vec InvVect_ser is"

definition Inv_deser :: "compiler \<Rightarrow> bytes \<Rightarrow> (inv_vect list \<times> bytes) res" where
  "Inv_deser cc s = ser_read_vec (ser_read_class (\<lambda>_. InvVect_deser)) cc s"

definition Inv_IsValid :: "inv_vect list \<Rightarrow> bool" where
  "Inv_IsValid is = (is \<noteq> [])"

definition Inv_SerializedSize :: "inv_vect list \<Rightarrow> nat" where
  "Inv_SerializedSize is = VarIntSize (length is) + (\<Sum>i\<leftarrow>is. InvVect_SerializedSize i)"

subsection \<open>Reject and SendCmpct\<close>

record reject_msg =
  r_message :: bytes
  r_ccode :: u8
  r_reason :: bytes
  r_data :: bytes

definition reject_has_data :: "bytes \<Rightarrow> bool" where
  "reject_has_data m = (m = kMsgBlock \<or> m = kMsgTx)"

definition Reject_ser :: "reject_msg \<Rightarrow> bytes" where
  "Reject_ser r =
     (if kCommandSize < length (r_message r) then ser_write_string (take kCommandSize (r_message r))
      else ser_write_string (r_message r)) @
     ser_write_data (r_ccode r) @
     (if kMaxRejectMessageLength < length (r_reason r) then ser_write_string (take kMaxRejectMessageLength (r_reason r))
      else ser_write_string (r_reason r)) @
     (if reject_has_data (r_message r) then ser_write_array (r_data r) else [])"

definition Reject_deser :: "bytes \<Rightarrow> compiler \<Rightarrow> bytes \<Rightarrow> (reject_msg \<times> bytes) res" where
  "Reject_deser mem cc s =
     res_bind (ser_read_string cc s) (\<lambda>(m0, s1).
     let m = (if kCommandSize < length m0 then take kCommandSize m0 else m0) in
     res_bind (ser_read_data s1) (\<lambda>(c, s2).
     res_bind (ser_read_string cc s2) (\<lambda>(r0, s3).
     let r = (if kMaxRejectMessageLength < length r0 then take kMaxRejectMessageLength r0 else r0) in
     if reject_has_data m
     then res_bind (ser_read_array kHashSize s3) (\<lambda>(d, s4).
            Inr (\<lparr>r_message = m, r_ccode = c, r_reason = r, r_data = d\<rparr>, s4))
     else Inr (\<lparr>r_message = m, r_ccode = c, r_reason = r, r_data = mem\<rparr>, s3))))"

definition Reject_IsValid :: "reject_msg \<Rightarrow> bool" where
  "Reject_IsValid r = (r_ccode r \<in> {0x01, 0x10, 0x11, 0x12, 0x40, 0x41, 0x42, 0x43})"

definition Reject_Clear :: "reject_msg \<Rightarrow> reject_msg" where
  "Reject_Clear r = r\<lparr>r_message := [], r_ccode := 0, r_reason := [], r_data := replicate (length (r_data r)) 0\<rparr>"

definition Reject_SerializedSize :: "reject_msg \<Rightarrow> nat" where
  "Reject_SerializedSize r =
     (let result = VarIntSize (length (r_message r)) + VarIntSize (length (r_reason r)) + length (r_message r) +
                   length (r_reason r) + 1 in
      if reject_has_data (r_message r) then result + length (r_data r) else result)"

definition Reject_eq :: "reject_msg \<Rightarrow> reject_msg \<Rightarrow> bool" where
  "Reject_eq a b =
     (if reject_has_data (r_message a)
      then r_message a = r_message b \<and> r_ccode a = r_ccode b \<and> r_reason a = r_reason b \<and> r_data a = r_data b
      else r_message a = r_message b \<and> r_ccode a = r_ccode b \<and> r_reason a = r_reason b)"

record send_cmpct =
  sc_high_bandwidth :: bool
  sc_version :: u64

definition SendCmpct_ser :: "send_cmpct \<Rightarrow> bytes" where
  "SendCmpct_ser c = ser_write_bool (sc_high_bandwidth c) @ ser_write_data (sc_version c)"

definition SendCmpct_deser :: "bytes \<Rightarrow> (send_cmpct \<times> bytes) res" where
  "SendCmpct_deser s =
     res_bind (ser_read_bool s) (\<lambda>(h, s1).
     res_bind (ser_read_data s1) (\<lambda>(v, s2). Inr (\<lparr>sc_high_bandwidth = h, sc_version = v\<rparr>, s2)))"

definition SendCmpct_IsValid :: "send_cmpct \<Rightarrow> bool" where
  "SendCmpct_IsValid c = (sc_version c = 1 \<or> sc_version c = 2)"

definition SendCmpct_SerializedSize :: "send_cmpct \<Rightarrow> nat" where
  "SendCmpct_SerializedSize c = 1 + 8"

subsection \<open>GetBlocks\<close>

record getblocks_msg =
  gb_version :: u32
  gb_hashes :: "bytes list"
  gb_stop :: bytes

definition GetBlocks_ser :: "getblocks_msg \<Rightarrow> bytes" where
  "GetBlocks_ser g = ser_write_data (gb_version g) @ ser_write_vec ser_write_array (gb_hashes g) @ ser_write_array (gb_stop g)"

definition GetBlocks_deser :: "compiler \<Rightarrow> bytes \<Rightarrow> (getblocks_msg \<times> bytes) res" where
  "GetBlocks_deser cc s =
     res_bind (ser_read_data s) (\<lambda>(v, s1).
     res_bind (ser_read_vec (\<lambda>_. ser_read_array kHashSize) cc s1) (\<lambda>(hs, s2).
     res_bind (ser_read_array kHashSize s2) (\<lambda>(st, s3).
       Inr (\<lparr>gb_version = v, gb_hashes = hs, gb_stop = st\<rparr>, s3))))"

definition GetBlocks_IsValid :: "getblocks_msg \<Rightarrow> bool" where
  "GetBlocks_IsValid g =
     (gb_version g \<noteq> 0 \<and> (gb_hashes g \<noteq> [] \<or> kMaxBlockLoactorSize < length (gb_hashes g)))"

definition GetBlocks_Clear :: "getblocks_msg \<Rightarrow> getblocks_msg" where
  "GetBlocks_Clear g = g\<lparr>gb_version := 0, gb_hashes := [], gb_stop := replicate (length (gb_stop g)) 0\<rparr>"

definition GetBlocks_SerializedSize :: "getblocks_msg \<Rightarrow> nat" where
  "GetBlocks_SerializedSize g = 4 + VarIntSize (length (gb_hashes g)) + length (gb_hashes g) * kHashSize + length (gb_stop g)"

subsection \<open>The messages of the dispatcher\<close>

datatype message =
    MVersion version_msg
  | MVerack
  | MAddr "net_addr list"
  | MInv "inv_vect list"
  | MGetAddr
  | MPing ping_msg
  | MPong u64
  | MReject reject_msg
  | MSendHeaders
  | MSendCmpct send_cmpct

fun msg_command :: "message \<Rightarrow> bytes" where
  "msg_command (MVersion _) = kMsgVersion" | "msg_command MVerack = kMsgVerack"
| "msg_command (MAddr _) = kMsgAddr" | "msg_command (MInv _) = kMsgInv"
| "msg_command MGetAddr = kMsgGetAddr" | "msg_command (MPing _) = kMsgPing"
| "msg_command (MPong _) = kMsgPong" | "msg_command (MReject _) = kMsgReject"
| "msg_command MSendHeaders = kMsgSendHeaders" | "msg_command (MSendCmpct _) = kMsgSendCmpct"

fun msg_ser :: "message \<Rightarrow> bytes" where
  "msg_ser (MVersion v) = Version_ser v" | "msg_ser MVerack = []"
| "msg_ser (MAddr as) = Addr_ser as" | "msg_ser (MInv is) = Inv_ser is"
| "msg_ser MGetAddr = []" | "msg_ser (MPing p) = Ping_ser p"
| "msg_ser (MPong n) = Pong_ser n" | "msg_ser (MReject r) = Reject_ser r"
| "msg_ser MSendHeaders = []" | "msg_ser (MSendCmpct c) = SendCmpct_ser c"

fun msg_size :: "message \<Rightarrow> nat" where
  "msg_size (MVersion v) = Version_SerializedSize v" | "msg_size MVerack = 0"
| "msg_size (MAddr as) = Addr_SerializedSize as" | "msg_size (MInv is) = Inv_SerializedSize is"
| "msg_size MGetAddr = 0" | "msg_size (MPing p) = Ping_SerializedSize p"
| "msg_size (MPong n) = Pong_SerializedSize n" | "msg_size (MReject r) = Reject_SerializedSize r"
| "msg_size MSendHeaders = 0" | "msg_size (MSendCmpct c) = SendCmpct_SerializedSize c"

fun msg_valid :: "message \<Rightarrow> bool" where
  "msg_valid (MVersion v) = Version_IsValid v" | "msg_valid MVerack = True"
| "msg_valid (MAddr as) = Addr_IsValid as" | "msg_valid (MInv is) = Inv_IsValid is"
| "msg_valid MGetAddr = True" | "msg_valid (MPing p) = Ping_IsValid p"
| "msg_valid (MPong n) = Pong_IsValid n" | "msg_valid (MReject r) = Reject_IsValid r"
| "msg_valid MSendHeaders = True" | "msg_valid (MSendCmpct c) = SendCmpct_IsValid c"

text \<open>The reader the dispatcher runs for a command; \<open>ver\<close> is the protocol version of the sender.\<close>

definition msg_deser :: "bytes \<Rightarrow> compiler \<Rightarrow> u32 \<Rightarrow> bytes \<Rightarrow> bytes \<Rightarrow> message option res" where
  "msg_deser mem cc ver cmd payload =
     (if cmd = kMsgVersion then res_bind (Version_deser cc payload) (\<lambda>(v, _). Inr (Some (MVersion v)))
      else if cmd = kMsgVerack then Inr (Some MVerack)
      else if cmd = kMsgAddr then res_bind (Addr_deser cc payload) (\<lambda>(as, _). Inr (Some (MAddr as)))
      else if cmd = kMsgInv then res_bind (Inv_deser cc payload) (\<lambda>(is, _). Inr (Some (MInv is)))
      else if cmd = kMsgGetAddr then Inr (Some MGetAddr)
      else if cmd = kMsgPing then
        res_bind (Ping_deser (Ping_make 0 ver) payload) (\<lambda>(p, _). Inr (Some (MPing p)))
      else if cmd = kMsgPong then res_bind (Pong_deser payload) (\<lambda>(n, _). Inr (Some (MPong n)))
      else if cmd = kMsgReject then res_bind (Reject_deser mem cc payload) (\<lambda>(r, _). Inr (Some (MReject r)))
      else if cmd = kMsgSendHeaders then Inr (Some MSendHeaders)
      else if cmd = kMsgSendCmpct then res_bind (SendCmpct_deser payload) (\<lambda>(c, _). Inr (Some (MSendCmpct c)))
      else Inr None)"

subsection \<open>Codecs\<close>

lemma length_NetAddr_new [simp]: "length (ip NetAddr_new) = 16"
  by (simp add: NetAddr_new_def)

lemma read_bool_write [simp]: "ser_read_bool (ser_write_bool b @ rest) = Inr (b, rest)"
  by (simp add: ser_read_bool_def ser_write_bool_def)

lemma length_write_bool [simp, size_simps]: "length (ser_write_bool b) = 1"
  by (simp add: ser_write_bool_def)

definition msg_header_ok :: "msg_header \<Rightarrow> bool" where
  "msg_header_ok h = (length (h_command h) = kCommandSize)"

lemma MsgHeader_dec_enc: "msg_header_ok h \<Longrightarrow> MsgHeader_deser (MsgHeader_ser h @ rest) = Inr (h, rest)"
  by (simp add: MsgHeader_deser_def MsgHeader_ser_def msg_header_ok_def read_append read_array_append ser_write_array_def)

lemma MsgHeader_canon: "MsgHeader_deser s = Inr (h, rest) \<Longrightarrow> s = MsgHeader_ser h @ rest \<and> msg_header_ok h"
  by (auto simp: MsgHeader_deser_def MsgHeader_ser_def res_bind_eq_Inr read_array_eq_Inr ser_write_array_def msg_header_ok_def
      u32c.dec_iff[of tidy])

interpretation header: canon_codec MsgHeader_ser "\<lambda>_. MsgHeader_deser" msg_header_ok
  by unfold_locales (auto simp: MsgHeader_dec_enc dest: MsgHeader_canon)

interpretation header_s: sized_codec MsgHeader_ser "\<lambda>_. MsgHeader_deser" msg_header_ok "\<lambda>_. kHeaderSize"
  by unfold_locales (simp add: MsgHeader_ser_def msg_header_ok_def ser_write_array_def kHeaderSize_def)

definition version_ok :: "version_msg \<Rightarrow> bool" where
  "version_ok v = (addr_wire_ok (v_recv v) \<and> addr_wire_ok (v_from v) \<and> string_ok (v_agent v) \<and>
     length (v_agent v) \<le> kMaxSubVersionSize \<and> (v_relay v \<longrightarrow> kRelayedTxsVersion \<le> v_version v))"

interpretation version: codec Version_ser Version_deser version_ok
proof
  fix cc :: compiler and v rest
  assume j: "clean cc" and ok: "version_ok v"
  have a: "NetAddr_deser NetAddr_new (NetAddr_ser (v_recv v) @ r) = Inr (v_recv v, r)"
      "NetAddr_deser NetAddr_new (NetAddr_ser (v_from v) @ r) = Inr (v_from v, r)"
      "ser_read_string cc (ser_write_string (v_agent v) @ r) = Inr (v_agent v, r)" for r
    using ok j by (simp_all add: version_ok_def NetAddr_dec_enc str.dec_enc)
  show "Version_deser cc (Version_ser v @ rest) = Inr (v, rest)"
    using ok
    by (simp add: Version_deser_def Version_ser_def version_ok_def read_append a Let_def ser_read_class_clean[OF j]) (cases v, auto)
qed

lemma Version_size: "version_ok v \<Longrightarrow> length (Version_ser v) = Version_SerializedSize v"
  by (simp add: Version_ser_def Version_SerializedSize_def version_ok_def netaddr_s.enc_size str.enc_size Let_def)

interpretation version_s: sized_codec Version_ser Version_deser version_ok Version_SerializedSize
  by unfold_locales (rule Version_size)

interpretation addr: canon_codec Addr_ser Addr_deser "vec_ok addr_wire_ok"
  using canon_codec.vec_canon_codec[OF netaddr.class_canon_codec] by (simp add: Addr_ser_def[abs_def] Addr_deser_def[abs_def])

definition invvect_ok :: "inv_vect \<Rightarrow> bool" where
  "invvect_ok i = hash_ok (iv_hash i)"

interpretation invvect: canon_codec InvVect_ser "\<lambda>_. InvVect_deser" invvect_ok
  by unfold_locales
    (auto simp: InvVect_ser_def InvVect_deser_def invvect_ok_def hash_ok_def read_append read_array_append
      ser_write_array_def res_bind_eq_Inr read_array_eq_Inr u32c.dec_iff[of tidy])

interpretation invvect_s: sized_codec InvVect_ser "\<lambda>_. InvVect_deser" invvect_ok InvVect_SerializedSize
  by unfold_locales (simp add: InvVect_ser_def InvVect_SerializedSize_def ser_write_array_def)

interpretation inv: canon_codec Inv_ser Inv_deser "vec_ok invvect_ok"
  using canon_codec.vec_canon_codec[OF invvect.class_canon_codec] by (simp add: Inv_ser_def[abs_def] Inv_deser_def[abs_def])

lemma Addr_size: "vec_ok addr_wire_ok as \<Longrightarrow> length (Addr_ser as) = Addr_SerializedSize as"
  using netaddr_s.vec_size[of as] by (simp add: Addr_ser_def Addr_SerializedSize_def)

lemma Inv_size: "vec_ok invvect_ok is \<Longrightarrow> length (Inv_ser is) = Inv_SerializedSize is"
  using invvect_s.vec_size[of "is"] by (simp add: Inv_ser_def Inv_SerializedSize_def)

definition reject_ok :: "bytes \<Rightarrow> reject_msg \<Rightarrow> bool" where
  "reject_ok mem r = (string_ok (r_message r) \<and> length (r_message r) \<le> kCommandSize \<and>
     string_ok (r_reason r) \<and> length (r_reason r) \<le> kMaxRejectMessageLength \<and>
     (if reject_has_data (r_message r) then hash_ok (r_data r) else r_data r = mem))"

lemma Reject_dec_enc:
  assumes "clean cc" "reject_ok mem r"
  shows "Reject_deser mem cc (Reject_ser r @ rest) = Inr (r, rest)"
proof -
  have s: "ser_read_string cc (ser_write_string (r_message r) @ x) = Inr (r_message r, x)"
      "ser_read_string cc (ser_write_string (r_reason r) @ x) = Inr (r_reason r, x)" for x
    using assms by (simp_all add: reject_ok_def str.dec_enc)
  show ?thesis using assms(2)
    by (auto simp: Reject_deser_def Reject_ser_def reject_ok_def hash_ok_def s read_array_append ser_write_array_def Let_def)
qed

lemma Reject_size: "reject_ok mem r \<Longrightarrow> length (Reject_ser r) = Reject_SerializedSize r"
  by (auto simp: Reject_ser_def Reject_SerializedSize_def reject_ok_def str.enc_size Let_def ser_write_array_def)

interpretation reject: sized_codec Reject_ser "Reject_deser mem" "reject_ok mem" Reject_SerializedSize for mem
  by unfold_locales (auto simp: Reject_dec_enc Reject_size)

interpretation sendcmpct: sized_codec SendCmpct_ser "\<lambda>_. SendCmpct_deser" "\<lambda>_. True" SendCmpct_SerializedSize
  by unfold_locales
    (auto simp: SendCmpct_ser_def SendCmpct_deser_def SendCmpct_SerializedSize_def read_append)

definition getblocks_ok :: "getblocks_msg \<Rightarrow> bool" where
  "getblocks_ok g = (vec_ok hash_ok (gb_hashes g) \<and> hash_ok (gb_stop g))"

interpretation hashes: canon_codec "ser_write_vec ser_write_array" "ser_read_vec (\<lambda>_. ser_read_array kHashSize)" "vec_ok hash_ok"
  by (rule hash.vec_canon_codec)

interpretation getblocks: canon_codec GetBlocks_ser GetBlocks_deser getblocks_ok
  by unfold_locales
    (auto simp: GetBlocks_ser_def GetBlocks_deser_def getblocks_ok_def read_append hashes.dec_enc hash.dec_enc[of tidy]
      res_bind_eq_Inr u32c.dec_iff[of tidy] hashes.dec_iff hash.dec_iff[of tidy] hash.dec_all[of tidy])

subsection \<open>Every message of the dispatcher\<close>

fun msg_ok :: "bytes \<Rightarrow> u32 \<Rightarrow> message \<Rightarrow> bool" where
  "msg_ok mem ver (MVersion v) = version_ok v"
| "msg_ok mem ver (MAddr as) = vec_ok addr_wire_ok as"
| "msg_ok mem ver (MInv is) = vec_ok invvect_ok is"
| "msg_ok mem ver (MPing p) = (p_version p = ver \<and> (ver < kBip31Version \<longrightarrow> p_nonce p = 0))"
| "msg_ok mem ver (MReject r) = reject_ok mem r"
| "msg_ok mem ver _ = True"

lemma commands_distinct: "distinct known_commands"
  by code_simp

lemmas dispatched = kMsgVersion_def kMsgVerack_def kMsgAddr_def kMsgInv_def kMsgGetAddr_def kMsgPing_def kMsgPong_def
  kMsgReject_def kMsgSendHeaders_def kMsgSendCmpct_def

lemma dispatch_neq [simp]:
  "kMsgVerack \<noteq> kMsgVersion" "kMsgAddr \<noteq> kMsgVersion" "kMsgAddr \<noteq> kMsgVerack"
  by (simp_all add: dispatched ascii_def)

lemma msg_deser_ser:
  assumes "clean cc" "msg_ok mem ver m"
  shows "msg_deser mem cc ver (msg_command m) (msg_ser m) = Inr (Some m)"
proof (cases m)
  case (MVersion v)
  then show ?thesis using assms version.dec_all[of cc v] by (simp add: msg_deser_def)
next
  case (MAddr as)
  then show ?thesis using assms addr.dec_all[of cc as] by (simp add: msg_deser_def dispatched ascii_def)
next
  case (MInv "is")
  then show ?thesis using assms inv.dec_all[of cc "is"] by (simp add: msg_deser_def dispatched ascii_def)
next
  case (MPing p)
  then show ?thesis using assms u64c.dec_all[of cc "p_nonce p"]
    by (cases p) (auto simp: msg_deser_def dispatched ascii_def Ping_deser_def Ping_ser_def Ping_make_def not_le)
next
  case (MPong n)
  then show ?thesis using u64c.dec_all[of cc n] assms
    by (simp add: msg_deser_def dispatched ascii_def Pong_deser_def Pong_ser_def)
next
  case (MReject r)
  then show ?thesis using assms reject.dec_all[of cc mem r] by (simp add: msg_deser_def dispatched ascii_def)
next
  case (MSendCmpct c)
  then show ?thesis using assms sendcmpct.dec_all[of cc c] by (simp add: msg_deser_def dispatched ascii_def)
qed (simp_all add: msg_deser_def dispatched ascii_def)

lemma msg_size_ser: "msg_ok mem ver m \<Longrightarrow> length (msg_ser m) = msg_size m"
  using Version_size Addr_size Inv_size Reject_size sendcmpct.enc_size
  by (cases m) (auto simp: Ping_ser_def Ping_SerializedSize_def Pong_ser_def Pong_SerializedSize_def not_le)

end
