(* ===== verification/Time_Data.thy ===== *)
theory Time_Data
  imports Constants
begin

text \<open>
  Network time: \<^verbatim>\<open>MedianFilter\<close> of \<^verbatim>\<open>src/utility/include/util.h\<close> and \<^verbatim>\<open>AddTimeData\<close> of
  \<^verbatim>\<open>src/utility/src/util_time.cpp\<close>.  The samples are \<^verbatim>\<open>int64_t\<close>, as integers.  The static locals of
  \<^verbatim>\<open>AddTimeData\<close> and the global offset are the state \<open>time_data\<close>.
\<close>

record median_filter =
  mf_values :: "int list"
  mf_sorted :: "int list"
  mf_size :: nat

definition mf_new :: "nat \<Rightarrow> int \<Rightarrow> median_filter" where
  "mf_new n initial = \<lparr>mf_values = [initial], mf_sorted = [initial], mf_size = n\<rparr>"

definition mf_Input :: "int \<Rightarrow> median_filter \<Rightarrow> median_filter" where
  "mf_Input value f =
     (let vs = (if length (mf_values f) = mf_size f then tl (mf_values f) else mf_values f) @ [value] in
      f\<lparr>mf_values := vs, mf_sorted := sort vs\<rparr>)"

text \<open>The range of \<^verbatim>\<open>int64_t\<close>; arithmetic that leaves it is undefined.\<close>

definition in_int64 :: "int \<Rightarrow> bool" where
  "in_int64 x = (- (2 ^ 63) \<le> x \<and> x < 2 ^ 63)"

definition abs64 :: "int \<Rightarrow> int res" where
  "abs64 x = (if in_int64 \<bar>x\<bar> then Inr \<bar>x\<bar> else Inl Undefined)"

text \<open>The division of C++ truncates towards zero.\<close>

definition half :: "int \<Rightarrow> int" where
  "half x = (if x < 0 then - ((- x) div 2) else x div 2)"

definition mf_Median :: "median_filter \<Rightarrow> int res" where
  "mf_Median f =
     (let n = length (mf_sorted f) in
      if n = 0 then Inl Assertion
      else if n mod 2 = 1 then Inr (mf_sorted f ! (n div 2))
      else
        let total = mf_sorted f ! (n div 2 - 1) + mf_sorted f ! (n div 2) in
        if in_int64 total then Inr (half total) else Inl Undefined)"

record time_data =
  set_known :: "string list"
  time_offsets :: median_filter
  time_offset :: int

definition time_data_init :: time_data where
  "time_data_init = \<lparr>set_known = [], time_offsets = mf_new kMaxTimedataSamples 0, time_offset = 0\<rparr>"

definition AddTimeData :: "string \<Rightarrow> int \<Rightarrow> time_data \<Rightarrow> time_data res" where
  "AddTimeData addr sample d =
     (if length (set_known d) = kMaxTimedataSamples then Inr d
      else if addr \<in> set (set_known d) then Inr d
      else
        let f = mf_Input sample (time_offsets d);
            d1 = d\<lparr>set_known := addr # set_known d, time_offsets := f\<rparr> in
        if 5 \<le> length (mf_values f) \<and> length (mf_values f) mod 2 = 1
        then res_bind (mf_Median f) (\<lambda>median. res_bind (abs64 median) (\<lambda>a.
               Inr (d1\<lparr>time_offset := (if a \<le> 70 * 60 then median else 0)\<rparr>)))
        else Inr d1)"

definition GetAdjustedTime :: "int \<Rightarrow> time_data \<Rightarrow> int" where
  "GetAdjustedTime now d = now + time_offset d"

fun add_samples :: "(string \<times> int) list \<Rightarrow> time_data \<Rightarrow> time_data res" where
  "add_samples [] d = Inr d"
| "add_samples ((a, s) # xs) d = res_bind (AddTimeData a s d) (add_samples xs)"

subsection \<open>The median\<close>

text \<open>The middle of a sorted list of odd length: no more than half of the values on either side.\<close>

definition is_median :: "int \<Rightarrow> int list \<Rightarrow> bool" where
  "is_median m vs = (m \<in> set vs \<and> 2 * length (filter (\<lambda>x. x < m) vs) < length vs \<and>
     2 * length (filter (\<lambda>x. m < x) vs) < length vs)"

lemma filter_sort_length: "length (filter P (sort vs)) = length (filter P (vs :: int list))"
  by (metis filter_sort length_sort)

lemma filter_less_nth:
  assumes "sorted xs" "k < length (xs :: int list)"
  shows "length (filter (\<lambda>x. x < xs ! k) xs) \<le> k"
proof -
  have "filter (\<lambda>x. x < xs ! k) (drop k xs) = []"
    using assms by (auto simp: filter_empty_conv in_set_conv_nth sorted_iff_nth_mono not_less)
  moreover have "filter (\<lambda>x. x < xs ! k) xs =
      filter (\<lambda>x. x < xs ! k) (take k xs) @ filter (\<lambda>x. x < xs ! k) (drop k xs)"
    by (metis append_take_drop_id filter_append)
  moreover have "length (filter (\<lambda>x. x < xs ! k) (take k xs)) \<le> k"
    by (rule order_trans[OF length_filter_le]) simp
  ultimately show ?thesis by simp
qed

lemma filter_greater_nth:
  assumes "sorted xs" "k < length (xs :: int list)"
  shows "length (filter (\<lambda>x. xs ! k < x) xs) \<le> length xs - Suc k"
proof -
  have "filter (\<lambda>x. xs ! k < x) (take (Suc k) xs) = []"
    using assms by (auto simp: filter_empty_conv in_set_conv_nth sorted_iff_nth_mono not_less less_Suc_eq_le)
  moreover have "filter (\<lambda>x. xs ! k < x) xs =
      filter (\<lambda>x. xs ! k < x) (take (Suc k) xs) @ filter (\<lambda>x. xs ! k < x) (drop (Suc k) xs)"
    by (metis append_take_drop_id filter_append)
  moreover have "length (filter (\<lambda>x. xs ! k < x) (drop (Suc k) xs)) \<le> length xs - Suc k"
    by (rule order_trans[OF length_filter_le]) simp
  ultimately show ?thesis by simp
qed

lemma median_of_sort:
  assumes "length vs mod 2 = 1"
  shows "is_median (sort vs ! (length vs div 2)) vs"
proof -
  let ?k = "length vs div 2"
  have k: "?k < length vs" using assms by (cases vs) auto
  then have "sort vs ! ?k \<in> set vs" using nth_mem[of ?k "sort vs"] by simp
  moreover have "length (filter (\<lambda>x. x < sort vs ! ?k) vs) \<le> ?k"
    using filter_less_nth[of "sort vs" ?k] k by (simp add: filter_sort_length)
  moreover have "length (filter (\<lambda>x. sort vs ! ?k < x) vs) \<le> length vs - Suc ?k"
    using filter_greater_nth[of "sort vs" ?k] k by (simp add: filter_sort_length)
  moreover have "2 * ?k < length vs" "2 * (length vs - Suc ?k) < length vs" using assms by presburger+
  ultimately show ?thesis unfolding is_median_def by linarith
qed

subsection \<open>The samples\<close>

text \<open>What the filter has seen: the first sample of each peer, of the first 200 peers.\<close>

fun first_samples :: "nat \<Rightarrow> string list \<Rightarrow> (string \<times> int) list \<Rightarrow> int list" where
  "first_samples 0 seen xs = []"
| "first_samples (Suc n) seen [] = []"
| "first_samples (Suc n) seen ((a, s) # xs) =
     (if a \<in> set seen then first_samples (Suc n) seen xs else s # first_samples n (a # seen) xs)"

text \<open>
  The offset after a history of samples (the initial zero included): the median of the longest
  prefix of odd length, as long as that has at most 199 values -- the filter holds 200 values when
  it is full, an even number, and from then on the offset is never set again.
\<close>

definition clip :: "int \<Rightarrow> int" where
  "clip m = (if \<bar>m\<bar> \<le> 70 * 60 then m else 0)"

definition last_update :: "nat \<Rightarrow> nat" where
  "last_update n = min 199 (if n mod 2 = 1 then n else n - 1)"

definition offset_of_history :: "int list \<Rightarrow> int \<Rightarrow> bool" where
  "offset_of_history hist off =
     (if last_update (length hist) < 5 then off = 0
      else \<exists>m. is_median m (take (last_update (length hist)) hist) \<and> off = clip m)"

definition int64_samples :: "int list \<Rightarrow> bool" where
  "int64_samples xs = (\<forall>x\<in>set xs. - (2 ^ 63) < x \<and> x < 2 ^ 63)"

definition time_inv :: "int list \<Rightarrow> time_data \<Rightarrow> bool" where
  [inv_defs]: "time_inv hist d =
     (mf_size (time_offsets d) = kMaxTimedataSamples \<and>
      mf_values (time_offsets d) = last_n kMaxTimedataSamples hist \<and>
      length hist = Suc (length (set_known d)) \<and> length (set_known d) \<le> kMaxTimedataSamples \<and>
      offset_of_history hist (time_offset d))"

lemma last_n_step:
  assumes "vs = last_n n hist" "0 < n" "hist \<noteq> []"
  shows "(if length vs = n then tl vs else vs) @ [x] = last_n n (hist @ [x])"
proof (cases "length hist < n")
  case True
  then show ?thesis using assms by simp
next
  case False
  then have "length vs = n" using assms by simp
  have "last_n n (hist @ [x]) = last_n n (vs @ [x])" using last_n_last_n_append[of n hist "[x]"] assms by simp
  then show ?thesis using last_n_snoc_full[of vs n x] \<open>length vs = n\<close> assms(2) by simp
qed

lemma last_update_Suc:
  "last_update (Suc n) = (if Suc n mod 2 = 1 \<and> Suc n \<le> 199 then Suc n else last_update n)"
  by (auto simp: last_update_def min_def; presburger)

lemma last_update_le: "last_update n \<le> n"
  by (auto simp: last_update_def)

lemma offset_of_history_keep:
  assumes "offset_of_history hist off" "last_update (Suc (length hist)) = last_update (length hist)"
  shows "offset_of_history (hist @ [s]) off"
  using assms last_update_le[of "length hist"] by (simp add: offset_of_history_def)

lemma Median_of_Input:
  assumes "length (mf_values (mf_Input s f)) mod 2 = 1"
  shows "\<exists>m. mf_Median (mf_Input s f) = Inr m \<and> is_median m (mf_values (mf_Input s f))"
proof -
  let ?vs = "mf_values (mf_Input s f)"
  have "mf_sorted (mf_Input s f) = sort ?vs" by (simp add: mf_Input_def Let_def)
  then have "mf_Median (mf_Input s f) = Inr (sort ?vs ! (length ?vs div 2))"
    using assms by (auto simp: mf_Median_def Let_def)
  then show ?thesis using median_of_sort[OF assms] by blast
qed

lemma abs64_ok: "- (2 ^ 63) < x \<Longrightarrow> x < 2 ^ 63 \<Longrightarrow> abs64 x = Inr \<bar>x\<bar>"
  by (auto simp: abs64_def in_int64_def)

lemma AddTimeData_ok:
  assumes inv: "time_inv hist d"
    and new: "\<not> (length (set_known d) = kMaxTimedataSamples \<or> a \<in> set (set_known d))"
    and rng: "int64_samples (hist @ [s])"
  shows "\<exists>d'. AddTimeData a s d = Inr d' \<and> time_inv (hist @ [s]) d' \<and> set_known d' = a # set_known d"
proof -
  let ?f = "mf_Input s (time_offsets d)"
  let ?d1 = "d\<lparr>set_known := a # set_known d, time_offsets := ?f\<rparr>"
  let ?n = "length hist"
  have pos: "0 < kMaxTimedataSamples" "kMaxTimedataSamples = 200" by (simp_all add: kMaxTimedataSamples_def)
  have ne: "hist \<noteq> []" using inv by (auto simp: time_inv_def)
  have vals: "mf_values ?f = last_n kMaxTimedataSamples (hist @ [s])"
    using last_n_step[OF _ pos(1) ne, of "mf_values (time_offsets d)" s] inv
    by (simp add: time_inv_def mf_Input_def Let_def)
  have size: "mf_size ?f = kMaxTimedataSamples" using inv by (simp add: time_inv_def mf_Input_def Let_def)
  have len: "length (mf_values ?f) = min 200 (Suc ?n)" using vals pos by simp
  have keep: "time_inv (hist @ [s]) (?d1\<lparr>time_offset := off\<rparr>)"
    if "offset_of_history (hist @ [s]) off" for off
    using inv new vals size that by (auto simp: time_inv_def)
  show ?thesis
  proof (cases "5 \<le> length (mf_values ?f) \<and> length (mf_values ?f) mod 2 = 1")
    case True
    then have n: "Suc ?n \<le> 199" "Suc ?n mod 2 = 1" "5 \<le> Suc ?n"
      using len by (cases "Suc ?n \<le> 199"; simp)+
    then have all: "mf_values ?f = hist @ [s]" using vals pos by simp
    obtain m where m: "mf_Median ?f = Inr m" "is_median m (hist @ [s])"
      using Median_of_Input[of s "time_offsets d"] True all by auto
    from m(2) have "m \<in> set (hist @ [s])" unfolding is_median_def by (rule conjunct1)
    then have "- (2 ^ 63) < m \<and> m < 2 ^ 63" using rng unfolding int64_samples_def by (rule bspec[rotated])
    then have a: "abs64 m = Inr \<bar>m\<bar>" by (simp add: abs64_ok)
    have lu: "last_update (Suc ?n) = Suc ?n" using n last_update_Suc[of ?n] by simp
    have "take (Suc ?n) (hist @ [s]) = hist @ [s]" by simp
    then have "offset_of_history (hist @ [s]) (clip m)"
      using m(2) n(3) lu unfolding offset_of_history_def by (metis length_append_singleton not_le)
    then have "time_inv (hist @ [s]) (?d1\<lparr>time_offset := clip m\<rparr>)" by (rule keep)
    moreover have "AddTimeData a s d = Inr (?d1\<lparr>time_offset := clip m\<rparr>)"
      using new True m(1) a by (simp add: AddTimeData_def Let_def clip_def)
    ultimately show ?thesis by simp
  next
    case False
    have off: "offset_of_history hist (time_offset d)" using inv by (simp add: time_inv_def)
    have "offset_of_history (hist @ [s]) (time_offset d)"
    proof (cases "5 \<le> Suc ?n")
      case True
      then have "last_update (Suc ?n) = last_update ?n"
        using False len last_update_Suc[of ?n] by (cases "Suc ?n \<le> 199") auto
      then show ?thesis by (rule offset_of_history_keep[OF off])
    next
      case False
      then have "last_update (Suc ?n) < 5" "last_update ?n < 5"
        using last_update_le[of "Suc ?n"] last_update_le[of ?n] by linarith+
      then show ?thesis using off by (simp add: offset_of_history_def)
    qed
    then have "time_inv (hist @ [s]) ?d1" using keep[of "time_offset d"] by simp
    moreover have "AddTimeData a s d = Inr ?d1" using new False by (auto simp: AddTimeData_def Let_def)
    ultimately show ?thesis by simp
  qed
qed

lemma first_samples_full:
  "n = 0 \<Longrightarrow> first_samples n seen xs = []"
  by (cases xs) auto

lemma add_samples_ok:
  assumes "time_inv hist d"
    "int64_samples (hist @ first_samples (kMaxTimedataSamples - length (set_known d)) (set_known d) xs)"
  shows "\<exists>d'. add_samples xs d = Inr d' \<and>
    time_inv (hist @ first_samples (kMaxTimedataSamples - length (set_known d)) (set_known d) xs) d'"
  using assms
proof (induction xs arbitrary: hist d)
  case Nil
  then show ?case by (cases "kMaxTimedataSamples - length (set_known d)") auto
next
  case (Cons p xs)
  obtain a s where p: "p = (a, s)" by (cases p)
  let ?k = "kMaxTimedataSamples - length (set_known d)"
  show ?case
  proof (cases "length (set_known d) = kMaxTimedataSamples \<or> a \<in> set (set_known d)")
    case True
    then have same: "AddTimeData a s d = Inr d" by (auto simp: AddTimeData_def)
    have "first_samples ?k (set_known d) (p # xs) = first_samples ?k (set_known d) xs"
      using True p by (cases ?k) auto
    then show ?thesis using Cons p same by simp
  next
    case False
    then obtain k where k: "?k = Suc k" using Cons.prems(1) by (cases ?k) (auto simp: time_inv_def)
    have fs: "first_samples ?k (set_known d) (p # xs) = s # first_samples k (a # set_known d) xs"
      using False p k by simp
    then have "int64_samples (hist @ [s])" using Cons.prems(2) by (auto simp: int64_samples_def)
    then obtain d' where d': "AddTimeData a s d = Inr d'" "time_inv (hist @ [s]) d'"
        "set_known d' = a # set_known d"
      using AddTimeData_ok[OF Cons.prems(1) False] by blast
    have k': "kMaxTimedataSamples - length (set_known d') = k" using k d'(3) by simp
    have "int64_samples ((hist @ [s]) @ first_samples k (a # set_known d) xs)"
      using Cons.prems(2) fs by simp
    then show ?thesis using Cons.IH[OF d'(2)] k' d' fs p by simp
  qed
qed

lemma time_inv_init: "time_inv [0] time_data_init"
  by (simp add: time_inv_def time_data_init_def mf_new_def offset_of_history_def last_update_def
      kMaxTimedataSamples_def)

text \<open>C28: Whatever peers report, the network time offset is the median of the samples that count --
  an initial zero and the first sample of each of the first 200 peers, up to the last odd number of
  values below 200 -- or zero when that median is more than seventy minutes off.  No assertion
  fails, for samples above the least \<^verbatim>\<open>int64_t\<close> (of which \<^verbatim>\<open>abs\<close> is undefined).\<close>
theorem network_time_is_clipped_median:
  assumes "int64_samples (first_samples kMaxTimedataSamples [] xs)"
  shows "\<exists>d. add_samples xs time_data_init = Inr d \<and>
    offset_of_history (0 # first_samples kMaxTimedataSamples [] xs) (time_offset d) \<and>
    \<bar>GetAdjustedTime now d - now\<bar> \<le> 70 * 60"
proof -
  have "int64_samples ([0] @ first_samples kMaxTimedataSamples [] xs)"
    using assms by (simp add: int64_samples_def)
  then obtain d where d: "add_samples xs time_data_init = Inr d"
      "time_inv ([0] @ first_samples kMaxTimedataSamples [] xs) d"
    using add_samples_ok[OF time_inv_init, of xs] by (auto simp: time_data_init_def)
  moreover have "\<bar>time_offset d\<bar> \<le> 70 * 60"
    using d(2) by (auto simp: time_inv_def offset_of_history_def clip_def split: if_splits)
  ultimately show ?thesis by (auto simp: time_inv_def GetAdjustedTime_def)
qed

lemma network_time_is_clipped_median_witness:
  "\<exists>d. add_samples [(''a'', 30), (''b'', 10), (''a'', 99), (''c'', 20), (''d'', 5000)] time_data_init = Inr d \<and>
    offset_of_history (0 # first_samples kMaxTimedataSamples []
      [(''a'', 30), (''b'', 10), (''a'', 99), (''c'', 20), (''d'', 5000)]) (time_offset d) \<and>
    \<bar>GetAdjustedTime 1000 d - 1000\<bar> \<le> 70 * 60"
  by (rule network_time_is_clipped_median) (simp add: int64_samples_def kMaxTimedataSamples_def eval_nat_numeral)

end
