(* ===== verification/Timer.thy ===== *)
theory Timer
  imports Prelude
begin

text \<open>
  \<^verbatim>\<open>src/utility/include/timer.h\<close> and \<^verbatim>\<open>src/utility/src/timer.cpp\<close>.  Timers are shared objects: a timer is a
  number, \<open>tm_cfg\<close> the object behind it, \<open>tm_timers\<close> the list of the manager and \<open>tm_tasks\<close> the calls of
  \<^verbatim>\<open>InvokeTimerCb\<close> handed to the thread pool and not yet run.  Callbacks are data of a type \<open>'cb\<close> that
  the client interprets.  Every operation runs under the mutex of the manager, so it is one step.
  The clock, in milliseconds, is an argument.
\<close>

record 'cb timer_cfg =
  tc_timeout :: u32
  tc_interval :: u32
  tc_expire :: u64
  tc_suspended :: bool
  tc_cb :: 'cb

record 'cb timer_mng =
  tm_timers :: "nat list"
  tm_cfg :: "nat \<Rightarrow> 'cb timer_cfg option"
  tm_next :: nat
  tm_tasks :: "nat list"

definition tm_init :: "'cb timer_mng" where
  "tm_init = \<lparr>tm_timers = [], tm_cfg = (\<lambda>_. None), tm_next = 0, tm_tasks = []\<rparr>"

definition tm_upd :: "nat \<Rightarrow> ('cb timer_cfg \<Rightarrow> 'cb timer_cfg) \<Rightarrow> 'cb timer_mng \<Rightarrow> 'cb timer_mng" where
  "tm_upd t f m = m\<lparr>tm_cfg := (tm_cfg m)(t := map_option f (tm_cfg m t))\<rparr>"

definition later :: "int \<Rightarrow> u32 \<Rightarrow> u64" where
  "later now d = of_int (now + uint d)"

subsection \<open>TimerCfg\<close>

definition Timer_Reset :: "int \<Rightarrow> u32 \<Rightarrow> u32 \<Rightarrow> 'cb timer_cfg \<Rightarrow> 'cb timer_cfg" where
  "Timer_Reset now timeout interval c =
     (if timeout = 0
      then (let c1 = c\<lparr>tc_expire := later now (tc_timeout c)\<rparr> in
            if interval \<noteq> 0 then c1\<lparr>tc_interval := interval\<rparr> else c1)
      else (let c1 = c\<lparr>tc_expire := later now timeout\<rparr> in
            if interval \<noteq> 0 then c1\<lparr>tc_interval := interval\<rparr> else c1))"

definition Timer_Suspend :: "'cb timer_cfg \<Rightarrow> 'cb timer_cfg" where
  "Timer_Suspend c = c\<lparr>tc_suspended := True\<rparr>"

definition Timer_Resume :: "int \<Rightarrow> 'cb timer_cfg \<Rightarrow> 'cb timer_cfg" where
  "Timer_Resume now c =
     (let c1 = (if 0 < tc_interval c then c\<lparr>tc_expire := later now (tc_interval c)\<rparr> else c) in
      c1\<lparr>tc_suspended := False\<rparr>)"

subsection \<open>TimerMng\<close>

definition StartTimer :: "int \<Rightarrow> u32 \<Rightarrow> u32 \<Rightarrow> 'cb \<Rightarrow> 'cb timer_mng \<Rightarrow> nat option \<times> 'cb timer_mng" where
  "StartTimer now timeout interval cb m =
     (if timeout = 0 then (None, m)
      else
        let t = tm_next m;
            c = \<lparr>tc_timeout = timeout, tc_interval = interval, tc_expire = later now timeout,
                 tc_suspended = False, tc_cb = cb\<rparr> in
        (Some t, m\<lparr>tm_timers := tm_timers m @ [t], tm_cfg := (tm_cfg m)(t \<mapsto> c), tm_next := Suc t\<rparr>))"

text \<open>\<^verbatim>\<open>erase(find(...))\<close>: erasing the end iterator is undefined.\<close>

definition erase_timer :: "nat \<Rightarrow> 'cb timer_mng \<Rightarrow> 'cb timer_mng res" where
  "erase_timer t m =
     (if t \<in> set (tm_timers m) then Inr (m\<lparr>tm_timers := remove1 t (tm_timers m)\<rparr>) else Inl Undefined)"

definition StopTimer :: "nat option \<Rightarrow> 'cb timer_mng \<Rightarrow> 'cb timer_mng res" where
  "StopTimer timer m = (case timer of None \<Rightarrow> Inr m | Some t \<Rightarrow> erase_timer t m)"

definition is_due :: "u64 \<Rightarrow> 'cb timer_mng \<Rightarrow> nat \<Rightarrow> bool" where
  "is_due now m t = (case tm_cfg m t of None \<Rightarrow> False | Some c \<Rightarrow> \<not> tc_suspended c \<and> tc_expire c \<le> now)"

fun check_loop :: "u64 \<Rightarrow> nat list \<Rightarrow> 'cb timer_mng \<Rightarrow> 'cb timer_mng" where
  "check_loop now [] m = m"
| "check_loop now (t # ts) m =
     check_loop now ts
       (if is_due now m t
        then (tm_upd t (\<lambda>c. c\<lparr>tc_expire := - 1\<rparr>) m)\<lparr>tm_tasks := tm_tasks m @ [t]\<rparr>
        else m)"

definition CheckTimers :: "u64 \<Rightarrow> 'cb timer_mng \<Rightarrow> 'cb timer_mng" where
  "CheckTimers now m = check_loop now (tm_timers m) m"

text \<open>\<^verbatim>\<open>InvokeTimerCb\<close> after the callback has run.\<close>

definition Invoke_after :: "int \<Rightarrow> nat \<Rightarrow> 'cb timer_mng \<Rightarrow> 'cb timer_mng res" where
  "Invoke_after now t m =
     (case tm_cfg m t of None \<Rightarrow> Inr m
      | Some c \<Rightarrow>
          if 0 < tc_interval c then Inr (tm_upd t (\<lambda>c. c\<lparr>tc_expire := later now (tc_interval c)\<rparr>) m)
          else erase_timer t m)"

text \<open>
  The whole of it, for a client with a state \<open>'w\<close> of its own: \<open>run\<close> is what a callback does to it,
  \<open>get\<close> and \<open>put\<close> reach the manager in it.
\<close>

definition InvokeTimerCb ::
  "('cb \<Rightarrow> 'w \<Rightarrow> 'w res) \<Rightarrow> ('w \<Rightarrow> 'cb timer_mng) \<Rightarrow> ('cb timer_mng \<Rightarrow> 'w \<Rightarrow> 'w) \<Rightarrow> int \<Rightarrow> nat \<Rightarrow> 'w \<Rightarrow> 'w res" where
  "InvokeTimerCb run get put now t w =
     (case tm_cfg (get w) t of None \<Rightarrow> Inr w
      | Some c \<Rightarrow>
          res_bind (run (tc_cb c) w) (\<lambda>w1.
          res_bind (Invoke_after now t (get w1)) (\<lambda>m.
            Inr (put m w1))))"

subsection \<open>The invariant of the manager\<close>

definition tm_inv :: "'cb timer_mng \<Rightarrow> bool" where
  [inv_defs]: "tm_inv m =
     (distinct (tm_timers m) \<and> (\<forall>t\<in>set (tm_timers m). tm_cfg m t \<noteq> None) \<and>
      (\<forall>t. tm_cfg m t \<noteq> None \<longrightarrow> t < tm_next m))"

lemma tm_upd_sel [simp]:
  "tm_timers (tm_upd t f m) = tm_timers m" "tm_next (tm_upd t f m) = tm_next m"
  "tm_tasks (tm_upd t f m) = tm_tasks m"
  "tm_cfg (tm_upd t f m) s = (if s = t then map_option f (tm_cfg m t) else tm_cfg m s)"
  by (simp_all add: tm_upd_def)

lemma tm_inv_init: "tm_inv tm_init"
  by (simp add: tm_inv_def tm_init_def)

lemma tm_inv_upd: "tm_inv m \<Longrightarrow> tm_inv (tm_upd t f m)"
  by (auto simp: tm_inv_def)

lemma tm_inv_fresh: "tm_inv m \<Longrightarrow> tm_next m \<notin> set (tm_timers m)"
  by (auto simp: tm_inv_def)

lemma tm_inv_start: "tm_inv m \<Longrightarrow> StartTimer now d i cb m = (r, m') \<Longrightarrow> tm_inv m'"
  using tm_inv_fresh[of m] by (auto simp: tm_inv_def StartTimer_def Let_def less_Suc_eq split: if_splits)

lemma tm_inv_erase: "tm_inv m \<Longrightarrow> erase_timer t m = Inr m' \<Longrightarrow> tm_inv m'"
  by (auto simp: tm_inv_def erase_timer_def split: if_splits dest: notin_set_remove1 set_remove1_subset[THEN subsetD])

lemma tm_inv_stop: "tm_inv m \<Longrightarrow> StopTimer t m = Inr m' \<Longrightarrow> tm_inv m'"
  by (auto simp: StopTimer_def split: option.splits dest: tm_inv_erase)

lemma tm_inv_tasks [simp]: "tm_inv (m\<lparr>tm_tasks := ts\<rparr>) = tm_inv m"
  by (simp add: tm_inv_def)

lemma tm_inv_check_loop: "tm_inv m \<Longrightarrow> tm_inv (check_loop now ts m)"
  by (induction now ts m rule: check_loop.induct) (simp add: tm_inv_upd)+

lemma tm_inv_check: "tm_inv m \<Longrightarrow> tm_inv (CheckTimers now m)"
  by (simp add: CheckTimers_def tm_inv_check_loop)

lemma tm_inv_after: "tm_inv m \<Longrightarrow> Invoke_after now t m = Inr m' \<Longrightarrow> tm_inv m'"
  by (auto simp: Invoke_after_def tm_inv_upd split: option.splits if_splits dest: tm_inv_erase)

subsection \<open>Firing\<close>

lemma check_loop_sel [simp]:
  "tm_timers (check_loop now ts m) = tm_timers m" "tm_next (check_loop now ts m) = tm_next m"
  by (induction now ts m rule: check_loop.induct) simp_all

lemma is_due_other: "s \<noteq> t \<Longrightarrow> is_due now (tm_upd t f m) s = is_due now m s"
  by (simp add: is_due_def)

lemma is_due_tasks [simp]: "is_due now (m\<lparr>tm_tasks := ts\<rparr>) = is_due now m"
  by (simp add: is_due_def fun_eq_iff)

lemma check_loop_tasks:
  "distinct ts \<Longrightarrow> tm_tasks (check_loop now ts m) = tm_tasks m @ filter (is_due now m) ts"
proof (induction now ts m rule: check_loop.induct)
  case (2 now t ts m)
  let ?m = "if is_due now m t
        then (tm_upd t (\<lambda>c. c\<lparr>tc_expire := - 1\<rparr>) m)\<lparr>tm_tasks := tm_tasks m @ [t]\<rparr> else m"
  have "filter (is_due now ?m) ts = filter (is_due now m) ts"
  proof (rule filter_cong[OF refl])
    fix x assume "x \<in> set ts"
    then have "x \<noteq> t" using "2.prems" by auto
    then show "is_due now ?m x = is_due now m x" by (simp add: is_due_other)
  qed
  then show ?case using 2 by simp
qed simp

lemma check_loop_cfg:
  "distinct ts \<Longrightarrow> tm_cfg (check_loop now ts m) s =
     (if s \<in> set ts \<and> is_due now m s then map_option (\<lambda>c. c\<lparr>tc_expire := - 1\<rparr>) (tm_cfg m s) else tm_cfg m s)"
proof (induction now ts m rule: check_loop.induct)
  case (2 now t ts m)
  then show ?case by (cases "s = t") (auto simp: is_due_other)
qed simp

lemma count_list_distinct: "distinct xs \<Longrightarrow> count_list xs x = (if x \<in> set xs then 1 else 0)"
  by (induction xs) auto

lemma CheckTimers_spec:
  assumes "tm_inv m" "t \<in> set (tm_timers m)" "tm_cfg m t = Some c"
  shows "tm_cfg (CheckTimers now m) t =
      Some (if \<not> tc_suspended c \<and> tc_expire c \<le> now then c\<lparr>tc_expire := - 1\<rparr> else c)"
    "count_list (tm_tasks (CheckTimers now m)) t =
      count_list (tm_tasks m) t + (if \<not> tc_suspended c \<and> tc_expire c \<le> now then 1 else 0)"
proof -
  have d: "distinct (tm_timers m)" using assms(1) by (simp add: tm_inv_def)
  show "tm_cfg (CheckTimers now m) t =
      Some (if \<not> tc_suspended c \<and> tc_expire c \<le> now then c\<lparr>tc_expire := - 1\<rparr> else c)"
    using assms d by (simp add: CheckTimers_def check_loop_cfg is_due_def)
  have "count_list (filter (is_due now m) (tm_timers m)) t = (if is_due now m t then 1 else 0)"
    using d assms(2) by (simp add: count_list_distinct)
  then show "count_list (tm_tasks (CheckTimers now m)) t =
      count_list (tm_tasks m) t + (if \<not> tc_suspended c \<and> tc_expire c \<le> now then 1 else 0)"
    using assms d by (simp add: CheckTimers_def check_loop_tasks is_due_def)
qed

lemma timers_CheckTimers [simp]: "tm_timers (CheckTimers now m) = tm_timers m"
  by (simp add: CheckTimers_def)

lemma checks_count:
  assumes "tm_inv m" "t \<in> set (tm_timers m)" "tm_cfg m t = Some c" "\<not> tc_suspended c"
    "\<forall>now\<in>set nows. now \<noteq> - 1"
  shows "count_list (tm_tasks (fold CheckTimers nows m)) t =
    count_list (tm_tasks m) t + (if \<exists>now\<in>set nows. tc_expire c \<le> now then 1 else 0)"
  using assms
proof (induction nows arbitrary: m c)
  case (Cons now nows)
  let ?m = "CheckTimers now m"
  let ?c = "if tc_expire c \<le> now then c\<lparr>tc_expire := - 1\<rparr> else c"
  have c: "tm_cfg ?m t = Some ?c" using CheckTimers_spec(1)[OF Cons.prems(1-3)] Cons.prems(4) by simp
  have n: "count_list (tm_tasks ?m) t = count_list (tm_tasks m) t + (if tc_expire c \<le> now then 1 else 0)"
    using CheckTimers_spec(2)[OF Cons.prems(1-3)] Cons.prems(4) by simp
  have max: "\<not> (- 1 \<le> x)" if "x \<noteq> - 1" for x :: u64 using that by (simp add: word_order.extremum_unique)
  have "count_list (tm_tasks (fold CheckTimers nows ?m)) t =
      count_list (tm_tasks ?m) t + (if \<exists>now\<in>set nows. tc_expire ?c \<le> now then 1 else 0)"
    using Cons.prems by (intro Cons.IH[OF tm_inv_check _ c]) auto
  then show ?case using n max Cons.prems(5) by auto
qed simp

text \<open>C22: A timer that is neither stopped, suspended nor set anew is handed to the thread pool exactly
  once: not before it expires, by the first check at or after that time, and by no later check,
  whatever other timers there are.\<close>
theorem timer_fires_once:
  assumes "tm_inv m" "StartTimer start timeout interval cb m = (Some t, m')"
    "\<forall>now\<in>set nows. now \<noteq> - 1" "t \<notin> set (tm_tasks m)"
  shows "count_list (tm_tasks (fold CheckTimers nows m')) t =
    (if \<exists>now\<in>set nows. later start timeout \<le> now then 1 else 0)"
proof -
  have inv: "tm_inv m'" using assms(1,2) by (rule tm_inv_start)
  have t: "t \<in> set (tm_timers m')" "tm_tasks m' = tm_tasks m"
      "tm_cfg m' t = Some \<lparr>tc_timeout = timeout, tc_interval = interval, tc_expire = later start timeout,
         tc_suspended = False, tc_cb = cb\<rparr>"
    using assms(2) by (auto simp: StartTimer_def Let_def split: if_splits)
  show ?thesis using checks_count[OF inv t(1,3) _ assms(3)] t(2) assms(4)
    by (simp add: count_list_0_iff)
qed

lemma timer_fires_once_witness:
  "count_list (tm_tasks (fold CheckTimers [50, 100, 150] (snd (StartTimer 0 100 0 () tm_init)))) 0 = 1"
  using timer_fires_once[of tm_init 0 100 0 "()" 0 "snd (StartTimer 0 100 0 () tm_init)" "[50, 100, 150]"] tm_inv_init
  by (simp add: StartTimer_def tm_init_def Let_def later_def)

end
