(* ===== verification/Orphans.thy ===== *)
theory Orphans
  imports Transaction Constants "HOL-Library.AList"
begin

text \<open>
  The pool of orphan transactions: \<^verbatim>\<open>Orphans\<close> of \<^verbatim>\<open>src/network/include/block_sync.h\<close> and the end of
  \<^verbatim>\<open>src/network/src/block_sync.cpp\<close>.  The two \<^verbatim>\<open>std::map\<close>s are lists in key order; a search in the second
  one calls the order of outpoints, so the operations return an option: \<open>None\<close> is a call that never
  returns.  \<open>sha\<close> is the digest of \<^verbatim>\<open>Transaction::GetHash\<close>, \<open>rnd\<close> the successive results of
  \<^verbatim>\<open>RandHash256\<close>, \<open>now\<close> the clock in seconds.
\<close>

record orphan_tx =
  o_tx :: tx
  o_from :: nat
  o_expire :: int

record orphans =
  o_map :: "(bytes \<times> orphan_tx) list"
  o_prev :: "(outpoint \<times> bytes list) list"
  o_next_sweep :: int

definition Orphans_new :: orphans where
  "Orphans_new = \<lparr>o_map = [], o_prev = [], o_next_sweep = 0\<rparr>"

text \<open>The order of hashes, arrays of bytes.\<close>

fun hash_less :: "bytes \<Rightarrow> bytes \<Rightarrow> bool" where
  "hash_less (x # xs) (y # ys) = (x < y \<or> x = y \<and> hash_less xs ys)"
| "hash_less [] (y # ys) = True"
| "hash_less xs [] = False"

definition lower_bound :: "bytes \<Rightarrow> (bytes \<times> 'a) list \<Rightarrow> (bytes \<times> 'a) list" where
  "lower_bound h m = dropWhile (\<lambda>(k, _). hash_less k h) m"

text \<open>A search compares the key with those stored; an empty map has none.\<close>

fun prev_find :: "outpoint \<Rightarrow> (outpoint \<times> bytes list) list \<Rightarrow> bytes list option option" where
  "prev_find p [] = Some None"
| "prev_find p ((k, v) # m) =
     Option.bind (OutPoint_less k p) (\<lambda>lt.
       if lt then prev_find p m else Option.bind (OutPoint_less p k) (\<lambda>gt. Some (if gt then None else Some v)))"

fun erase_prev :: "bytes \<Rightarrow> txin list \<Rightarrow> (outpoint \<times> bytes list) list \<Rightarrow> (outpoint \<times> bytes list) list option" where
  "erase_prev h [] m = Some m"
| "erase_prev h (i # is) m =
     Option.bind (prev_find (prevout i) m) (\<lambda>r.
       case r of None \<Rightarrow> erase_prev h is m
       | Some v \<Rightarrow>
           let v' = removeAll h v in
           erase_prev h is (if v' = [] then AList.delete (prevout i) m else AList.update (prevout i) v' m))"

definition EraseOrphanTx :: "bytes \<Rightarrow> orphans \<Rightarrow> (nat \<times> orphans) option" where
  "EraseOrphanTx h s =
     (case map_of (o_map s) h of None \<Rightarrow> Some (0, s)
      | Some e \<Rightarrow>
          Option.bind (erase_prev h (inputs (o_tx e)) (o_prev s)) (\<lambda>pm.
            Some (1, s\<lparr>o_prev := pm, o_map := AList.delete h (o_map s)\<rparr>)))"

definition AddOrphanTx :: "(bytes \<Rightarrow> bytes) \<Rightarrow> tx \<Rightarrow> nat \<Rightarrow> orphans \<Rightarrow> bool \<times> orphans" where
  "AddOrphanTx sha t i s =
     (let h = fst (Tx_GetHash sha t) in
      if map_of (o_map s) h \<noteq> None then (False, s) else (True, s))"

fun erase_for_loop :: "(bytes \<Rightarrow> bytes) \<Rightarrow> nat \<Rightarrow> (bytes \<times> orphan_tx) list \<Rightarrow> orphans \<Rightarrow> orphans option" where
  "erase_for_loop sha i [] s = Some s"
| "erase_for_loop sha i ((k, e) # m) s =
     (if o_from e = i
      then Option.bind (EraseOrphanTx (fst (Tx_GetHash sha (o_tx e))) s) (\<lambda>(_, s1). erase_for_loop sha i m s1)
      else erase_for_loop sha i m s)"

definition EraseOrphansFor :: "(bytes \<Rightarrow> bytes) \<Rightarrow> nat \<Rightarrow> orphans \<Rightarrow> orphans option" where
  "EraseOrphansFor sha i s = erase_for_loop sha i (o_map s) s"

fun sweep_orphans :: "(bytes \<Rightarrow> bytes) \<Rightarrow> int \<Rightarrow> (bytes \<times> orphan_tx) list \<Rightarrow> int \<Rightarrow> orphans \<Rightarrow> (int \<times> orphans) option" where
  "sweep_orphans sha now [] t s = Some (t, s)"
| "sweep_orphans sha now ((k, e) # m) t s =
     (if o_expire e \<le> now
      then Option.bind (EraseOrphanTx (fst (Tx_GetHash sha (o_tx e))) s) (\<lambda>(_, s1). sweep_orphans sha now m t s1)
      else sweep_orphans sha now m (min (o_expire e) t) s)"

text \<open>The eviction loop: one random orphan after the other, \<open>rnd n\<close> the hash drawn in round \<open>n\<close>.\<close>

partial_function (option) evict_loop :: "(nat \<Rightarrow> bytes) \<Rightarrow> nat \<Rightarrow> nat \<Rightarrow> orphans \<Rightarrow> (nat \<times> orphans) option" where
  "evict_loop rnd limit n s =
     (if limit < length (o_map s)
      then let m = lower_bound (rnd n) (o_map s);
               victim = fst (hd (if m = [] then o_map s else m)) in
           Option.bind (EraseOrphanTx victim s) (\<lambda>(_, s1). evict_loop rnd limit (Suc n) s1)
      else Some (n, s))"

definition LimitOrphanTxSize ::
  "(bytes \<Rightarrow> bytes) \<Rightarrow> int \<Rightarrow> (nat \<Rightarrow> bytes) \<Rightarrow> nat \<Rightarrow> orphans \<Rightarrow> (nat \<times> orphans) option" where
  "LimitOrphanTxSize sha now rnd limit s =
     Option.bind
       (if o_next_sweep s \<le> now
        then Option.bind
               (sweep_orphans sha now (o_map s) (now + kBrphanTxExpireTime - kOrphanTxExpireInterval) s)
               (\<lambda>(t, s1). Some (s1\<lparr>o_next_sweep := t + kOrphanTxExpireInterval\<rparr>))
        else Some s)
       (evict_loop rnd limit 0)"

subsection \<open>The eviction returns\<close>

text \<open>With an empty second map, as in every state the program reaches.\<close>

definition orphans_wf :: "orphans \<Rightarrow> bool" where
  [inv_defs]: "orphans_wf s = (distinct (map fst (o_map s)) \<and> o_prev s = [])"

lemma erase_prev_empty [simp]: "erase_prev h is [] = Some []"
  by (induction "is") auto

lemma EraseOrphanTx_ok:
  assumes "orphans_wf s"
  shows "EraseOrphanTx h s = Some (if h \<in> fst ` set (o_map s) then 1 else 0, s\<lparr>o_map := AList.delete h (o_map s)\<rparr>)"
proof (cases "map_of (o_map s) h")
  case None
  then have h: "h \<notin> fst ` set (o_map s)" by (simp add: map_of_eq_None_iff)
  show ?thesis using None h by (simp add: EraseOrphanTx_def delete_id)
next
  case (Some e)
  moreover have "h \<in> fst ` set (o_map s)" using map_of_SomeD[OF Some] by force
  ultimately show ?thesis using assms by (cases s) (simp add: EraseOrphanTx_def orphans_wf_def)
qed

lemma orphans_wf_delete: "orphans_wf s \<Longrightarrow> orphans_wf (s\<lparr>o_map := AList.delete h (o_map s)\<rparr>)"
  by (simp add: orphans_wf_def distinct_delete)

lemma length_delete_key:
  "distinct (map fst m) \<Longrightarrow> h \<in> fst ` set m \<Longrightarrow> Suc (length (AList.delete h m)) = length m"
proof (induction m)
  case (Cons p m)
  show ?case
  proof (cases "fst p = h")
    case True
    then have "h \<notin> fst ` set m" using Cons.prems(1) by auto
    then show ?thesis using True by (cases p) (simp add: delete_id)
  next
    case False
    then show ?thesis using Cons by (cases p) auto
  qed
qed simp

lemma victim_in:
  "o_map s \<noteq> [] \<Longrightarrow> fst (hd (if lower_bound h (o_map s) = [] then o_map s else lower_bound h (o_map s))) \<in> fst ` set (o_map s)"
  unfolding lower_bound_def by (smt (verit) hd_in_set imageI set_dropWhileD)

lemma evict_returns:
  "orphans_wf s \<Longrightarrow>
   \<exists>s'. evict_loop rnd limit n s = Some (n + (length (o_map s) - limit), s') \<and> orphans_wf s' \<and>
     length (o_map s') = min limit (length (o_map s)) \<and> set (o_map s') \<subseteq> set (o_map s)"
proof (induction "length (o_map s)" arbitrary: s n rule: less_induct)
  case less
  show ?case
  proof (cases "limit < length (o_map s)")
    case False
    then show ?thesis using less.prems by (simp add: evict_loop.simps)
  next
    case True
    let ?v = "fst (hd (if lower_bound (rnd n) (o_map s) = [] then o_map s else lower_bound (rnd n) (o_map s)))"
    let ?s = "s\<lparr>o_map := AList.delete ?v (o_map s)\<rparr>"
    have v: "?v \<in> fst ` set (o_map s)" using True by (intro victim_in) auto
    have len: "Suc (length (o_map ?s)) = length (o_map s)"
      using length_delete_key[OF _ v] less.prems by (simp add: orphans_wf_def)
    have "length (o_map ?s) < length (o_map s)" using len by linarith
    from less.hyps[OF this orphans_wf_delete[OF less.prems], of "Suc n"]
    obtain s' where s': "evict_loop rnd limit (Suc n) ?s = Some (Suc n + (length (o_map ?s) - limit), s')"
        "orphans_wf s'" "length (o_map s') = min limit (length (o_map ?s))" "set (o_map s') \<subseteq> set (o_map ?s)"
      by blast
    have "evict_loop rnd limit n s = evict_loop rnd limit (Suc n) ?s"
      using True EraseOrphanTx_ok[OF less.prems, of ?v] by (subst evict_loop.simps) (simp add: Let_def)
    moreover have "set (o_map ?s) \<subseteq> set (o_map s)" by (auto simp: AList.delete_eq)
    ultimately show ?thesis using s' len True by (intro exI[of _ s'] conjI) (simp, simp, linarith, blast)
  qed
qed

text \<open>A sweep removes what has expired, provided entries are stored under the digest of their transaction.\<close>

definition keyed :: "(bytes \<Rightarrow> bytes) \<Rightarrow> orphans \<Rightarrow> bool" where
  "keyed sha s = (\<forall>(k, e)\<in>set (o_map s). fst (Tx_GetHash sha (o_tx e)) = k)"

lemma sweep_returns:
  assumes "orphans_wf s" "distinct (map fst m)" "\<forall>(k, e)\<in>set m. fst (Tx_GetHash sha (o_tx e)) = k"
  shows "\<exists>t'. sweep_orphans sha now m t s = Some (t', s\<lparr>o_map :=
    filter (\<lambda>(k, _). \<not> (\<exists>e. (k, e) \<in> set m \<and> o_expire e \<le> now)) (o_map s)\<rparr>)"
  using assms
proof (induction sha now m t s rule: sweep_orphans.induct)
  case (2 sha now k e m t s)
  have h: "fst (Tx_GetHash sha (o_tx e)) = k" using "2.prems"(3) by auto
  have once: "(k, e') \<notin> set m" for e' using "2.prems"(2) by force
  show ?case
  proof (cases "o_expire e \<le> now")
    case True
    define s1 where "s1 = s\<lparr>o_map := AList.delete k (o_map s)\<rparr>"
    define r :: nat where "r = (if k \<in> fst ` set (o_map s) then 1 else 0)"
    have E: "EraseOrphanTx (fst (Tx_GetHash sha (o_tx e))) s = Some (r, s1)"
      using EraseOrphanTx_ok[OF "2.prems"(1), of k] h by (simp add: s1_def r_def)
    have "\<exists>t'. sweep_orphans sha now m t s1 = Some (t', s1\<lparr>o_map :=
        filter (\<lambda>(k, _). \<not> (\<exists>e. (k, e) \<in> set m \<and> o_expire e \<le> now)) (o_map s1)\<rparr>)"
      using "2.prems" orphans_wf_delete[OF "2.prems"(1)] by (intro "2.IH"(1)[OF True E refl]) (auto simp: s1_def)
    moreover have "filter (\<lambda>(j, _). \<not> (\<exists>e. (j, e) \<in> set m \<and> o_expire e \<le> now)) (AList.delete k (o_map s)) =
        filter (\<lambda>(j, _). \<not> (\<exists>e'. (j, e') \<in> set ((k, e) # m) \<and> o_expire e' \<le> now)) (o_map s)"
      using True by (auto simp: AList.delete_eq intro!: filter_cong)
    ultimately show ?thesis using True E by (simp add: s1_def)
  next
    case False
    have "filter (\<lambda>(j, _). \<not> (\<exists>e. (j, e) \<in> set m \<and> o_expire e \<le> now)) (o_map s) =
        filter (\<lambda>(j, _). \<not> (\<exists>e'. (j, e') \<in> set ((k, e) # m) \<and> o_expire e' \<le> now)) (o_map s)"
      using False by (auto intro!: filter_cong)
    then show ?thesis using "2.IH"(2)[OF False] "2.prems" False by simp
  qed
qed (auto simp: filter_id_conv)

lemma sweep_all:
  assumes "orphans_wf s" "keyed sha s"
  shows "\<exists>t'. sweep_orphans sha now (o_map s) t s =
    Some (t', s\<lparr>o_map := filter (\<lambda>(k, e). now < o_expire e) (o_map s)\<rparr>)"
proof -
  have "filter (\<lambda>(k, _). \<not> (\<exists>e. (k, e) \<in> set (o_map s) \<and> o_expire e \<le> now)) (o_map s) =
      filter (\<lambda>(k, e). now < o_expire e) (o_map s)"
    using assms(1) by (intro filter_cong) (auto simp: orphans_wf_def not_le dest: eq_key_imp_eq_value)
  then show ?thesis
    using sweep_returns[of s "o_map s" sha now t] assms by (simp add: orphans_wf_def keyed_def)
qed

text \<open>While the second map is empty, as it is in every state the program reaches, limiting the pool returns, leaves at most the given number of orphans and only orphans that
  were there, reports exactly how many it evicted beyond the limit, and when a sweep is due leaves
  none that has expired.\<close>
theorem LimitOrphanTxSize_exact:
  assumes "orphans_wf s" "keyed sha s"
  shows "\<exists>n s'. LimitOrphanTxSize sha now rnd limit s = Some (n, s') \<and>
    length (o_map s') \<le> limit \<and> set (o_map s') \<subseteq> set (o_map s) \<and>
    (if o_next_sweep s \<le> now
     then n = length (filter (\<lambda>(k, e). now < o_expire e) (o_map s)) - limit \<and> (\<forall>(k, e)\<in>set (o_map s'). now < o_expire e)
     else n = length (o_map s) - limit)"
proof (cases "o_next_sweep s \<le> now")
  case True
  let ?m = "filter (\<lambda>(k, e). now < o_expire e) (o_map s)"
  obtain t where t: "sweep_orphans sha now (o_map s) (now + kBrphanTxExpireTime - kOrphanTxExpireInterval) s =
      Some (t, s\<lparr>o_map := ?m\<rparr>)" using sweep_all[OF assms] by blast
  let ?s = "s\<lparr>o_map := ?m, o_next_sweep := t + kOrphanTxExpireInterval\<rparr>"
  have "orphans_wf ?s" using assms(1) by (simp add: orphans_wf_def distinct_map_filter)
  from evict_returns[OF this, of rnd limit 0] obtain s' where s':
    "evict_loop rnd limit 0 ?s = Some (length ?m - limit, s')" "length (o_map s') = min limit (length ?m)"
    "set (o_map s') \<subseteq> set ?m" by auto
  then show ?thesis using True t by (intro exI[of _ "length ?m - limit"] exI[of _ s']) (auto simp: LimitOrphanTxSize_def)
next
  case False
  from evict_returns[OF assms(1), of rnd limit 0] obtain s' where
    "evict_loop rnd limit 0 s = Some (length (o_map s) - limit, s')" "length (o_map s') = min limit (length (o_map s))"
    "set (o_map s') \<subseteq> set (o_map s)" by auto
  then show ?thesis using False
    by (intro exI[of _ "length (o_map s) - limit"] exI[of _ s']) (auto simp: LimitOrphanTxSize_def)
qed

lemma LimitOrphanTxSize_exact_witness:
  "let e = \<lparr>o_tx = \<lparr>tx_version = 1, inputs = [], outputs = [], lock_time = 0, hash_cache = replicate 32 1\<rparr>, o_from = 0, o_expire = 5\<rparr>;
       s = \<lparr>o_map = [(replicate 32 1, e)], o_prev = [], o_next_sweep = 9\<rparr> in
   \<exists>n s'. LimitOrphanTxSize (\<lambda>_. replicate 32 1) 6 (\<lambda>_. []) 0 s = Some (n, s') \<and> length (o_map s') \<le> 0"
proof -
  let ?e = "\<lparr>o_tx = \<lparr>tx_version = 1, inputs = [], outputs = [], lock_time = 0, hash_cache = replicate 32 1\<rparr>, o_from = 0, o_expire = 5\<rparr>"
  let ?s = "\<lparr>o_map = [(replicate 32 1, ?e)], o_prev = [], o_next_sweep = 9\<rparr>"
  have "fst (Tx_GetHash (\<lambda>_. replicate 32 1) (o_tx ?e)) = replicate 32 (1 :: u8)"
    by (simp add: Tx_GetHash_def Let_def null_hash_def kHashSize_def)
  then have k: "keyed (\<lambda>_. replicate 32 1) ?s" by (simp add: keyed_def)
  have "orphans_wf ?s" by (simp add: orphans_wf_def)
  then show ?thesis using LimitOrphanTxSize_exact[OF _ k, of 6 "\<lambda>_. []" 0] by (auto simp: Let_def)
qed

subsection \<open>The pool of the program\<close>

text \<open>The only operation that could store an orphan has its body in a comment.\<close>

lemma AddOrphanTx_stores_nothing: "snd (AddOrphanTx sha t i s) = s"
  by (simp add: AddOrphanTx_def Let_def)

lemma empty_pool [simp]: "EraseOrphansFor sha i Orphans_new = Some Orphans_new"
  by (simp add: EraseOrphansFor_def Orphans_new_def)

end
