(* ===== verification/Node.thy ===== *)
theory Node
  imports Messages Ban_List Peers Time_Data Timer Orphans
begin

text \<open>
  Connected peers: \<^verbatim>\<open>src/network/include/node.h\<close> and \<^verbatim>\<open>src/network/src/node.cpp\<close>.  Nodes are shared objects:
  a node is its number, \<open>w_node\<close> the object behind it; the lists of the acceptor, the connector and the
  singleton hold numbers.  The state \<open>world\<close> also holds what the operations on a node reach: the
  timers, the peer store, the ban list, the orphans, the network time, the local addresses.

  \<open>lib\<close> collects the parameters of the model: the digests and the base32 text of libraries, the ring
  \<open>e_known_push\<close> of boost, the exponential delay \<open>e_interval\<close> (floating point), the buffer functions
  \<open>e_pullup\<close> and \<open>e_drain\<close> of libevent, what uninitialised memory holds, and the configuration.
  \<open>tick\<close> collects what one step finds: the clocks, the random source (\<open>t_rand m\<close> is a number up to \<open>m\<close>),
  whether libevent takes the bytes it is given, whether a shutdown was requested, the chain height.
\<close>

record lib =
  e_sha :: "bytes \<Rightarrow> bytes"
  e_txsha :: "bytes \<Rightarrow> bytes"
  e_b32 :: "bytes \<Rightarrow> string"
  e_known_push :: "u64 list \<Rightarrow> u64 \<Rightarrow> u64 list"
  e_interval :: "nat \<Rightarrow> nat \<Rightarrow> int"
  e_pullup :: "nat \<Rightarrow> bytes \<Rightarrow> bytes option"
  e_drain :: "nat \<Rightarrow> bytes \<Rightarrow> bytes"
  e_cc :: compiler
  e_mem :: bytes
  e_agent :: bytes
  e_magic :: u32
  e_port :: u16
  e_advertise :: bool

record tick =
  t_now :: int
  t_ms :: int
  t_rand :: "nat \<Rightarrow> nat"
  t_write :: "bytes \<Rightarrow> bool"
  t_stop :: bool
  t_height :: u32

datatype conn_state = kInitialState | kEstablished | kDisconnected

text \<open>Which list the callback registered for the disconnected state erases the node from.\<close>

datatype owner = Inbound | Outbound

datatype timer_slot = no_msg | no_sending | no_receiving | shakehands | ping | advertise_local_addr | broadcast_addrs

datatype timer_cb =
    SocketNoMsg nat
  | Inactivity nat
  | PingTimeout nat u32
  | ShakeHands nat
  | AdvertiseLocal nat
  | RelayFloodingAddrs nat u32

record node =
  n_inbound :: bool
  n_services :: u64
  n_nonce :: u64
  n_version :: u32
  n_start_height :: u32
  n_bev :: "nat option"
  n_addr :: net_addr
  n_host :: string
  n_local_addr :: net_addr
  n_manual :: bool
  n_state :: conn_state
  n_owner :: "owner option"
  n_no_msg :: bool
  n_to_send :: "net_addr list"
  n_known :: "u64 list"
  n_sent_getaddr :: bool
  n_relay_txes :: bool
  n_ping_nonce :: u64
  n_timers :: "timer_slot \<Rightarrow> nat option"
  n_score :: int
  n_should_ban :: bool
  n_in_flight :: "bytes list"
  n_witness :: bool
  n_input :: bytes
  n_output :: bytes

record world =
  w_node :: "nat \<Rightarrow> node"
  w_next_id :: nat
  w_inbounds :: "nat list"
  w_outbounds :: "nat list"
  w_singleton :: "nat list"
  w_preferred :: int
  w_tm :: "timer_cb timer_mng"
  w_peers :: peers
  w_bans :: ban_map
  w_time :: time_data
  w_blocks_in_flight :: "bytes list"
  w_orphans :: orphans
  w_service :: u64
  w_local_addrs :: "net_addr list"

definition upd_node :: "nat \<Rightarrow> (node \<Rightarrow> node) \<Rightarrow> world \<Rightarrow> world" where
  "upd_node i f w = w\<lparr>w_node := (w_node w)(i := f (w_node w i))\<rparr>"

definition start_timer :: "tick \<Rightarrow> u32 \<Rightarrow> u32 \<Rightarrow> timer_cb \<Rightarrow> world \<Rightarrow> nat option \<times> world" where
  "start_timer e d iv cb w = (let (t, m) = StartTimer (t_ms e) d iv cb (w_tm w) in (t, w\<lparr>w_tm := m\<rparr>))"

definition start_node_timer :: "tick \<Rightarrow> nat \<Rightarrow> timer_slot \<Rightarrow> u32 \<Rightarrow> u32 \<Rightarrow> timer_cb \<Rightarrow> world \<Rightarrow> world" where
  "start_node_timer e i s d iv cb w =
     (let (t, w1) = start_timer e d iv cb w in upd_node i (\<lambda>n. n\<lparr>n_timers := (n_timers n)(s := t)\<rparr>) w1)"

definition reset_timer :: "tick \<Rightarrow> nat \<Rightarrow> world \<Rightarrow> world" where
  "reset_timer e t w = w\<lparr>w_tm := tm_upd t (Timer_Reset (t_ms e) 0 0) (w_tm w)\<rparr>"

subsection \<open>Service flags\<close>

definition kNodeNetwork :: u64 where "kNodeNetwork = 1"
definition kNodeBloom :: u64 where "kNodeBloom = 4"
definition kNodeWitness :: u64 where "kNodeWitness = 8"
definition kNodeNetworkLimited :: u64 where "kNodeNetworkLimited = 1024"
definition kDesirableServiceFlags :: u64 where "kDesirableServiceFlags = kNodeNetwork OR kNodeWitness"

definition IsServiceFlagDesirable :: "u64 \<Rightarrow> bool" where
  "IsServiceFlagDesirable services = (kDesirableServiceFlags AND NOT services = 0)"

subsection \<open>FloodingAddrs\<close>

definition addr_key :: "lib \<Rightarrow> net_addr \<Rightarrow> u64" where
  "addr_key l a = from_little_endian (take 8 (NetAddr_GetHash (e_sha l) a))"

definition IsKnownAddr :: "lib \<Rightarrow> net_addr \<Rightarrow> node \<Rightarrow> bool" where
  "IsKnownAddr l a n = (addr_key l a \<in> set (n_known n))"

text \<open>\<^verbatim>\<open>RandUint64(size)\<close> includes its bound, one past the last index.\<close>

definition PushAddrToSend :: "lib \<Rightarrow> (nat \<Rightarrow> nat) \<Rightarrow> net_addr \<Rightarrow> node \<Rightarrow> (bool \<times> node) res" where
  "PushAddrToSend l rnd a n =
     (if \<not> NetAddr_IsValid a \<or> IsKnownAddr l a n then Inr (False, n)
      else if kMaxAddrToSend \<le> length (n_to_send n)
      then let k = rnd (length (n_to_send n)) in
           if k < length (n_to_send n) then Inr (True, n\<lparr>n_to_send := (n_to_send n)[k := a]\<rparr>) else Inl Undefined
      else Inr (True, n\<lparr>n_to_send := n_to_send n @ [a]\<rparr>))"

definition ClearSentAddr :: "node \<Rightarrow> node" where
  "ClearSentAddr n = n\<lparr>n_to_send := []\<rparr>"

definition AddKnownAddr :: "lib \<Rightarrow> net_addr \<Rightarrow> node \<Rightarrow> bool \<times> node" where
  "AddKnownAddr l a n =
     (if \<not> NetAddr_IsValid a then (False, n)
      else (True, n\<lparr>n_known := e_known_push l (n_known n) (addr_key l a)\<rparr>))"

subsection \<open>Misbehavior\<close>

text \<open>The threshold is unsigned, so the \<^verbatim>\<open>int\<close> score is compared as an unsigned number.\<close>

definition Misbehaving :: "int \<Rightarrow> node \<Rightarrow> node res" where
  "Misbehaving howmuch n =
     (if howmuch = 0 then Inr n
      else
        let score = n_score n + howmuch in
        if \<not> (- (2 ^ 31) \<le> score \<and> score < 2 ^ 31) then Inl Undefined
        else
          let n1 = n\<lparr>n_score := score\<rparr> in
          if kDefaultBanscoreThreshold \<le> (of_int score :: u32) \<and>
             (of_int (score - howmuch) :: u32) < kDefaultBanscoreThreshold
          then Inr (n1\<lparr>n_should_ban := True\<rparr>) else Inr n1)"

subsection \<open>Node\<close>

definition IsClient :: "node \<Rightarrow> bool" where
  "IsClient n = (n_services n AND kNodeNetwork = 0)"

definition IsPreferedDownload :: "node \<Rightarrow> bool" where
  "IsPreferedDownload n = (\<not> n_inbound n \<and> \<not> IsClient n)"

definition ShouldUpdateTime :: "node \<Rightarrow> bool" where
  "ShouldUpdateTime n = (if n_score n = 0 \<and> n_state n = kEstablished then True else False)"

definition IsHandshakeCompleted :: "node \<Rightarrow> bool" where
  "IsHandshakeCompleted n = (n_state n = kEstablished)"

definition IsDisconnected :: "node \<Rightarrow> bool" where
  "IsDisconnected n = (n_state n = kDisconnected)"

definition IsLocalAddrGood :: "bool \<Rightarrow> node \<Rightarrow> bool" where
  "IsLocalAddrGood discover n = (discover \<and> IsRoutable (n_addr n) \<and> IsRoutable (n_local_addr n))"

definition set_local_addr :: "net_addr \<Rightarrow> node \<Rightarrow> node" where
  "set_local_addr a n = (if \<not> NetAddr_IsValid (n_local_addr n) then n\<lparr>n_local_addr := a\<rparr> else n)"

definition int_of_bool :: "bool \<Rightarrow> int" where
  "int_of_bool b = (if b then 1 else 0)"

definition fresh_node :: "tick \<Rightarrow> nat option \<Rightarrow> net_addr \<Rightarrow> bool \<Rightarrow> bool \<Rightarrow> string \<Rightarrow> node" where
  "fresh_node e bev addr is_inbound manual host =
     \<lparr>n_inbound = is_inbound, n_services = 0, n_nonce = of_nat (t_rand e (2 ^ 64 - 1)), n_version = 0,
      n_start_height = 0, n_bev = bev, n_addr = addr, n_host = host, n_local_addr = NetAddr_new,
      n_manual = manual, n_state = kInitialState, n_owner = None, n_no_msg = True,
      n_to_send = [], n_known = [], n_sent_getaddr = False, n_relay_txes = False, n_ping_nonce = 0,
      n_timers = (\<lambda>_. None), n_score = 0, n_should_ban = False, n_in_flight = [], n_witness = False,
      n_input = [], n_output = []\<rparr>"

definition Node_new :: "tick \<Rightarrow> nat option \<Rightarrow> net_addr \<Rightarrow> bool \<Rightarrow> bool \<Rightarrow> string \<Rightarrow> world \<Rightarrow> nat \<times> world" where
  "Node_new e bev addr is_inbound manual host w =
     (let i = w_next_id w; n = fresh_node e bev addr is_inbound manual host in
      (i, w\<lparr>w_node := (w_node w)(i := n), w_next_id := Suc i,
            w_preferred := w_preferred w + int_of_bool (IsPreferedDownload n)\<rparr>))"

definition set_services :: "nat \<Rightarrow> u64 \<Rightarrow> world \<Rightarrow> world" where
  "set_services i sv w =
     (let w1 = w\<lparr>w_preferred := w_preferred w - int_of_bool (IsPreferedDownload (w_node w i))\<rparr>;
          w2 = upd_node i (\<lambda>n. n\<lparr>n_services := sv\<rparr>) w1 in
      w2\<lparr>w_preferred := w_preferred w2 + int_of_bool (IsPreferedDownload (w_node w2 i))\<rparr>)"

definition stop_slot :: "nat \<Rightarrow> timer_slot \<Rightarrow> world \<Rightarrow> world res" where
  "stop_slot i s w =
     (case n_timers (w_node w i) s of None \<Rightarrow> Inr w
      | Some t \<Rightarrow>
          res_bind (StopTimer (Some t) (w_tm w)) (\<lambda>m.
            Inr (upd_node i (\<lambda>n. n\<lparr>n_timers := (n_timers n)(s := None)\<rparr>) (w\<lparr>w_tm := m\<rparr>))))"

fun stop_slots :: "nat \<Rightarrow> timer_slot list \<Rightarrow> world \<Rightarrow> world res" where
  "stop_slots i [] w = Inr w"
| "stop_slots i (s # ss) w = res_bind (stop_slot i s w) (stop_slots i ss)"

definition all_slots :: "timer_slot list" where
  "all_slots = [no_msg, no_sending, no_receiving, shakehands, ping, advertise_local_addr, broadcast_addrs]"

definition StopAllTimers :: "nat \<Rightarrow> world \<Rightarrow> world res" where
  "StopAllTimers i w = stop_slots i all_slots w"

subsection \<open>Nodes\<close>

fun nodes_of :: "owner \<Rightarrow> world \<Rightarrow> nat list" where
  "nodes_of Inbound w = w_inbounds w"
| "nodes_of Outbound w = w_outbounds w"

fun set_nodes :: "owner \<Rightarrow> nat list \<Rightarrow> world \<Rightarrow> world" where
  "set_nodes Inbound is w = w\<lparr>w_inbounds := is\<rparr>"
| "set_nodes Outbound is w = w\<lparr>w_outbounds := is\<rparr>"

definition AddNode :: "owner \<Rightarrow> nat \<Rightarrow> world \<Rightarrow> world" where
  "AddNode o1 i w = set_nodes o1 (nodes_of o1 w @ [i]) w"

definition GetNode_id :: "nat list \<Rightarrow> nat \<Rightarrow> nat option" where
  "GetNode_id is i = List.find (\<lambda>j. j = i) is"

definition GetNode_bev :: "nat list \<Rightarrow> nat \<Rightarrow> world \<Rightarrow> nat option" where
  "GetNode_bev is b w = List.find (\<lambda>j. n_bev (w_node w j) = Some b) is"

definition GetNode_addr :: "nat list \<Rightarrow> net_addr \<Rightarrow> world \<Rightarrow> nat option" where
  "GetNode_addr is a w = List.find (\<lambda>j. NetAddr_eq (n_addr (w_node w j)) a) is"

definition GetNode_subnet :: "nat list \<Rightarrow> subnet \<Rightarrow> world \<Rightarrow> nat list" where
  "GetNode_subnet is sn w = filter (\<lambda>j. Match sn (n_addr (w_node w j))) is"

definition EraseNode :: "owner \<Rightarrow> nat \<Rightarrow> world \<Rightarrow> world" where
  "EraseNode o1 i w = set_nodes o1 (remove1 i (nodes_of o1 w)) w"

definition InitializeNode ::
  "tick \<Rightarrow> owner \<Rightarrow> nat option \<Rightarrow> net_addr \<Rightarrow> bool \<Rightarrow> bool \<Rightarrow> world \<Rightarrow> nat option \<times> world" where
  "InitializeNode e o1 bev addr is_inbound manual w =
     (let (i, w1) = Node_new e bev addr is_inbound manual [] w;
          w2 = start_node_timer e i no_msg (of_nat kNoMsgTimeout * 1000) 0 (SocketNoMsg i) w1;
          w3 = start_node_timer e i shakehands (of_nat kShakeHandsTimeout * 1000) 0 (ShakeHands i) w2;
          w4 = AddNode o1 i w3 in
      if GetNode_id (nodes_of o1 w4) i = None then (None, w4) else (Some i, w4))"

definition CountPreferredDownload :: "nat list \<Rightarrow> world \<Rightarrow> nat" where
  "CountPreferredDownload is w =
     length (filter (\<lambda>i. \<not> IsDisconnected (w_node w i) \<and> IsPreferedDownload (w_node w i)) is)"

definition ShouldDnsLookup :: "nat list \<Rightarrow> world \<Rightarrow> bool" where
  "ShouldDnsLookup is w =
     (length (filter (\<lambda>i. IsHandshakeCompleted (w_node w i) \<and> \<not> n_manual (w_node w i) \<and> \<not> n_inbound (w_node w i)) is) < 2)"

definition CheckIncomingNonce :: "nat list \<Rightarrow> u64 \<Rightarrow> world \<Rightarrow> bool" where
  "CheckIncomingNonce is nonce w =
     (List.find (\<lambda>i. \<not> IsHandshakeCompleted (w_node w i) \<and> \<not> n_inbound (w_node w i) \<and> n_nonce (w_node w i) = nonce) is = None)"

subsection \<open>Disconnecting\<close>

text \<open>The search for an orphan that does not return is not met: the pool is empty, see \<open>Orphans\<close>.\<close>

definition erase_orphans :: "lib \<Rightarrow> nat \<Rightarrow> world \<Rightarrow> world res" where
  "erase_orphans l i w =
     (case EraseOrphansFor (e_txsha l) i (w_orphans w) of None \<Rightarrow> Inl Undefined | Some p \<Rightarrow> Inr (w\<lparr>w_orphans := p\<rparr>))"

definition update_peer_time :: "lib \<Rightarrow> tick \<Rightarrow> nat \<Rightarrow> world \<Rightarrow> world" where
  "update_peer_time l e i w =
     (if ShouldUpdateTime (w_node w i)
      then w\<lparr>w_peers := snd (Peers_UpdateTime (e_sha l) (n_addr (w_node w i)) (t_now e) (w_peers w))\<rparr> else w)"

definition erase_in_flight :: "nat \<Rightarrow> world \<Rightarrow> world" where
  "erase_in_flight i w =
     w\<lparr>w_blocks_in_flight := fold removeAll (n_in_flight (w_node w i)) (w_blocks_in_flight w)\<rparr>"

definition DisconnectNodeCb :: "lib \<Rightarrow> tick \<Rightarrow> nat \<Rightarrow> owner \<Rightarrow> world \<Rightarrow> world res" where
  "DisconnectNodeCb l e i o1 w =
     res_bind (StopAllTimers i w) (\<lambda>w1.
     res_bind (erase_orphans l i (erase_in_flight i (update_peer_time l e i w1))) (\<lambda>w2.
       Inr (EraseNode o1 i w2)))"

definition set_connection_state :: "lib \<Rightarrow> tick \<Rightarrow> nat \<Rightarrow> conn_state \<Rightarrow> world \<Rightarrow> world res" where
  "set_connection_state l e i st w =
     (let w1 = upd_node i (\<lambda>n. n\<lparr>n_state := st\<rparr>) w in
      if st = kDisconnected
      then case n_owner (w_node w i) of None \<Rightarrow> Inr w1 | Some o1 \<Rightarrow> DisconnectNodeCb l e i o1 w1
      else Inr w1)"

definition Disconnect :: "lib \<Rightarrow> tick \<Rightarrow> nat \<Rightarrow> world \<Rightarrow> world res" where
  "Disconnect l e i w = set_connection_state l e i kDisconnected w"

definition DisconnectNode :: "lib \<Rightarrow> tick \<Rightarrow> nat \<Rightarrow> world \<Rightarrow> world res" where
  "DisconnectNode l e i w =
     res_bind (set_connection_state l e i kDisconnected w) (\<lambda>w1.
     res_bind (StopAllTimers i w1) (\<lambda>w2.
     res_bind (erase_orphans l i (erase_in_flight i (update_peer_time l e i w2))) (\<lambda>w3.
       Inr (w3\<lparr>w_singleton := remove1 i (w_singleton w3)\<rparr>))))"

fun disconnect_all :: "lib \<Rightarrow> tick \<Rightarrow> nat list \<Rightarrow> world \<Rightarrow> world res" where
  "disconnect_all l e [] w = Inr w"
| "disconnect_all l e (i # is) w = res_bind (DisconnectNode l e i w) (disconnect_all l e is)"

definition DisconnectNode_subnet :: "lib \<Rightarrow> tick \<Rightarrow> subnet \<Rightarrow> world \<Rightarrow> world res" where
  "DisconnectNode_subnet l e sn w = disconnect_all l e (GetNode_subnet (w_singleton w) sn w) w"

definition CheckBanned :: "lib \<Rightarrow> tick \<Rightarrow> nat \<Rightarrow> world \<Rightarrow> (bool \<times> world) res" where
  "CheckBanned l e i w =
     (if \<not> n_should_ban (w_node w i) then Inr (False, w)
      else
        let w1 = upd_node i (\<lambda>n. n\<lparr>n_should_ban := False\<rparr>) w in
        if n_manual (w_node w1 i) then Inr (True, w1)
        else
          res_bind (Disconnect l e i w1) (\<lambda>w2.
            if IsLocal (n_addr (w_node w2 i)) then Inr (True, w2)
            else Inr (True, w2\<lparr>w_bans :=
              snd (Ban_Add (e_b32 l) (t_now e, t_now e) (n_addr (w_node w2 i)) kNodeMisbehaving (w_bans w2))\<rparr>)))"

subsection \<open>Timer callbacks\<close>

definition InactivityTimeoutCb :: "lib \<Rightarrow> tick \<Rightarrow> nat \<Rightarrow> world \<Rightarrow> world res" where
  "InactivityTimeoutCb l e i w =
     (if t_stop e \<or> IsDisconnected (w_node w i) then Inr w else Disconnect l e i w)"

definition SocketNoMsgTimeoutCb :: "lib \<Rightarrow> tick \<Rightarrow> nat \<Rightarrow> world \<Rightarrow> world res" where
  "SocketNoMsgTimeoutCb l e i w =
     (if t_stop e \<or> IsDisconnected (w_node w i) then Inr w
      else if \<not> n_no_msg (w_node w i) then Inr w
      else Disconnect l e i w)"

definition ShakeHandsTimeoutCb :: "lib \<Rightarrow> tick \<Rightarrow> nat \<Rightarrow> world \<Rightarrow> world res" where
  "ShakeHandsTimeoutCb l e i w =
     (if t_stop e \<or> IsDisconnected (w_node w i) then Inr w
      else if IsHandshakeCompleted (w_node w i) then Inr w
      else Disconnect l e i w)"

subsection \<open>The empty state\<close>

definition world_init :: "bytes \<Rightarrow> world" where
  "world_init key =
     \<lparr>w_node = (\<lambda>_. fresh_node \<lparr>t_now = 0, t_ms = 0, t_rand = (\<lambda>_. 0), t_write = (\<lambda>_. True), t_stop = False, t_height = 0\<rparr>
        None NetAddr_new True False []), w_next_id = 0, w_inbounds = [], w_outbounds = [], w_singleton = [],
      w_preferred = 0, w_tm = tm_init, w_peers = Peers_new key, w_bans = [], w_time = time_data_init,
      w_blocks_in_flight = [], w_orphans = Orphans_new,
      w_service = kNodeNetwork OR kNodeBloom OR kNodeNetworkLimited, w_local_addrs = []\<rparr>"

text \<open>Stand-ins for the parameters, used where a theorem is applied to a concrete case.\<close>

definition lib0 :: lib where
  "lib0 = \<lparr>e_sha = (\<lambda>_. replicate 32 7), e_txsha = (\<lambda>_. replicate 32 7), e_b32 = (\<lambda>_. ''x''),
     e_known_push = (\<lambda>ks k. last_n 3000 (ks @ [k])), e_interval = (\<lambda>a r. int a * 1000000),
     e_pullup = (\<lambda>n b. if n \<le> length b then Some (take n b) else None), e_drain = (\<lambda>n b. drop n b),
     e_cc = tidy, e_mem = [], e_agent = ascii ''/btclite:0.1/'', e_magic = kMainnetMagic, e_port = 8333, e_advertise = True\<rparr>"

definition tick0 :: tick where
  "tick0 = \<lparr>t_now = 1600000000, t_ms = 1600000000000, t_rand = (\<lambda>_. 5), t_write = (\<lambda>_. True), t_stop = False, t_height = 0\<rparr>"

end
