(* ===== verification/Local_Service.thy ===== *)
theory Local_Service
  imports Node
begin

text \<open>
  \<^verbatim>\<open>LocalService\<close> of \<^verbatim>\<open>src/network/src/net.cpp\<close>: the addresses of this host and which of them is told to a
  peer.  The interfaces the system reports are an argument of the discovery: for each its flag
  \<^verbatim>\<open>IFF_UP\<close>, its name, and its address as a \<open>net_addr\<close> when the family is one of the two handled.
\<close>

record interface =
  if_name :: string
  if_up :: bool
  if_addr :: "net_addr option"

definition IsInitialBlockDownload :: bool where
  "IsInitialBlockDownload = False"

definition is_local_addr :: "net_addr list \<Rightarrow> net_addr \<Rightarrow> bool" where
  "is_local_addr locals addr = (List.find (\<lambda>entry. NetAddr_eq addr entry) locals \<noteq> None)"

definition AddLocalAddr :: "net_addr \<Rightarrow> net_addr list \<Rightarrow> bool \<times> net_addr list" where
  "AddLocalAddr addr locals =
     (if \<not> IsRoutable addr then (False, locals)
      else if is_local_addr locals addr then (True, locals)
      else (True, locals @ [addr]))"

fun discover_loop :: "interface list \<Rightarrow> net_addr list \<Rightarrow> net_addr list" where
  "discover_loop [] locals = locals"
| "discover_loop (f # fs) locals =
     (if \<not> if_up f then discover_loop fs locals
      else if if_name f = ''lo'' then discover_loop fs locals
      else if if_name f = ''lo0'' then discover_loop fs locals
      else case if_addr f of None \<Rightarrow> discover_loop fs locals
           | Some a \<Rightarrow> discover_loop fs (snd (AddLocalAddr a locals)))"

definition DiscoverLocalAddrs :: "interface list option \<Rightarrow> net_addr list \<Rightarrow> bool \<times> net_addr list" where
  "DiscoverLocalAddrs ifs locals =
     (case ifs of None \<Rightarrow> (False, locals)
      | Some fs \<Rightarrow> let locals' = discover_loop fs locals in (locals' \<noteq> [], locals'))"

fun best_local :: "net_addr \<Rightarrow> net_addr list \<Rightarrow> net_addr \<Rightarrow> int \<Rightarrow> net_addr" where
  "best_local peer_addr [] out best = out"
| "best_local peer_addr (entry # locals) out best =
     (let r = int (reach_code (GetReachability entry peer_addr)) in
      if best < r then best_local peer_addr locals entry r else best_local peer_addr locals out best)"

definition GetLocalAddr :: "net_addr \<Rightarrow> u64 \<Rightarrow> int \<Rightarrow> net_addr list \<Rightarrow> net_addr" where
  "GetLocalAddr peer_addr services adjusted locals =
     NetAddr_set_timestamp (of_int adjusted)
       (NetAddr_set_services services (best_local peer_addr locals (NetAddr_Clear NetAddr_new) (- 1)))"

definition push_addr :: "lib \<Rightarrow> tick \<Rightarrow> nat \<Rightarrow> net_addr \<Rightarrow> world \<Rightarrow> world res" where
  "push_addr l e i a w =
     res_bind (PushAddrToSend l (t_rand e) a (w_node w i)) (\<lambda>(_, n). Inr (upd_node i (\<lambda>_. n) w))"

definition AdvertiseLocalAddr :: "lib \<Rightarrow> tick \<Rightarrow> nat \<Rightarrow> bool \<Rightarrow> world \<Rightarrow> world res" where
  "AdvertiseLocalAddr l e i discovered_addr_first w =
     (if IsDisconnected (w_node w i) then Inr w
      else
        let addr_local = GetLocalAddr (n_addr (w_node w i)) (n_services (w_node w i))
                           (GetAdjustedTime (t_now e) (w_time w)) (w_local_addrs w) in
        if discovered_addr_first \<and> IsRoutable addr_local then push_addr l e i addr_local w
        else if IsLocalAddrGood True (w_node w i) then push_addr l e i (n_local_addr (w_node w i)) w
        else Inr w)"

text \<open>
  \<^verbatim>\<open>IntervalNextSend\<close> draws a delay in microseconds; the callers multiply it by a thousand and use it
  as milliseconds, cut to 32 bits.
\<close>

definition interval_ms :: "lib \<Rightarrow> tick \<Rightarrow> nat \<Rightarrow> u32" where
  "interval_ms l e average = of_int (e_interval l average (t_rand e (2 ^ 48)) * 1000)"

definition set_slot_interval :: "nat \<Rightarrow> timer_slot \<Rightarrow> u32 \<Rightarrow> world \<Rightarrow> world res" where
  "set_slot_interval i s iv w =
     (case n_timers (w_node w i) s of None \<Rightarrow> Inl Undefined
      | Some t \<Rightarrow> Inr (w\<lparr>w_tm := tm_upd t (\<lambda>c. c\<lparr>tc_interval := iv\<rparr>) (w_tm w)\<rparr>))"

definition AdvertiseLocalTimeoutCb :: "lib \<Rightarrow> tick \<Rightarrow> nat \<Rightarrow> world \<Rightarrow> world res" where
  "AdvertiseLocalTimeoutCb l e i w =
     (if t_stop e then Inr w
      else if IsDisconnected (w_node w i) then Inr w
      else if IsInitialBlockDownload
      then set_slot_interval i advertise_local_addr (interval_ms l e kAdvertiseLocalInterval) w
      else
        res_bind (AdvertiseLocalAddr l e i False w)
          (set_slot_interval i advertise_local_addr (interval_ms l e kAdvertiseLocalInterval)))"

subsection \<open>What is told to a peer\<close>

text \<open>The address picked is one of the local ones that the peer reaches best; the empty one if there are none.\<close>

lemma best_local_spec:
  "(best_local p locals out best = out \<and> (\<forall>a\<in>set locals. int (reach_code (GetReachability a p)) \<le> best)) \<or>
   (best_local p locals out best \<in> set locals \<and>
    best < int (reach_code (GetReachability (best_local p locals out best) p)) \<and>
    (\<forall>a\<in>set locals. reach_code (GetReachability a p) \<le> reach_code (GetReachability (best_local p locals out best) p)))"
  by (induction p locals out best rule: best_local.induct) (force simp: Let_def)+

lemma best_local_best:
  assumes "a \<in> set locals"
  shows "best_local p locals out (- 1) \<in> set locals \<and>
    GetReachability a p \<le> GetReachability (best_local p locals out (- 1)) p"
proof -
  have "\<not> (\<forall>a\<in>set locals. int (reach_code (GetReachability a p)) \<le> - 1)" using assms by force
  then have "best_local p locals out (- 1) \<in> set locals \<and>
      (\<forall>a\<in>set locals. reach_code (GetReachability a p) \<le> reach_code (GetReachability (best_local p locals out (- 1)) p))"
    using best_local_spec[of p locals out "- 1"] by blast
  then show ?thesis using assms by (simp add: less_eq_reachability_def)
qed

text \<open>Every address the discovery keeps is routable, and it keeps no address twice.\<close>

definition locals_ok :: "net_addr list \<Rightarrow> bool" where
  [inv_defs]: "locals_ok locals = (\<forall>a\<in>set locals. IsRoutable a)"

lemma AddLocalAddr_ok: "locals_ok locals \<Longrightarrow> locals_ok (snd (AddLocalAddr a locals))"
  by (auto simp: AddLocalAddr_def locals_ok_def)

lemma discover_loop_ok: "locals_ok locals \<Longrightarrow> locals_ok (discover_loop fs locals)"
proof (induction fs locals rule: discover_loop.induct)
  case (2 f fs locals)
  then show ?case using AddLocalAddr_ok[OF 2(6)] by (auto split: option.split)
qed simp

end
