(* ===== verification/Msg_Process.thy ===== *)
theory Msg_Process
  imports Local_Service
begin

text \<open>
  Sending and receiving: \<^verbatim>\<open>src/network/include/msg_process.h\<close>, \<^verbatim>\<open>src/network/src/msg_process.cpp\<close>, the
  handlers of \<^verbatim>\<open>src/network/src/protocol\<close> and the timer callbacks that send.  \<open>n_input\<close> is the content of
  the input buffer of a connection, \<open>n_output\<close> all that was handed to \<^verbatim>\<open>bufferevent_write\<close>.  The pointers
  to the peer store, the chain state and the node lists are those of a valid \<^verbatim>\<open>Context\<close>, never null.
\<close>

subsection \<open>SendMsg\<close>

text \<open>The checksum: the first four bytes of the digest of the serialized message.\<close>

definition msg_checksum :: "lib \<Rightarrow> message \<Rightarrow> u32" where
  "msg_checksum l m = from_little_endian (take 4 (e_sha l (msg_ser m)))"

definition msg_head :: "lib \<Rightarrow> message \<Rightarrow> msg_header" where
  "msg_head l m = MsgHeader_make (e_magic l) (msg_command m) (of_nat (msg_size m)) (msg_checksum l m)"

definition frame :: "lib \<Rightarrow> message \<Rightarrow> bytes" where
  "frame l m = MsgHeader_ser (msg_head l m) @ msg_ser m"

definition restart_no_sending :: "tick \<Rightarrow> nat \<Rightarrow> world \<Rightarrow> world" where
  "restart_no_sending e i w =
     (case n_timers (w_node w i) no_sending of
        Some t \<Rightarrow> reset_timer e t w
      | None \<Rightarrow> start_node_timer e i no_sending (of_nat kNoSendingTimeout * 1000) 0 (Inactivity i) w)"

definition SendMsg :: "lib \<Rightarrow> tick \<Rightarrow> message \<Rightarrow> nat \<Rightarrow> world \<Rightarrow> bool \<times> world" where
  "SendMsg l e m i w =
     (if n_bev (w_node w i) = None then (False, w)
      else
        let w1 = (if n_no_msg (w_node w i) then upd_node i (\<lambda>n. n\<lparr>n_no_msg := False\<rparr>) w else w);
            ms = frame l m in
        if length ms \<noteq> kHeaderSize + msg_size m then (False, w1)
        else if \<not> t_write e ms then (False, w1)
        else
          let w2 = upd_node i (\<lambda>n. n\<lparr>n_output := n_output n @ ms\<rparr>) w1 in
          (True, restart_no_sending e i w2))"

definition send :: "lib \<Rightarrow> tick \<Rightarrow> message \<Rightarrow> nat \<Rightarrow> world \<Rightarrow> world" where
  "send l e m i w = snd (SendMsg l e m i w)"

definition SendVersion :: "lib \<Rightarrow> tick \<Rightarrow> nat \<Rightarrow> world \<Rightarrow> bool \<times> world" where
  "SendVersion l e i w =
     (let services = n_services (w_node w i);
          ver = \<lparr>v_version = kProtocolVersion, v_services = services, v_time = of_int (t_now e),
                 v_recv = n_addr (w_node w i), v_from = NetAddr_set_services services NetAddr_new,
                 v_nonce = n_nonce (w_node w i), v_agent = e_agent l, v_height = t_height e, v_relay = True\<rparr>;
          (ok, w1) = SendMsg l e (MVersion ver) i w in
      if \<not> ok then (False, w1) else (True, w1))"

definition ping_of :: "tick \<Rightarrow> node \<Rightarrow> message" where
  "ping_of e n =
     (let p = Ping_make (of_nat (t_rand e (2 ^ 64 - 1))) kProtocolVersion in
      MPing (if n_version n < kBip31Version then p\<lparr>p_version := 0\<rparr> else p))"

definition PingTimeoutCb :: "lib \<Rightarrow> tick \<Rightarrow> nat \<Rightarrow> u32 \<Rightarrow> world \<Rightarrow> world res" where
  "PingTimeoutCb l e i magic w =
     (if t_stop e \<or> IsDisconnected (w_node w i) then Inr w
      else if n_ping_nonce (w_node w i) \<noteq> 0
      then res_bind (StopTimer (n_timers (w_node w i) ping) (w_tm w)) (\<lambda>m. Disconnect l e i (w\<lparr>w_tm := m\<rparr>))
      else Inr (send (l\<lparr>e_magic := magic\<rparr>) e (ping_of e (w_node w i)) i w))"

fun relay_loop :: "lib \<Rightarrow> tick \<Rightarrow> nat \<Rightarrow> net_addr list \<Rightarrow> net_addr list \<Rightarrow> world \<Rightarrow> net_addr list \<times> world" where
  "relay_loop l e i [] batch w = (batch, w)"
| "relay_loop l e i (a # as) batch w =
     (if IsKnownAddr l a (w_node w i) then relay_loop l e i as batch w
      else
        let w1 = upd_node i (\<lambda>n. snd (AddKnownAddr l a n)) w;
            batch1 = batch @ [a] in
        if 1000 \<le> length batch1 then relay_loop l e i as [] (send l e (MAddr batch1) i w1)
        else relay_loop l e i as batch1 w1)"

definition RelayFloodingAddrsTimeoutCb :: "lib \<Rightarrow> tick \<Rightarrow> nat \<Rightarrow> u32 \<Rightarrow> world \<Rightarrow> world res" where
  "RelayFloodingAddrsTimeoutCb l e i magic w =
     (if t_stop e then Inr w
      else if IsDisconnected (w_node w i) then Inr w
      else
        let l1 = l\<lparr>e_magic := magic\<rparr>;
            (batch, w1) = relay_loop l1 e i (n_to_send (w_node w i)) [] w;
            w2 = (if batch \<noteq> [] then send l1 e (MAddr batch) i w1 else w1);
            w3 = upd_node i ClearSentAddr w2 in
        set_slot_interval i broadcast_addrs (interval_ms l e kRelayAddrsInterval) w3)"

fun run_timer_cb :: "lib \<Rightarrow> tick \<Rightarrow> timer_cb \<Rightarrow> world \<Rightarrow> world res" where
  "run_timer_cb l e (SocketNoMsg i) w = SocketNoMsgTimeoutCb l e i w"
| "run_timer_cb l e (Inactivity i) w = InactivityTimeoutCb l e i w"
| "run_timer_cb l e (PingTimeout i magic) w = PingTimeoutCb l e i magic w"
| "run_timer_cb l e (ShakeHands i) w = ShakeHandsTimeoutCb l e i w"
| "run_timer_cb l e (AdvertiseLocal i) w = AdvertiseLocalTimeoutCb l e i w"
| "run_timer_cb l e (RelayFloodingAddrs i magic) w = RelayFloodingAddrsTimeoutCb l e i magic w"

text \<open>\<^verbatim>\<open>TimerMng::InvokeTimerCb\<close> in this state.\<close>

definition run_timer :: "lib \<Rightarrow> tick \<Rightarrow> nat \<Rightarrow> world \<Rightarrow> world res" where
  "run_timer l e t w = InvokeTimerCb (run_timer_cb l e) w_tm (\<lambda>m w. w\<lparr>w_tm := m\<rparr>) (t_ms e) t w"

subsection \<open>Handlers\<close>

definition disconnect_false :: "lib \<Rightarrow> tick \<Rightarrow> nat \<Rightarrow> bool \<Rightarrow> world \<Rightarrow> (bool \<times> world) res" where
  "disconnect_false l e i r w = res_bind (Disconnect l e i w) (\<lambda>w1. Inr (r, w1))"

definition misbehave :: "nat \<Rightarrow> world \<Rightarrow> (bool \<times> world) res" where
  "misbehave i w = res_bind (Misbehaving 1 (w_node w i)) (\<lambda>n. Inr (False, upd_node i (\<lambda>_. n) w))"

definition version_store :: "lib \<Rightarrow> tick \<Rightarrow> version_msg \<Rightarrow> nat \<Rightarrow> world \<Rightarrow> world" where
  "version_store l e v i w =
     (let w1 = (if n_inbound (w_node w i) then snd (SendVersion l e i w) else w);
          w2 = send l e MVerack i w1;
          w3 = set_services i (v_services v) w2;
          w4 = upd_node i (set_local_addr (v_recv v)) w3;
          w5 = upd_node i (\<lambda>n. n\<lparr>n_start_height := v_height v, n_relay_txes := v_relay v, n_version := v_version v\<rparr>) w4 in
      if v_services v AND kNodeWitness \<noteq> 0 then upd_node i (\<lambda>n. n\<lparr>n_witness := True\<rparr>) w5 else w5)"

definition version_outbound :: "lib \<Rightarrow> tick \<Rightarrow> nat \<Rightarrow> world \<Rightarrow> world res" where
  "version_outbound l e i w =
     res_bind (if e_advertise l \<and> \<not> IsInitialBlockDownload then AdvertiseLocalAddr l e i True w else Inr w) (\<lambda>w1.
       let w2 = (if kAddrTimeVersion \<le> n_version (w_node w1 i) \<or> Peers_Size (w_peers w1) < 1000
                 then upd_node i (\<lambda>n. n\<lparr>n_sent_getaddr := True\<rparr>) (send l e MGetAddr i w1) else w1) in
       Inr (w2\<lparr>w_peers := snd (MakeTried (e_sha l) (n_addr (w_node w2 i)) (t_now e) (w_peers w2))\<rparr>))"

definition version_accept :: "lib \<Rightarrow> tick \<Rightarrow> version_msg \<Rightarrow> nat \<Rightarrow> world \<Rightarrow> (bool \<times> world) res" where
  "version_accept l e v i w =
     (let w1 = version_store l e v i w in
      res_bind (if \<not> n_inbound (w_node w1 i) then version_outbound l e i w1 else Inr w1) (\<lambda>w2.
      res_bind (AddTimeData (NetAddr_ToString (e_b32 l) (n_addr (w_node w2 i)))
                  (sint (v_time v - of_int (t_now e))) (w_time w2)) (\<lambda>d.
        Inr (True, w2\<lparr>w_time := d\<rparr>))))"

definition version_peer_services :: "lib \<Rightarrow> version_msg \<Rightarrow> nat \<Rightarrow> world \<Rightarrow> world" where
  "version_peer_services l v i w =
     (if \<not> n_inbound (w_node w i)
      then w\<lparr>w_peers := snd (Peers_SetServices (e_sha l) (n_addr (w_node w i)) (v_services v) (w_peers w))\<rparr> else w)"

definition Version_RecvHandler :: "lib \<Rightarrow> tick \<Rightarrow> version_msg \<Rightarrow> nat \<Rightarrow> world \<Rightarrow> (bool \<times> world) res" where
  "Version_RecvHandler l e v i w =
     (if n_version (w_node w i) \<noteq> 0 then misbehave i w
      else
        let n = w_node w i; w1 = version_peer_services l v i w in
        if \<not> n_inbound n \<and> \<not> n_manual n \<and> \<not> IsServiceFlagDesirable (v_services v) then disconnect_false l e i False w1
        else if v_services v AND 0xa0 \<noteq> 0 \<and> t_now e < 1533096000 then disconnect_false l e i False w1
        else if v_version v < kMinPeerProtoVersion then disconnect_false l e i False w1
        else if n_inbound n \<and> \<not> CheckIncomingNonce (w_singleton w1) (v_nonce v) w1 then disconnect_false l e i True w1
        else version_accept l e v i w1)"

definition verack_announce :: "lib \<Rightarrow> tick \<Rightarrow> nat \<Rightarrow> world \<Rightarrow> world" where
  "verack_announce l e i w =
     (let ver = n_version (w_node w i);
          w1 = (if kSendheadersVersion \<le> ver then send l e MSendHeaders i w else w) in
      if kShortIdsBlocksVersion \<le> ver
      then send l e (MSendCmpct \<lparr>sc_high_bandwidth = False, sc_version = 1\<rparr>) i
             (if w_service w1 AND kNodeWitness \<noteq> 0
              then send l e (MSendCmpct \<lparr>sc_high_bandwidth = False, sc_version = 2\<rparr>) i w1 else w1)
      else w1)"

definition verack_ping :: "lib \<Rightarrow> tick \<Rightarrow> nat \<Rightarrow> world \<Rightarrow> world" where
  "verack_ping l e i w =
     start_node_timer e i ping (of_nat kPingInterval * 1000) (of_nat kPingInterval * 1000) (PingTimeout i (e_magic l))
       (send l e (ping_of e (w_node w i)) i w)"

definition verack_advertise :: "lib \<Rightarrow> tick \<Rightarrow> nat \<Rightarrow> world \<Rightarrow> world res" where
  "verack_advertise l e i w =
     (if e_advertise l
      then res_bind (if \<not> IsInitialBlockDownload then AdvertiseLocalAddr l e i False w else Inr w) (\<lambda>w1.
             Inr (start_node_timer e i advertise_local_addr (interval_ms l e kAdvertiseLocalInterval) 0
                    (AdvertiseLocal i) w1))
      else Inr w)"

definition verack_relay :: "lib \<Rightarrow> tick \<Rightarrow> nat \<Rightarrow> world \<Rightarrow> world" where
  "verack_relay l e i w =
     start_node_timer e i broadcast_addrs (of_nat kRelayAddrsInterval * 1000) 0 (RelayFloodingAddrs i (e_magic l)) w"

definition Verack_RecvHandler :: "lib \<Rightarrow> tick \<Rightarrow> nat \<Rightarrow> world \<Rightarrow> (bool \<times> world) res" where
  "Verack_RecvHandler l e i w =
     res_bind (set_connection_state l e i kEstablished (verack_announce l e i w)) (\<lambda>w1.
     res_bind (verack_advertise l e i (verack_ping l e i w1)) (\<lambda>w2.
       Inr (True, verack_relay l e i w2)))"

definition Ping_RecvHandler :: "lib \<Rightarrow> tick \<Rightarrow> ping_msg \<Rightarrow> nat \<Rightarrow> world \<Rightarrow> bool \<times> world" where
  "Ping_RecvHandler l e p i w =
     (if kBip31Version \<le> n_version (w_node w i) then (True, send l e (MPong (p_nonce p)) i w) else (True, w))"

definition Pong_RecvHandler :: "u64 \<Rightarrow> nat \<Rightarrow> world \<Rightarrow> bool \<times> world" where
  "Pong_RecvHandler nonce i w =
     (if n_ping_nonce (w_node w i) = 0 then (False, w)
      else if n_ping_nonce (w_node w i) \<noteq> nonce then (False, w)
      else (True, upd_node i (\<lambda>n. n\<lparr>n_ping_nonce := 0\<rparr>) w))"

text \<open>The other handlers return true.\<close>

fun RecvHandler :: "lib \<Rightarrow> tick \<Rightarrow> message \<Rightarrow> nat \<Rightarrow> world \<Rightarrow> (bool \<times> world) res" where
  "RecvHandler l e (MVersion v) i w = Version_RecvHandler l e v i w"
| "RecvHandler l e MVerack i w = Verack_RecvHandler l e i w"
| "RecvHandler l e (MPing p) i w = Inr (Ping_RecvHandler l e p i w)"
| "RecvHandler l e (MPong n) i w = Inr (Pong_RecvHandler n i w)"
| "RecvHandler l e _ i w = Inr (True, w)"

subsection \<open>Dispatch\<close>

definition CheckMisbehaving :: "bytes \<Rightarrow> node \<Rightarrow> bool" where
  "CheckMisbehaving cmd n =
     (if cmd \<noteq> kMsgVersion \<and> n_version n = 0 then False
      else if cmd \<noteq> kMsgVersion \<and> cmd \<noteq> kMsgVerack \<and> \<not> IsHandshakeCompleted n then False
      else True)"

definition HandleMsgData :: "lib \<Rightarrow> tick \<Rightarrow> nat \<Rightarrow> msg_header \<Rightarrow> message \<Rightarrow> world \<Rightarrow> (bool \<times> world) res" where
  "HandleMsgData l e i h m w =
     (if h_checksum h \<noteq> msg_checksum l m then Inr (False, w)
      else if \<not> msg_valid m then Inr (False, w)
      else if \<not> CheckMisbehaving (msg_command m) (w_node w i) then misbehave i w
      else RecvHandler l e m i w)"

definition ParseMsgData :: "lib \<Rightarrow> tick \<Rightarrow> bytes \<Rightarrow> nat \<Rightarrow> msg_header \<Rightarrow> world \<Rightarrow> (bool \<times> world) res" where
  "ParseMsgData l e raw i h w =
     (if \<not> MsgHeader_IsValid 0 h then Inr (False, w)
      else
        res_bind (msg_deser (e_mem l) (e_cc l) (n_version (w_node w i)) (command h)
                    (take (unat (h_payload_length h)) raw)) (\<lambda>m.
          case m of None \<Rightarrow> Inr (False, w) | Some m \<Rightarrow> HandleMsgData l e i h m w))"

definition drain :: "lib \<Rightarrow> nat \<Rightarrow> nat \<Rightarrow> world \<Rightarrow> world" where
  "drain l i n w = upd_node i (\<lambda>nd. nd\<lparr>n_input := e_drain l n (n_input nd)\<rparr>) w"

definition pullup :: "lib \<Rightarrow> nat \<Rightarrow> nat \<Rightarrow> world \<Rightarrow> bytes option" where
  "pullup l i n w = e_pullup l n (n_input (w_node w i))"

text \<open>
  The loop of \<^verbatim>\<open>ParseMsg\<close>; it ends because every round drains a header, which is up to libevent, so
  the function is partial.
\<close>

partial_function (option) parse_loop ::
  "lib \<Rightarrow> tick \<Rightarrow> nat \<Rightarrow> bytes \<Rightarrow> bool \<Rightarrow> world \<Rightarrow> (bool \<times> world) res option" where
  "parse_loop l e i raw ret w =
     (case MsgHeader_of_raw raw of
        Inl f \<Rightarrow> Some (Inl f)
      | Inr h \<Rightarrow>
          let w1 = drain l i kHeaderSize w; len = unat (h_payload_length h) in
          if kMaxMessageSize < len then Some (disconnect_false l e i False w1)
          else if h_magic h \<noteq> e_magic l then Some (disconnect_false l e i False w1)
          else
            case (if 0 < len then pullup l i len w1 else Some raw) of
              None \<Rightarrow> Some (Inr (False, w1))
            | Some raw1 \<Rightarrow>
                (case ParseMsgData l e raw1 i h w1 of
                   Inl f \<Rightarrow> Some (Inl f)
                 | Inr (ok, w2) \<Rightarrow>
                     let w3 = drain l i len w2 in
                     (case pullup l i kHeaderSize w3 of
                        None \<Rightarrow> Some (Inr (ret \<and> ok, w3))
                      | Some raw2 \<Rightarrow> parse_loop l e i raw2 (ret \<and> ok) w3)))"

definition ParseMsg :: "lib \<Rightarrow> tick \<Rightarrow> nat \<Rightarrow> world \<Rightarrow> (bool \<times> world) res option" where
  "ParseMsg l e i w =
     (if n_bev (w_node w i) = None then Some (Inr (False, w))
      else if IsDisconnected (w_node w i) then Some (Inr (False, w))
      else case pullup l i kHeaderSize w of
             None \<Rightarrow> Some (Inr (False, w))
           | Some raw \<Rightarrow> parse_loop l e i raw True w)"

end
