(* ===== verification/Effects.thy ===== *)
theory Effects
  imports Msg_Process
begin

text \<open>
  What the operations on nodes leave alone.  The locale \<open>untouched\<close> is the contract of an observation of
  a node: it does not depend on the fields that handlers and callbacks write.  Its lemmas, one per
  operation, say that the operation leaves the observation of every node as it was, and the fixed part
  of the world; they are instantiated with the fields below.
\<close>

subsection \<open>Nodes\<close>

lemma w_node_upd [simp]: "w_node (upd_node i f w) j = (if j = i then f (w_node w i) else w_node w j)"
  by (simp add: upd_node_def)

text \<open>What handlers and callbacks leave alone in the world: the number of nodes made, the list of the
  singleton, the bans, the services and addresses of this host.\<close>

definition w_fixed :: "world \<Rightarrow> nat \<times> nat list \<times> ban_map \<times> u64 \<times> net_addr list" where
  "w_fixed w = (w_next_id w, w_singleton w, w_bans w, w_service w, w_local_addrs w)"

lemma w_fixed_simps [simp]:
  "w_fixed (upd_node i h w) = w_fixed w" "w_fixed (w\<lparr>w_tm := x1\<rparr>) = w_fixed w" "w_fixed (w\<lparr>w_peers := x2\<rparr>) = w_fixed w"
  "w_fixed (w\<lparr>w_preferred := x3\<rparr>) = w_fixed w" "w_fixed (w\<lparr>w_time := x4\<rparr>) = w_fixed w"
  "w_fixed (w\<lparr>w_orphans := x5\<rparr>) = w_fixed w" "w_fixed (w\<lparr>w_blocks_in_flight := x6\<rparr>) = w_fixed w"
  "w_fixed (set_nodes o1 x8 w) = w_fixed w"
  by (simp_all add: w_fixed_def upd_node_def) (cases o1; simp)

locale untouched =
  fixes f :: "node \<Rightarrow> 'a"
  assumes writes [simp]:
    "\<And>n g. f (n_services_update g n) = f n" "\<And>n g. f (n_version_update g n) = f n"
    "\<And>n g. f (n_start_height_update g n) = f n" "\<And>n g. f (n_local_addr_update g n) = f n"
    "\<And>n g. f (n_state_update g n) = f n" "\<And>n g. f (n_no_msg_update g n) = f n"
    "\<And>n g. f (n_to_send_update g n) = f n" "\<And>n g. f (n_known_update g n) = f n"
    "\<And>n g. f (n_sent_getaddr_update g n) = f n" "\<And>n g. f (n_relay_txes_update g n) = f n"
    "\<And>n g. f (n_timers_update g n) = f n" "\<And>n g. f (n_score_update g n) = f n"
    "\<And>n g. f (n_should_ban_update g n) = f n" "\<And>n g. f (n_witness_update g n) = f n"
    "\<And>n g. f (n_output_update g n) = f n"
begin

definition keeps :: "world \<Rightarrow> world \<Rightarrow> bool" where
  "keeps w w' = ((\<forall>j. f (w_node w' j) = f (w_node w j)) \<and> w_fixed w' = w_fixed w)"

lemma keeps_refl [simp]: "keeps w w"
  by (simp add: keeps_def)

lemma keeps_trans: "keeps w w1 \<Longrightarrow> keeps w1 w2 \<Longrightarrow> keeps w w2"
  by (simp add: keeps_def)

lemma keeps_upd: "f (g (w_node w i)) = f (w_node w i) \<Longrightarrow> keeps w (upd_node i g w)"
  by (simp add: keeps_def)

lemma keeps_world [simp]:
  "keeps w (w1\<lparr>w_tm := x1\<rparr>) = keeps w w1" "keeps w (w1\<lparr>w_peers := x2\<rparr>) = keeps w w1"
  "keeps w (w1\<lparr>w_preferred := x3\<rparr>) = keeps w w1" "keeps w (w1\<lparr>w_time := x4\<rparr>) = keeps w w1"
  "keeps w (w1\<lparr>w_orphans := x5\<rparr>) = keeps w w1" "keeps w (w1\<lparr>w_blocks_in_flight := x6\<rparr>) = keeps w w1"
  "keeps w (set_nodes o1 x8 w1) = keeps w w1"
  by (simp_all add: keeps_def) (cases o1; simp)

lemma keeps_upd_trans: "keeps w w1 \<Longrightarrow> (\<And>n. f (g n) = f n) \<Longrightarrow> keeps w (upd_node i g w1)"
  by (erule keeps_trans, rule keeps_upd)

lemma keeps_start_timer: "keeps w w1 \<Longrightarrow> keeps w (start_node_timer e i s d iv cb w1)"
  by (simp add: start_node_timer_def start_timer_def split_def Let_def keeps_upd_trans)

lemma keeps_restart: "keeps w w1 \<Longrightarrow> keeps w (restart_no_sending e i w1)"
  by (simp add: restart_no_sending_def reset_timer_def keeps_start_timer split: option.split)

lemma keeps_send: "keeps w w1 \<Longrightarrow> keeps w (send l e m i w1)"
  by (simp add: send_def SendMsg_def Let_def keeps_restart keeps_upd_trans)

lemma keeps_SendVersion: "keeps w w1 \<Longrightarrow> keeps w (snd (SendVersion l e i w1))"
  using keeps_send[of w w1] by (simp add: SendVersion_def Let_def send_def split_def)

lemma keeps_set_services: "keeps w w1 \<Longrightarrow> keeps w (set_services i sv w1)"
  by (simp add: set_services_def Let_def keeps_upd_trans)

lemma keeps_stop_slot: "keeps w w1 \<Longrightarrow> stop_slot i s w1 = Inr w2 \<Longrightarrow> keeps w w2"
  by (auto simp: stop_slot_def res_bind_eq_Inr keeps_upd_trans split: option.splits)

lemma keeps_stop_slots: "keeps w w1 \<Longrightarrow> stop_slots i ss w1 = Inr w2 \<Longrightarrow> keeps w w2"
  by (induction ss arbitrary: w1) (auto simp: res_bind_eq_Inr dest: keeps_stop_slot)

lemma keeps_erase_orphans: "keeps w w1 \<Longrightarrow> erase_orphans l i w1 = Inr w2 \<Longrightarrow> keeps w w2"
  by (auto simp: erase_orphans_def split: option.splits)

lemma keeps_pure: "keeps w w1 \<Longrightarrow> keeps w (update_peer_time l e i w1)" "keeps w w1 \<Longrightarrow> keeps w (erase_in_flight i w1)"
  by (simp_all add: update_peer_time_def erase_in_flight_def)

lemma keeps_DisconnectNodeCb:
  assumes "keeps w w1" "DisconnectNodeCb l e i o1 w1 = Inr w2"
  shows "keeps w w2"
proof -
  obtain w3 w4 where w: "stop_slots i all_slots w1 = Inr w3"
      "erase_orphans l i (erase_in_flight i (update_peer_time l e i w3)) = Inr w4" "w2 = EraseNode o1 i w4"
    using assms(2) by (auto simp: DisconnectNodeCb_def StopAllTimers_def res_bind_eq_Inr)
  have "keeps w w3" using assms(1) w(1) by (rule keeps_stop_slots)
  then have "keeps w w4" by (rule keeps_erase_orphans[OF keeps_pure(2)[OF keeps_pure(1)] w(2)])
  then show ?thesis by (simp add: w(3) EraseNode_def)
qed

lemma keeps_set_state:
  assumes "keeps w w1" "set_connection_state l e i st w1 = Inr w2"
  shows "keeps w w2"
proof -
  have k: "keeps w (upd_node i (\<lambda>n. n\<lparr>n_state := st\<rparr>) w1)" using assms(1) by (rule keeps_upd_trans) simp
  show ?thesis using assms(2) k keeps_DisconnectNodeCb[OF k]
    by (auto simp: set_connection_state_def Let_def split: if_splits option.splits)
qed

lemma keeps_Disconnect: "keeps w w1 \<Longrightarrow> Disconnect l e i w1 = Inr w2 \<Longrightarrow> keeps w w2"
  unfolding Disconnect_def by (rule keeps_set_state)

lemma keeps_push: "keeps w w1 \<Longrightarrow> push_addr l e i a w1 = Inr w2 \<Longrightarrow> keeps w w2"
  by (auto simp: push_addr_def PushAddrToSend_def res_bind_eq_Inr Let_def split: if_splits
      intro!: keeps_trans[of w w1] keeps_upd)

lemma keeps_Advertise: "keeps w w1 \<Longrightarrow> AdvertiseLocalAddr l e i b w1 = Inr w2 \<Longrightarrow> keeps w w2"
  by (auto simp: AdvertiseLocalAddr_def Let_def split: if_splits dest: keeps_push)

lemma keeps_misbehave: "keeps w w1 \<Longrightarrow> misbehave i w1 = Inr (b, w2) \<Longrightarrow> keeps w w2"
  by (auto simp: misbehave_def Misbehaving_def res_bind_eq_Inr Let_def split: if_splits
      intro!: keeps_trans[of w w1] keeps_upd)

lemma keeps_disconnect_false: "keeps w w1 \<Longrightarrow> disconnect_false l e i r w1 = Inr (b, w2) \<Longrightarrow> keeps w w2"
  by (auto simp: disconnect_false_def res_bind_eq_Inr dest: keeps_Disconnect)

lemma f_set_local_addr [simp]: "f (set_local_addr a n) = f n"
  by (simp add: set_local_addr_def)

lemmas keeps_intros = keeps_upd_trans keeps_start_timer keeps_send keeps_SendVersion keeps_set_services keeps_refl

lemma keeps_store: "keeps w w1 \<Longrightarrow> keeps w (version_store l e v i w1)"
  by (simp add: version_store_def Let_def keeps_intros)

lemma keeps_outbound:
  assumes "keeps w w1" "version_outbound l e i w1 = Inr w2"
  shows "keeps w w2"
  using assms by (auto simp: version_outbound_def res_bind_eq_Inr Let_def keeps_intros split: if_splits
      dest!: keeps_Advertise[OF assms(1)])

lemma keeps_version_accept:
  assumes "keeps w w1" "version_accept l e v i w1 = Inr (b, w2)"
  shows "keeps w w2"
  using assms(2) keeps_store[OF assms(1), of l e v i]
  by (auto simp: version_accept_def res_bind_eq_Inr Let_def split: if_splits
      dest: keeps_outbound[OF keeps_store[OF assms(1)]])

lemma keeps_peer_services: "keeps w w1 \<Longrightarrow> keeps w (version_peer_services l v i w1)"
  by (simp add: version_peer_services_def)

lemma keeps_Version:
  assumes "keeps w w1" "Version_RecvHandler l e v i w1 = Inr (b, w2)"
  shows "keeps w w2"
  using assms(2) keeps_peer_services[OF assms(1), of l v i]
  by (auto simp: Version_RecvHandler_def Let_def split: if_splits
      dest: keeps_misbehave[OF assms(1)] keeps_disconnect_false keeps_version_accept)

lemma keeps_verack_parts:
  "keeps w w1 \<Longrightarrow> keeps w (verack_announce l e i w1)"
  "keeps w w1 \<Longrightarrow> keeps w (verack_ping l e i w1)"
  "keeps w w1 \<Longrightarrow> keeps w (verack_relay l e i w1)"
  by (simp_all add: verack_announce_def verack_ping_def verack_relay_def Let_def keeps_intros)

lemma keeps_verack_advertise: "keeps w w1 \<Longrightarrow> verack_advertise l e i w1 = Inr w2 \<Longrightarrow> keeps w w2"
  by (auto simp: verack_advertise_def res_bind_eq_Inr keeps_intros split: if_splits dest: keeps_Advertise)

lemma keeps_Verack:
  assumes "keeps w w1" "Verack_RecvHandler l e i w1 = Inr (b, w2)"
  shows "keeps w w2"
proof -
  obtain w3 w4 where s: "set_connection_state l e i kEstablished (verack_announce l e i w1) = Inr w3"
      "verack_advertise l e i (verack_ping l e i w3) = Inr w4" "w2 = verack_relay l e i w4"
    using assms(2) by (auto simp: Verack_RecvHandler_def res_bind_eq_Inr)
  have "keeps w w3" using keeps_set_state[OF keeps_verack_parts(1)[OF assms(1)] s(1)] .
  then have "keeps w w4" using keeps_verack_advertise[OF keeps_verack_parts(2) s(2)] by blast
  then show ?thesis using s(3) keeps_verack_parts(3) by simp
qed

lemma keeps_Ping: "keeps w w1 \<Longrightarrow> Ping_RecvHandler l e p i w1 = (b, w2) \<Longrightarrow> keeps w w2"
  by (auto simp: Ping_RecvHandler_def keeps_intros split: if_splits)

text \<open>Every message but a pong, which resets the nonce of the ping that was sent.\<close>

lemma keeps_handler:
  assumes "keeps w w1" "RecvHandler l e m i w1 = Inr (b, w2)" "\<And>n. m = MPong n \<Longrightarrow> \<forall>x. f (x\<lparr>n_ping_nonce := 0\<rparr>) = f x"
  shows "keeps w w2"
  using assms
  by (cases m) (auto simp: Pong_RecvHandler_def keeps_intros split: if_splits dest: keeps_Version keeps_Verack keeps_Ping
      intro: keeps_upd_trans)

lemma keeps_HandleMsgData:
  assumes "keeps w w1" "HandleMsgData l e i h m w1 = Inr (b, w2)" "\<And>n. m = MPong n \<Longrightarrow> \<forall>x. f (x\<lparr>n_ping_nonce := 0\<rparr>) = f x"
  shows "keeps w w2"
  using assms(2) assms(1,3) by (auto simp: HandleMsgData_def split: if_splits dest: keeps_misbehave keeps_handler)

lemma keeps_ParseMsgData:
  assumes "keeps w w1" "ParseMsgData l e raw i h w1 = Inr (b, w2)" "\<forall>x. f (x\<lparr>n_ping_nonce := 0\<rparr>) = f x"
  shows "keeps w w2"
  using assms(2) assms(1,3)
  by (auto simp: ParseMsgData_def res_bind_eq_Inr split: if_splits option.splits dest: keeps_HandleMsgData)

subsubsection \<open>Callbacks\<close>

lemma keeps_relay_loop:
  "keeps w w1 \<Longrightarrow> relay_loop l e i as batch w1 = (batch', w2) \<Longrightarrow> keeps w w2"
proof (induction l e i as batch w1 rule: relay_loop.induct)
  case (2 l e i a as batch w1)
  have "keeps w (upd_node i (\<lambda>n. snd (AddKnownAddr l a n)) w1)"
    using "2.prems"(1) by (rule keeps_upd_trans) (simp add: AddKnownAddr_def)
  then show ?case using 2 by (auto simp: Let_def keeps_intros split: if_splits)
qed simp

lemma keeps_slot_interval: "keeps w w1 \<Longrightarrow> set_slot_interval i s iv w1 = Inr w2 \<Longrightarrow> keeps w w2"
  by (auto simp: set_slot_interval_def split: option.splits)

lemma keeps_Relay:
  assumes "keeps w w1" "RelayFloodingAddrsTimeoutCb l e i magic w1 = Inr w2"
  shows "keeps w w2"
proof -
  obtain batch w3 where r: "relay_loop (l\<lparr>e_magic := magic\<rparr>) e i (n_to_send (w_node w1 i)) [] w1 = (batch, w3)"
    by (metis surj_pair)
  have "keeps w w3" using assms(1) r by (rule keeps_relay_loop)
  then show ?thesis using assms r
    by (auto simp: RelayFloodingAddrsTimeoutCb_def ClearSentAddr_def keeps_intros split: if_splits
        dest!: keeps_slot_interval[rotated])
qed

lemma keeps_callback:
  assumes "keeps w w1" "run_timer_cb l e cb w1 = Inr w2"
  shows "keeps w w2"
proof (cases cb)
  case (PingTimeout i magic)
  then show ?thesis using assms by (auto simp: PingTimeoutCb_def res_bind_eq_Inr keeps_intros split: if_splits dest!: keeps_Disconnect[rotated])
next
  case (AdvertiseLocal i)
  then show ?thesis using assms
    by (auto simp: AdvertiseLocalTimeoutCb_def res_bind_eq_Inr split: if_splits dest: keeps_slot_interval keeps_Advertise)
next
  case (RelayFloodingAddrs i magic)
  then show ?thesis using assms keeps_Relay by auto
qed (use assms in \<open>auto simp: SocketNoMsgTimeoutCb_def InactivityTimeoutCb_def ShakeHandsTimeoutCb_def split: if_splits
      dest: keeps_Disconnect\<close>)

end

text \<open>Who a node is, what it received, and the nonce of its ping.\<close>

definition n_identity :: "node \<Rightarrow> bool \<times> u64 \<times> nat option \<times> net_addr \<times> bool \<times> owner option \<times> bytes list" where
  "n_identity n = (n_inbound n, n_nonce n, n_bev n, n_addr n, n_manual n, n_owner n, n_in_flight n)"

interpretation identity: untouched n_identity
  by unfold_locales (simp_all add: n_identity_def)

interpretation input: untouched n_input
  by unfold_locales simp_all

interpretation ping_nonce: untouched n_ping_nonce
  by unfold_locales simp_all

end
