(* ===== verification/Msg_Frames.thy ===== *)
theory Msg_Frames
  imports Effects
begin

text \<open>
  The frames on a connection: what \<^verbatim>\<open>SendMsg\<close> writes is what \<^verbatim>\<open>ParseMsg\<close> of the receiver takes apart, and
  what happens when a frame arrives in pieces.
\<close>

text \<open>What the code relies on in libevent: \<^verbatim>\<open>evbuffer_pullup\<close> gives the first bytes when there are so
  many, \<^verbatim>\<open>evbuffer_drain\<close> removes them.\<close>

definition libevent_ok :: "lib \<Rightarrow> bool" where
  "libevent_ok l =
     ((\<forall>n b. e_pullup l n b = (if n \<le> length b then Some (take n b) else None)) \<and>
      (\<forall>n b. e_drain l n b = drop n b))"

definition known_magic :: "u32 \<Rightarrow> bool" where
  "known_magic magic = (magic = kMainnetMagic \<or> magic = kTestnetMagic \<or> magic = kRegtestMagic)"

subsection \<open>Headers of frames\<close>

lemma command_roundtrip:
  "length c \<le> kCommandSize \<Longrightarrow> 0 \<notin> set c \<Longrightarrow> command (MsgHeader_make g c n k) = c"
proof -
  assume c: "length c \<le> kCommandSize" "0 \<notin> set c"
  have "takeWhile (\<lambda>x. x \<noteq> 0) (c @ replicate k 0) = c" for k
  proof -
    have "takeWhile (\<lambda>x. x \<noteq> 0) (c @ replicate k 0) = c @ takeWhile (\<lambda>x. x \<noteq> 0) (replicate k 0)"
      using c(2) by (intro takeWhile_append2) auto
    then show ?thesis by (cases k) simp_all
  qed
  from this[of "kCommandSize - length c"] show ?thesis using c by (auto simp: command_def MsgHeader_make_def set_command_def Let_def not_less)
qed

lemma msg_command_ok: "length (msg_command m) \<le> kCommandSize" "0 \<notin> set (msg_command m)"
  by (cases m; simp add: dispatched ascii_def kCommandSize_def)+


lemma length_frame: "length (frame l m) = kHeaderSize + length (msg_ser m)"
  using msg_command_ok(1)[of m]
  by (simp add: frame_def MsgHeader_ser_def msg_head_def MsgHeader_make_def set_command_def Let_def
      ser_write_array_def kHeaderSize_def)

lemma head_ok: "msg_header_ok (msg_head l m)"
  using msg_command_ok(1)[of m]
  by (simp add: msg_header_ok_def msg_head_def MsgHeader_make_def set_command_def Let_def)

lemma head_of_frame: "MsgHeader_of_raw (take kHeaderSize (frame l m @ rest)) = Inr (msg_head l m)"
proof -
  have "length (MsgHeader_ser (msg_head l m)) = kHeaderSize" using length_frame[of l m] by (simp add: frame_def)
  then have "take kHeaderSize (take kHeaderSize (frame l m @ rest)) = MsgHeader_ser (msg_head l m)" by (simp add: frame_def)
  then show ?thesis using MsgHeader_dec_enc[OF head_ok, of l m "[]"] unfolding MsgHeader_of_raw_def by simp
qed

lemma msg_head_sel [simp]:
  "h_magic (msg_head l m) = e_magic l" "h_checksum (msg_head l m) = msg_checksum l m"
  "h_payload_length (msg_head l m) = of_nat (msg_size m)" "command (msg_head l m) = msg_command m"
  using command_roundtrip[OF msg_command_ok] by (simp_all add: msg_head_def MsgHeader_make_def set_command_def Let_def)

lemma payload_length_unat: "msg_size m \<le> kMaxMessageSize \<Longrightarrow> unat (of_nat (msg_size m) :: u32) = msg_size m"
  by (simp add: unat_of_nat take_bit_nat_eq_self kMaxMessageSize_def)



subsection \<open>A sequence of frames\<close>



lemma drain_sel [simp]:
  "n_version (w_node (drain l i n w) j) = n_version (w_node w j)"
  "libevent_ok l \<Longrightarrow> n_input (w_node (drain l i n w) i) = drop n (n_input (w_node w i))"
  by (simp_all add: drain_def libevent_ok_def)

lemma pullup_eq: "libevent_ok l \<Longrightarrow>
    pullup l i n w = (if n \<le> length (n_input (w_node w i)) then Some (take n (n_input (w_node w i))) else None)"
  by (simp add: pullup_def libevent_ok_def)






definition one_node :: "bytes \<Rightarrow> world" where
  "one_node input = upd_node 0 (\<lambda>n. n\<lparr>n_bev := Some 0, n_input := input\<rparr>) (world_init [])"

lemma lib0_ok: "libevent_ok lib0" "clean (e_cc lib0)" "known_magic (e_magic lib0)"
  by (simp_all add: libevent_ok_def lib0_def known_magic_def)

lemma one_node_sel [simp]:
  "n_bev (w_node (one_node b) 0) = Some 0" "n_input (w_node (one_node b) 0) = b" "n_version (w_node (one_node b) 0) = 0"
  "n_state (w_node (one_node b) 0) = kInitialState"
  by (simp_all add: one_node_def world_init_def fresh_node_def)


text \<open>C38: A frame that arrives in two pieces is lost: when the header and only a part of the payload are in the
  buffer, the header is removed from it and nothing is handled, so the next call takes the first 24
  bytes of the payload for a header.\<close>
theorem split_frame_loses_header:
  assumes "libevent_ok l" "known_magic (e_magic l)" "n_bev (w_node w i) = Some b"
    "\<not> IsDisconnected (w_node w i)" "msg_ok mem ver m" "msg_size m \<le> kMaxMessageSize" "k < msg_size m"
    "n_input (w_node w i) = MsgHeader_ser (msg_head l m) @ take k (msg_ser m)"
  shows "ParseMsg l e i w = Some (Inr (False, drain l i kHeaderSize w)) \<and>
    n_input (w_node (drain l i kHeaderSize w) i) = take k (msg_ser m)"
proof -
  define raw where "raw = take kHeaderSize (n_input (w_node w i))"
  define w1 where "w1 = drain l i kHeaderSize w"
  have head: "length (MsgHeader_ser (msg_head l m)) = kHeaderSize" using length_frame[of l m] by (simp add: frame_def)
  have raw: "raw = take kHeaderSize (frame l m @ [])" using assms(8) head by (simp add: raw_def frame_def)
  have in1: "n_input (w_node w1 i) = take k (msg_ser m)" using assms(1,8) head by (simp add: w1_def)
  have size: "length (msg_ser m) = msg_size m" using assms(5) by (rule msg_size_ser)
  have none: "pullup l i (msg_size m) w1 = None" using assms(1,7) in1 size by (simp add: pullup_eq)
  have h: "MsgHeader_of_raw raw = Inr (msg_head l m)" unfolding raw by (rule head_of_frame)
  have "parse_loop l e i raw True w = Some (Inr (False, w1))"
    using assms(7) by (subst parse_loop.simps)
      (simp add: h payload_length_unat[OF assms(6)] leD[OF assms(6)] none Let_def w1_def[symmetric])
  then show ?thesis using assms(1,3,4,8) head in1
    by (simp add: ParseMsg_def pullup_eq raw_def w1_def)
qed

lemma split_frame_loses_header_witness:
  "let b = MsgHeader_ser (msg_head lib0 (MPong 5)) @ take 3 (msg_ser (MPong 5)) in
   ParseMsg lib0 tick0 0 (one_node b) = Some (Inr (False, drain lib0 0 kHeaderSize (one_node b))) \<and>
   n_input (w_node (drain lib0 0 kHeaderSize (one_node b)) 0) = take 3 (msg_ser (MPong 5))"
  unfolding Let_def
  by (rule split_frame_loses_header[OF lib0_ok(1,3), of _ _ 0 "[]" 0])
    (simp_all add: IsDisconnected_def kMaxMessageSize_def Pong_SerializedSize_def)

lemma VarIntSize_mono: "m \<le> n \<Longrightarrow> VarIntSize m \<le> VarIntSize n"
  by (auto simp: VarIntSize_def)

lemma length_string_le: "length (ser_write_string s) \<le> VarIntSize (length s) + length s"
  using VarIntSize_mono[of "unat (of_nat (length s) :: u64)" "length s"]
  by (simp add: ser_write_string_def unat_of_nat)

lemma length_string_take:
  assumes "k < length s"
  shows "length (ser_write_string (take k s)) < VarIntSize (length s) + length s"
  using length_string_le[of "take k s"] VarIntSize_mono[of "length (take k s)" "length s"] assms by simp

definition overlong :: "message \<Rightarrow> bool" where
  "overlong m = (case m of
     MVersion v \<Rightarrow> kMaxSubVersionSize < length (v_agent v) \<and> length (ip (v_recv v)) = 16 \<and> length (ip (v_from v)) = 16
   | MReject r \<Rightarrow> kCommandSize < length (r_message r) \<or> kMaxRejectMessageLength < length (r_reason r)
   | _ \<Rightarrow> False)"

lemma overlong_size:
  assumes "overlong m"
  shows "length (msg_ser m) < msg_size m"
proof (cases m)
  case (MVersion v)
  then have "length (ser_write_string (take kMaxSubVersionSize (v_agent v))) < VarIntSize (length (v_agent v)) + length (v_agent v)"
    using assms by (intro length_string_take) (simp add: overlong_def)
  then show ?thesis using assms MVersion
    by (simp add: overlong_def Version_ser_def Version_SerializedSize_def NetAddr_ser_def NetAddr_SerializedSize_def
        ser_write_array_def Let_def const_defs)
next
  case (MReject r)
  define a where "a = (if kCommandSize < length (r_message r) then ser_write_string (take kCommandSize (r_message r))
      else ser_write_string (r_message r))"
  define b where "b = (if kMaxRejectMessageLength < length (r_reason r)
      then ser_write_string (take kMaxRejectMessageLength (r_reason r)) else ser_write_string (r_reason r))"
  have "length a \<le> VarIntSize (length (r_message r)) + length (r_message r)"
      "kCommandSize < length (r_message r) \<Longrightarrow> length a < VarIntSize (length (r_message r)) + length (r_message r)"
    using length_string_take[of kCommandSize "r_message r"] length_string_le[of "r_message r"]
    by (auto simp: a_def)
  moreover have "length b \<le> VarIntSize (length (r_reason r)) + length (r_reason r)"
      "kMaxRejectMessageLength < length (r_reason r) \<Longrightarrow> length b < VarIntSize (length (r_reason r)) + length (r_reason r)"
    using length_string_take[of kMaxRejectMessageLength "r_reason r"] length_string_le[of "r_reason r"]
    by (auto simp: b_def)
  ultimately have "length a + length b < VarIntSize (length (r_message r)) + length (r_message r) +
      (VarIntSize (length (r_reason r)) + length (r_reason r))"
    using assms MReject by (auto simp: overlong_def)
  then show ?thesis using MReject
    by (simp add: Reject_ser_def Reject_SerializedSize_def a_def[symmetric] b_def[symmetric] ser_write_array_def Let_def)
qed (use assms in \<open>simp_all add: overlong_def\<close>)

text \<open>A message whose strings are longer than their writer allows is never sent, because the size that
  is checked counts the characters the writer drops: a version message with such a user agent, a
  reject message with such a command or reason.\<close>
theorem overlong_message_not_sent:
  assumes "overlong m"
  shows "fst (SendMsg l e m i w) = False \<and> n_output (w_node (snd (SendMsg l e m i w)) i) = n_output (w_node w i)"
  using overlong_size[OF assms] by (simp add: SendMsg_def Let_def length_frame)

lemma overlong_message_not_sent_witness:
  "let m = MReject \<lparr>r_message = kMsgPing, r_ccode = 1, r_reason = replicate 112 97, r_data = []\<rparr> in
   fst (SendMsg lib0 tick0 m 0 (world_init [])) = False"
  using overlong_message_not_sent[of "MReject \<lparr>r_message = kMsgPing, r_ccode = 1, r_reason = replicate 112 97, r_data = []\<rparr>" lib0 tick0 0 "world_init []"]
  by (simp add: overlong_def Let_def const_defs)

end
