(* ===== verification/Disconnecting.thy ===== *)
theory Disconnecting
  imports Msg_Frames
begin

text \<open>
  What disconnecting a node does, and when it is defined: \<^verbatim>\<open>Node::StopAllTimers\<close>, \<^verbatim>\<open>DisconnectNodeCb\<close> and the
  timeouts.  The manager erases a one-shot timer once its callback has returned, but the node keeps
  the pointer; stopping such a timer erases the end iterator of the manager's list.
\<close>

subsection \<open>Stopping the timers of a node\<close>

definition slot_ids :: "timer_slot list \<Rightarrow> node \<Rightarrow> nat list" where
  "slot_ids ss n = List.map_filter (n_timers n) ss"

text \<open>Each timer the node points to is still in the list of the manager, and no two slots share one.\<close>

definition live_on :: "nat \<Rightarrow> timer_slot list \<Rightarrow> world \<Rightarrow> bool" where
  "live_on i ss w =
     (distinct (slot_ids ss (w_node w i)) \<and> set (slot_ids ss (w_node w i)) \<subseteq> set (tm_timers (w_tm w)))"

definition stopped :: "nat \<Rightarrow> timer_slot list \<Rightarrow> world \<Rightarrow> world" where
  "stopped i ss w =
     w\<lparr>w_node := (w_node w)(i := (w_node w i)\<lparr>n_timers := (\<lambda>s. if s \<in> set ss then None else n_timers (w_node w i) s)\<rparr>),
       w_tm := (w_tm w)\<lparr>tm_timers := filter (\<lambda>t. t \<notin> set (slot_ids ss (w_node w i))) (tm_timers (w_tm w))\<rparr>\<rparr>"

lemma slot_ids_simps [simp]:
  "slot_ids [] n = []"
  "slot_ids (s # ss) n = (case n_timers n s of None \<Rightarrow> slot_ids ss n | Some t \<Rightarrow> t # slot_ids ss n)"
  by (simp_all add: slot_ids_def map_filter_simps split: option.split)

lemma slot_ids_other:
  "s \<notin> set ss \<Longrightarrow> slot_ids ss (n\<lparr>n_timers := (n_timers n)(s := x)\<rparr>) = slot_ids ss n"
  by (induction ss) (auto split: option.split)

lemma stopped_Cons_None:
  "n_timers (w_node w i) s = None \<Longrightarrow> stopped i (s # ss) w = stopped i ss w"
  by (simp add: stopped_def fun_eq_iff cong: if_cong)

lemma stopped_Cons_Some:
  assumes "n_timers (w_node w i) s = Some t" "s \<notin> set ss"
    "w1 = upd_node i (\<lambda>n. n\<lparr>n_timers := (n_timers n)(s := None)\<rparr>)
          (w\<lparr>w_tm := (w_tm w)\<lparr>tm_timers := filter (\<lambda>x. x \<noteq> t) (tm_timers (w_tm w))\<rparr>\<rparr>)"
  shows "stopped i (s # ss) w = stopped i ss w1"
proof -
  have ids: "slot_ids ss (w_node w1 i) = slot_ids ss (w_node w i)" using assms by (simp add: slot_ids_other)
  have "(\<lambda>s'. if s' \<in> set (s # ss) then None else n_timers (w_node w i) s') =
      (\<lambda>s'. if s' \<in> set ss then None else ((n_timers (w_node w i))(s := None)) s')" by auto
  then show ?thesis using assms(1) ids
    by (simp add: stopped_def assms(3) upd_node_def conj_commute cong: if_cong)
qed

lemma stop_slots_exact:
  assumes "distinct ss" "distinct (tm_timers (w_tm w))"
  shows "stop_slots i ss w = (if live_on i ss w then Inr (stopped i ss w) else Inl Undefined)"
  using assms
proof (induction ss arbitrary: w)
  case Nil
  then show ?case by (simp add: live_on_def stopped_def)
next
  case (Cons s ss)
  show ?case
  proof (cases "n_timers (w_node w i) s")
    case None
    have "live_on i (s # ss) w = live_on i ss w" using None by (simp add: live_on_def)
    moreover have "stop_slot i s w = Inr w" using None by (simp add: stop_slot_def)
    ultimately show ?thesis using Cons stopped_Cons_None[OF None] by simp
  next
    case (Some t)
    show ?thesis
    proof (cases "t \<in> set (tm_timers (w_tm w))")
      case False
      then have "\<not> live_on i (s # ss) w" using Some by (simp add: live_on_def)
      then show ?thesis using Some False by (simp add: stop_slot_def StopTimer_def erase_timer_def)
    next
      case True
      define w1 where "w1 = upd_node i (\<lambda>n. n\<lparr>n_timers := (n_timers n)(s := None)\<rparr>)
          (w\<lparr>w_tm := (w_tm w)\<lparr>tm_timers := filter (\<lambda>x. x \<noteq> t) (tm_timers (w_tm w))\<rparr>\<rparr>)"
      have rem: "remove1 t (tm_timers (w_tm w)) = filter (\<lambda>x. x \<noteq> t) (tm_timers (w_tm w))"
        using Cons.prems(2) by (simp add: distinct_remove1_removeAll removeAll_filter_not_eq eq_commute)
      have step: "stop_slot i s w = Inr w1"
        using Some True rem by (simp add: stop_slot_def StopTimer_def erase_timer_def w1_def)
      have s: "s \<notin> set ss" using Cons.prems(1) by simp
      have tm: "tm_timers (w_tm w1) = filter (\<lambda>x. x \<noteq> t) (tm_timers (w_tm w))" by (simp add: w1_def upd_node_def)
      have ids: "slot_ids ss (w_node w1 i) = slot_ids ss (w_node w i)" using s by (simp add: w1_def slot_ids_other)
      have live: "live_on i (s # ss) w = live_on i ss w1" using Some True unfolding live_on_def ids tm by auto
      show ?thesis
        using Cons.IH[of w1] Cons.prems step live stopped_Cons_Some[OF Some s w1_def] tm by simp
    qed
  qed
qed

lemma all_slots_distinct: "distinct all_slots"
  by (simp add: all_slots_def)

lemma all_slots_UNIV: "set all_slots = UNIV"
  by (auto simp: all_slots_def) (metis timer_slot.exhaust)

subsection \<open>Disconnecting\<close>

text \<open>The state after a disconnection: the node is marked, has no timers, and is in no list of its owner.\<close>

definition disconnected :: "nat \<Rightarrow> owner \<Rightarrow> world \<Rightarrow> world" where
  "disconnected i o1 w =
     EraseNode o1 i
       (w\<lparr>w_node := (w_node w)(i := (w_node w i)\<lparr>n_state := kDisconnected, n_timers := (\<lambda>_. None)\<rparr>),
          w_tm := (w_tm w)\<lparr>tm_timers :=
            filter (\<lambda>t. t \<notin> set (slot_ids all_slots (w_node w i))) (tm_timers (w_tm w))\<rparr>\<rparr>)"

text \<open>The orphan pool and the blocks in flight are empty in every state the program reaches.\<close>

definition idle_node :: "nat \<Rightarrow> world \<Rightarrow> bool" where
  "idle_node i w = (w_orphans w = Orphans_new \<and> n_in_flight (w_node w i) = [] \<and> distinct (tm_timers (w_tm w)))"

lemma erase_orphans_idle: "w_orphans w = Orphans_new \<Longrightarrow> erase_orphans l i w = Inr w"
  by (simp add: erase_orphans_def)

lemma Disconnect_exact:
  assumes "idle_node i w" "n_owner (w_node w i) = Some o1"
  shows "Disconnect l e i w = (if live_on i all_slots w then Inr (disconnected i o1 w) else Inl Undefined)"
proof -
  define w1 where "w1 = upd_node i (\<lambda>n. n\<lparr>n_state := kDisconnected\<rparr>) w"
  have ids: "slot_ids ss (w_node w1 i) = slot_ids ss (w_node w i)" for ss
    by (induction ss) (simp_all add: w1_def split: option.split)
  have tm: "w_tm w1 = w_tm w" by (simp add: w1_def upd_node_def)
  have live: "live_on i all_slots w1 = live_on i all_slots w" by (simp add: live_on_def ids tm)
  have st: "Disconnect l e i w = DisconnectNodeCb l e i o1 w1"
    using assms(2) by (simp add: Disconnect_def set_connection_state_def w1_def Let_def)
  have stop: "StopAllTimers i w1 = (if live_on i all_slots w then Inr (stopped i all_slots w1) else Inl Undefined)"
    using stop_slots_exact[OF all_slots_distinct, of w1 i] assms(1) live tm by (simp add: StopAllTimers_def idle_node_def)
  define w2 where "w2 = stopped i all_slots w1"
  have up: "update_peer_time l e i w2 = w2"
    by (simp add: update_peer_time_def ShouldUpdateTime_def w2_def stopped_def w1_def)
  have fl: "erase_in_flight i w2 = w2"
    using assms(1) by (simp add: erase_in_flight_def w2_def stopped_def w1_def idle_node_def)
  have orph: "erase_orphans l i w2 = Inr w2"
    using assms(1) by (intro erase_orphans_idle) (simp add: w2_def stopped_def w1_def idle_node_def upd_node_def)
  have "EraseNode o1 i w2 = disconnected i o1 w"
    using ids by (simp add: disconnected_def w2_def stopped_def w1_def upd_node_def all_slots_UNIV)
  then show ?thesis using st stop up fl orph by (simp add: DisconnectNodeCb_def w2_def[symmetric])
qed

text \<open>C4: Disconnecting a registered node is defined exactly when each timer it points to is still in the
  manager's list and no two are the same.  Then the node is marked, leaves its list, and exactly its
  timers leave the manager; peers, bans, other nodes and the network time are as before -- so the time
  of the peer is never updated, although the callback means to.\<close>
theorem disconnect_exact:
  assumes "w_orphans w = Orphans_new" "n_in_flight (w_node w i) = []" "distinct (tm_timers (w_tm w))"
    "n_owner (w_node w i) = Some o1"
  shows "Disconnect l e i w =
    (if distinct (slot_ids all_slots (w_node w i)) \<and> set (slot_ids all_slots (w_node w i)) \<subseteq> set (tm_timers (w_tm w))
     then Inr (EraseNode o1 i
       (w\<lparr>w_node := (w_node w)(i := (w_node w i)\<lparr>n_state := kDisconnected, n_timers := (\<lambda>_. None)\<rparr>),
          w_tm := (w_tm w)\<lparr>tm_timers :=
            filter (\<lambda>t. t \<notin> set (slot_ids all_slots (w_node w i))) (tm_timers (w_tm w))\<rparr>\<rparr>))
     else Inl Undefined)"
  using Disconnect_exact[of i w o1 l e] assms by (simp add: idle_node_def live_on_def disconnected_def)

definition two_timers :: world where
  "two_timers =
     (let (i, w) = InitializeNode tick0 Inbound (Some 3) peer1 True False (world_init []) in
      upd_node 0 (\<lambda>n. n\<lparr>n_owner := Some Inbound\<rparr>) w)"

lemma two_timers_eq:
  "two_timers = (world_init [])\<lparr>
     w_node := (w_node (world_init []))(0 := (fresh_node tick0 (Some 3) peer1 True False [])
       \<lparr>n_timers := (\<lambda>_. None)(no_msg := Some 0, shakehands := Some 1), n_owner := Some Inbound\<rparr>),
     w_next_id := 1, w_inbounds := [0],
     w_tm := \<lparr>tm_timers = [0, 1],
       tm_cfg = [0 \<mapsto> \<lparr>tc_timeout = 60000, tc_interval = 0, tc_expire = 1600000060000, tc_suspended = False, tc_cb = SocketNoMsg 0\<rparr>,
                 1 \<mapsto> \<lparr>tc_timeout = 60000, tc_interval = 0, tc_expire = 1600000060000, tc_suspended = False, tc_cb = ShakeHands 0\<rparr>],
       tm_next = 2, tm_tasks = []\<rparr>\<rparr>"
  by (simp add: two_timers_def InitializeNode_def Node_new_def start_node_timer_def start_timer_def StartTimer_def
      world_init_def tick0_def tm_init_def AddNode_def GetNode_id_def upd_node_def fresh_node_def later_def
      IsPreferedDownload_def int_of_bool_def const_defs fun_eq_iff Let_def)

lemma two_timers_sel [simp]:
  "w_orphans two_timers = Orphans_new" "n_in_flight (w_node two_timers 0) = []" "tm_timers (w_tm two_timers) = [0, 1]"
  "n_owner (w_node two_timers 0) = Some Inbound" "n_timers (w_node two_timers 0) no_msg = Some 0"
  "n_timers (w_node two_timers 0) shakehands = Some 1" "n_state (w_node two_timers 0) = kInitialState"
  "n_no_msg (w_node two_timers 0)"
  by (simp_all add: two_timers_eq world_init_def fresh_node_def)

lemma two_timers_ids [simp]: "slot_ids all_slots (w_node two_timers 0) = [0, 1]"
  by (simp add: two_timers_eq all_slots_def)

lemma two_timers_cfg:
  "tm_cfg (w_tm two_timers) 0 = Some \<lparr>tc_timeout = 60000, tc_interval = 0, tc_expire = 1600000060000, tc_suspended = False, tc_cb = SocketNoMsg 0\<rparr>"
  "tm_cfg (w_tm two_timers) 1 = Some \<lparr>tc_timeout = 60000, tc_interval = 0, tc_expire = 1600000060000, tc_suspended = False, tc_cb = ShakeHands 0\<rparr>"
  by (simp_all add: two_timers_eq)

lemma disconnect_exact_witness:
  "Disconnect lib0 tick0 0 two_timers = Inr (EraseNode Inbound 0
     (two_timers\<lparr>w_node := (w_node two_timers)(0 := (w_node two_timers 0)\<lparr>n_state := kDisconnected, n_timers := (\<lambda>_. None)\<rparr>),
        w_tm := (w_tm two_timers)\<lparr>tm_timers := []\<rparr>\<rparr>))"
  using disconnect_exact[of two_timers 0 Inbound lib0 tick0] by simp

subsection \<open>Timeouts\<close>

text \<open>What a one-shot callback does: nothing, or disconnect its node.\<close>

fun callback_disconnects :: "tick \<Rightarrow> timer_cb \<Rightarrow> nat \<Rightarrow> world \<Rightarrow> bool" where
  "callback_disconnects e (SocketNoMsg j) i w = (j = i \<and> \<not> t_stop e \<and> n_state (w_node w i) \<noteq> kDisconnected \<and> n_no_msg (w_node w i))"
| "callback_disconnects e (Inactivity j) i w = (j = i \<and> \<not> t_stop e \<and> n_state (w_node w i) \<noteq> kDisconnected)"
| "callback_disconnects e (ShakeHands j) i w = (j = i \<and> \<not> t_stop e \<and> n_state (w_node w i) = kInitialState)"
| "callback_disconnects e _ i w = False"

lemma callback_Disconnect:
  "callback_disconnects e cb i w \<Longrightarrow> run_timer_cb l e cb w = Disconnect l e i w"
  by (cases cb) (auto simp: SocketNoMsgTimeoutCb_def InactivityTimeoutCb_def ShakeHandsTimeoutCb_def IsDisconnected_def
      IsHandshakeCompleted_def)

lemma slot_ids_mem: "n_timers n s = Some t \<Longrightarrow> t \<in> set (slot_ids all_slots n)"
proof -
  assume t: "n_timers n s = Some t"
  have "s \<in> set ss \<Longrightarrow> t \<in> set (slot_ids ss n)" for ss
    using t by (induction ss) (auto split: option.split)
  then show ?thesis by (simp add: all_slots_UNIV)
qed

text \<open>C37: No timeout completes its work: when the inactivity, the silence or the handshake timer of a node
  fires and its callback disconnects the node, the disconnection erases that very timer from the
  manager, which afterwards erases it again -- undefined behaviour, in every such case.\<close>
theorem timeout_disconnect_undefined:
  assumes "w_orphans w = Orphans_new" "n_in_flight (w_node w i) = []" "distinct (tm_timers (w_tm w))"
    "n_owner (w_node w i) = Some o1" "n_timers (w_node w i) s = Some t"
    "tm_cfg (w_tm w) t = Some c" "tc_interval c = 0" "callback_disconnects e (tc_cb c) i w"
  shows "run_timer l e t w = Inl Undefined"
proof (cases "live_on i all_slots w")
  case False
  then show ?thesis using assms Disconnect_exact[of i w o1 l e]
    by (simp add: run_timer_def InvokeTimerCb_def callback_Disconnect idle_node_def)
next
  case True
  have "Disconnect l e i w = Inr (disconnected i o1 w)"
    using assms True Disconnect_exact[of i w o1 l e] by (simp add: idle_node_def)
  moreover have "w_tm (disconnected i o1 w) =
      (w_tm w)\<lparr>tm_timers := filter (\<lambda>t. t \<notin> set (slot_ids all_slots (w_node w i))) (tm_timers (w_tm w))\<rparr>"
    by (cases o1) (simp_all add: disconnected_def EraseNode_def)
  ultimately show ?thesis using assms slot_ids_mem[OF assms(5)]
    by (simp add: run_timer_def InvokeTimerCb_def callback_Disconnect Invoke_after_def erase_timer_def)
qed

lemma timeout_disconnect_undefined_witness:
  "run_timer lib0 tick0 1 two_timers = Inl Undefined"
  using timeout_disconnect_undefined[of two_timers 0 Inbound shakehands 1 _ tick0 lib0] two_timers_cfg(2)
  by (simp add: tick0_def)

text \<open>A node that outlives one of its two connection timers cannot be disconnected any more: once the
  callback of the silence or the handshake timer has run and found nothing to do, the manager has
  dropped the timer, the node still points to it, and every later disconnection is undefined.\<close>
theorem outlived_timer_undefined:
  assumes "w_orphans w = Orphans_new" "n_in_flight (w_node w i) = []" "distinct (tm_timers (w_tm w))"
    "n_owner (w_node w i) = Some o1" "n_timers (w_node w i) s = Some t"
    "tm_cfg (w_tm w) t = Some c" "tc_interval c = 0" "tc_cb c = SocketNoMsg i \<or> tc_cb c = ShakeHands i"
    "\<not> callback_disconnects e (tc_cb c) i w" "run_timer l e t w = Inr w'"
  shows "Disconnect l e' i w' = Inl Undefined"
proof -
  have "run_timer_cb l e (tc_cb c) w = Inr w"
    using assms(8,9) by (cases "n_state (w_node w i)") (auto simp: SocketNoMsgTimeoutCb_def ShakeHandsTimeoutCb_def
        IsDisconnected_def IsHandshakeCompleted_def)
  then have "res_bind (erase_timer t (w_tm w)) (\<lambda>m. Inr (w\<lparr>w_tm := m\<rparr>)) = Inr w'"
    using assms(6,7,10) by (simp add: run_timer_def InvokeTimerCb_def Invoke_after_def)
  then have w': "w' = w\<lparr>w_tm := (w_tm w)\<lparr>tm_timers := remove1 t (tm_timers (w_tm w))\<rparr>\<rparr>"
    by (auto simp: res_bind_eq_Inr erase_timer_def split: if_splits)
  have "t \<notin> set (tm_timers (w_tm w'))" using assms(3) by (simp add: w')
  moreover have "t \<in> set (slot_ids all_slots (w_node w' i))" using slot_ids_mem[OF assms(5)] by (simp add: w')
  ultimately have "\<not> live_on i all_slots w'" by (auto simp: live_on_def)
  moreover have "idle_node i w'" "n_owner (w_node w' i) = Some o1" using assms by (simp_all add: w' idle_node_def)
  ultimately show ?thesis using Disconnect_exact by simp
qed

lemma outlived_timer_undefined_witness:
  "\<exists>w'. run_timer lib0 tick0 0 (upd_node 0 (\<lambda>n. n\<lparr>n_no_msg := False\<rparr>) two_timers) = Inr w' \<and>
     Disconnect lib0 tick0 0 w' = Inl Undefined"
proof -
  let ?w = "upd_node 0 (\<lambda>n. n\<lparr>n_no_msg := False\<rparr>) two_timers"
  let ?c = "\<lparr>tc_timeout = 60000, tc_interval = 0, tc_expire = 1600000060000, tc_suspended = False, tc_cb = SocketNoMsg 0\<rparr>"
  have sel: "w_orphans ?w = Orphans_new" "w_tm ?w = w_tm two_timers" by (simp_all add: upd_node_def)
  have cb: "run_timer_cb lib0 tick0 (SocketNoMsg 0) ?w = Inr ?w"
    by (simp only: run_timer_cb.simps SocketNoMsgTimeoutCb_def) simp
  obtain w' where w': "run_timer lib0 tick0 0 ?w = Inr w'"
    unfolding run_timer_def InvokeTimerCb_def sel(2) two_timers_cfg(1)
    using cb sel(2) two_timers_cfg(1) by (auto simp: Invoke_after_def erase_timer_def simp del: run_timer_cb.simps)
  show ?thesis
    using outlived_timer_undefined[of ?w 0 Inbound no_msg 0 ?c tick0 lib0 w' tick0] w' sel two_timers_cfg(1) by simp
qed

end
