(* ===== verification/Connections.thy ===== *)
theory Connections
  imports Disconnecting
begin

text \<open>
  Opening connections and reading from them: \<^verbatim>\<open>src/network/src/acceptor.cpp\<close>, \<^verbatim>\<open>connector.cpp\<close> and the
  callbacks of \<^verbatim>\<open>libevent.cpp\<close>.  The results of libevent, of the system and of name resolution are
  arguments: a socket that was opened is its number, an address that was looked up a list.
\<close>

subsection \<open>Acceptor\<close>

definition register :: "owner \<Rightarrow> nat \<Rightarrow> world \<Rightarrow> world" where
  "register o1 i w = upd_node i (\<lambda>n. n\<lparr>n_owner := Some o1\<rparr>) w"

definition AcceptConnCb :: "lib \<Rightarrow> tick \<Rightarrow> sock_addr \<Rightarrow> bool \<Rightarrow> nat option \<Rightarrow> world \<Rightarrow> world res" where
  "AcceptConnCb l e sa base bev w =
     res_bind (FromSockAddr sa NetAddr_new) (\<lambda>(_, addr).
       if IsBanned (e_b32 l) (t_now e) addr (w_bans w) then Inr w
       else if kMaxInboundConnections \<le> length (w_inbounds w) then Inr w
       else if \<not> base then Inr w
       else case bev of None \<Rightarrow> Inr w
         | Some b \<Rightarrow>
             (case InitializeNode e Inbound (Some b) addr True False w of
                (None, w1) \<Rightarrow> Inr w1
              | (Some i, w1) \<Rightarrow> Inr (register Inbound i w1)))"

subsection \<open>Connector\<close>

definition ConnectNode :: "lib \<Rightarrow> tick \<Rightarrow> net_addr \<Rightarrow> bool \<Rightarrow> nat option \<Rightarrow> bool \<Rightarrow> bool \<Rightarrow> world \<Rightarrow> bool \<times> world" where
  "ConnectNode l e addr base bev connected manual w =
     (if \<not> base then (False, w)
      else if \<not> NetAddr_IsValid addr then (False, w)
      else if is_local_addr (w_local_addrs w) addr then (False, w)
      else if GetNode_addr (w_outbounds w) addr w \<noteq> None then (False, w)
      else if IsBanned (e_b32 l) (t_now e) addr (w_bans w) then (False, w)
      else case bev of None \<Rightarrow> (False, w)
        | Some b \<Rightarrow>
            let w1 = w\<lparr>w_peers := snd (Attempt (e_sha l) addr (t_now e) (w_peers w))\<rparr> in
            if \<not> connected then (False, w1)
            else (case InitializeNode e Outbound (Some b) addr False manual w1 of
                (None, w2) \<Rightarrow> (False, w2)
              | (Some i, w2) \<Rightarrow> (True, snd (SendVersion l e i (register Outbound i w2)))))"

text \<open>The search of \<^verbatim>\<open>OutboundTimeOutCb\<close>: up to 101 draws from the peer store; \<open>rnds k\<close> is the random source of
  draw \<open>k\<close>, \<open>stops k\<close> whether a shutdown was requested by then.  The address to connect to, if any.\<close>

definition wanted :: "lib \<Rightarrow> int \<Rightarrow> nat \<Rightarrow> peer \<Rightarrow> bool" where
  "wanted l now tries p =
     (let default = (na_port (pr_addr p) = ucast (e_port l)); useful = IsServiceFlagDesirable (na_services (pr_addr p)) in
      if tries \<le> 30 then 600 \<le> now - last_try p \<and> default \<and> useful
      else if tries \<le> 50 then default \<and> useful
      else useful)"

function outbound_search ::
  "lib \<Rightarrow> int \<Rightarrow> (nat \<Rightarrow> nat \<Rightarrow> nat) \<Rightarrow> (nat \<Rightarrow> bool) \<Rightarrow> nat \<Rightarrow> world \<Rightarrow> net_addr option res" where
  "outbound_search l now rnds stops tries w =
     (if 100 < tries then Inr None
      else if stops tries then Inr None
      else res_bind (Select (rnds tries) False (w_peers w)) (\<lambda>r.
        case r of None \<Rightarrow> Inr None
        | Some p \<Rightarrow>
            if \<not> NetAddr_IsValid (pr_addr p) \<or> is_local_addr (w_local_addrs w) (pr_addr p) then Inr None
            else if wanted l now tries p then Inr (Some (pr_addr p))
            else outbound_search l now rnds stops (Suc tries) w))"
  by auto
termination by (relation "measure (\<lambda>(l, now, rnds, stops, tries, w). 101 - tries)") auto

declare outbound_search.simps [simp del]

definition OutboundTimeOutCb ::
  "lib \<Rightarrow> tick \<Rightarrow> (nat \<Rightarrow> nat \<Rightarrow> nat) \<Rightarrow> (nat \<Rightarrow> bool) \<Rightarrow> bool \<Rightarrow> nat option \<Rightarrow> bool \<Rightarrow> world \<Rightarrow> (bool \<times> world) res" where
  "OutboundTimeOutCb l e rnds stops base bev connected w =
     (if kMaxOutboundConnections \<le> length (w_outbounds w) then Inr (False, w)
      else res_bind (outbound_search l (GetAdjustedTime (t_now e) (w_time w)) rnds stops 0 w) (\<lambda>r.
        case r of None \<Rightarrow> Inr (False, w)
        | Some addr \<Rightarrow> Inr (ConnectNode l e addr base bev connected False w)))"

text \<open>\<^verbatim>\<open>ConnectNodes\<close>: one address after the other, each with its own outcome.\<close>

fun ConnectNodes ::
  "lib \<Rightarrow> (net_addr \<times> tick \<times> nat option \<times> bool) list \<Rightarrow> bool \<Rightarrow> bool \<Rightarrow> bool \<Rightarrow> world \<Rightarrow> bool \<times> world" where
  "ConnectNodes l [] base manual ret w = (ret, w)"
| "ConnectNodes l ((addr, e, bev, connected) # xs) base manual ret w =
     (let (ok, w1) = ConnectNode l e addr base bev connected manual w in
      ConnectNodes l xs base manual (ret \<and> ok) w1)"

text \<open>\<^verbatim>\<open>GetHostAddr\<close>: \<open>looked_up\<close> is what name resolution returned.\<close>

definition GetHostAddr :: "tick \<Rightarrow> string \<Rightarrow> net_addr list option \<Rightarrow> world \<Rightarrow> (net_addr option \<times> world) res" where
  "GetHostAddr e host looked_up w =
     (case looked_up of None \<Rightarrow> Inr (None, w)
      | Some [] \<Rightarrow> Inr (None, w)
      | Some addrs \<Rightarrow>
          let k = t_rand e (length addrs - 1) in
          if length addrs \<le> k then Inl Undefined
          else
            let addr = addrs ! k in
            if \<not> NetAddr_IsValid addr then Inr (None, w)
            else case GetNode_addr (w_outbounds w) addr w of
              Some i \<Rightarrow> Inr (None, upd_node i (\<lambda>n. n\<lparr>n_host := host\<rparr>) w)
            | None \<Rightarrow> Inr (Some addr, w))"

text \<open>\<^verbatim>\<open>DnsLookup\<close>: for each seed its host, whether a shutdown was requested by then, the addresses found and the
  random age of each, between three and seven days.\<close>

definition seed_addr :: "u16 \<Rightarrow> int \<Rightarrow> nat \<Rightarrow> net_addr \<Rightarrow> net_addr" where
  "seed_addr port now r a =
     NetAddr_set_timestamp (of_int (now - 3 * 24 * 60 * 60 - int r))
       (NetAddr_set_services kDesirableServiceFlags (NetAddr_set_port port a))"

definition seed_host :: "bytes \<Rightarrow> bytes" where
  "seed_host host = ascii (''x'' @ show_base 10 (unat kDesirableServiceFlags) @ ''.'') @ host"

fun DnsLookup_loop ::
  "lib \<Rightarrow> tick \<Rightarrow> (bytes \<times> bool \<times> net_addr list option \<times> (nat \<Rightarrow> nat)) list \<Rightarrow> nat \<Rightarrow> world \<Rightarrow> (nat option \<times> world) res" where
  "DnsLookup_loop l e [] found w = Inr (Some found, w)"
| "DnsLookup_loop l e ((host, stop, looked_up, ages) # seeds) found w =
     (if stop then Inr (None, w)
      else
        let (ok, source) = SetInternal (e_sha l) (seed_host host) NetAddr_new in
        if \<not> ok then DnsLookup_loop l e seeds found w
        else case looked_up of None \<Rightarrow> DnsLookup_loop l e seeds found w
        | Some addrs \<Rightarrow>
            let as = map (\<lambda>k. seed_addr (e_port l) (t_now e) (ages k) (addrs ! k)) [0..<length addrs] in
            res_bind (Peers_Add_vec (e_sha l) (t_now e, t_now e) as source 0 (w_peers w)) (\<lambda>(_, p).
              DnsLookup_loop l e seeds (found + length addrs) (w\<lparr>w_peers := p\<rparr>)))"

definition DnsLookup ::
  "lib \<Rightarrow> tick \<Rightarrow> (bytes \<times> bool \<times> net_addr list option \<times> (nat \<Rightarrow> nat)) list \<Rightarrow> world \<Rightarrow> (bool \<times> world) res" where
  "DnsLookup l e seeds w =
     res_bind (DnsLookup_loop l e seeds 0 w) (\<lambda>(r, w1).
       case r of None \<Rightarrow> Inr (False, w1) | Some n \<Rightarrow> Inr (n \<noteq> 0, w1))"

subsection \<open>Callbacks of libevent\<close>

text \<open>\<^verbatim>\<open>ConnReadCb\<close> returns the node whose \<^verbatim>\<open>ParseMsg\<close> it hands to the thread pool.\<close>

definition ConnReadCb :: "tick \<Rightarrow> owner \<Rightarrow> nat \<Rightarrow> world \<Rightarrow> nat option \<times> world" where
  "ConnReadCb e o1 b w =
     (case GetNode_bev (nodes_of o1 w) b w of None \<Rightarrow> (None, w)
      | Some i \<Rightarrow>
          let w1 = (if n_no_msg (w_node w i) then upd_node i (\<lambda>n. n\<lparr>n_no_msg := False\<rparr>) w else w) in
          (Some i,
           case n_timers (w_node w1 i) no_receiving of
             Some t \<Rightarrow> reset_timer e t w1
           | None \<Rightarrow>
               let timeout = (if kBip31Version < n_version (w_node w1 i) then kNoReceivingTimeoutBip31 else kNoReceivingTimeout) in
               start_node_timer e i no_receiving (of_nat timeout * 1000) 0 (Inactivity i) w1))"

datatype conn_event = EventConnected | EventEof | EventError bool | EventOther

definition ConnEventCb :: "lib \<Rightarrow> tick \<Rightarrow> owner \<Rightarrow> nat \<Rightarrow> conn_event \<Rightarrow> world \<Rightarrow> world res" where
  "ConnEventCb l e o1 b ev w =
     (case GetNode_bev (nodes_of o1 w) b w of None \<Rightarrow> Inr w
      | Some i \<Rightarrow>
          (case ev of
             EventConnected \<Rightarrow> Inr w
           | EventEof \<Rightarrow> if \<not> IsDisconnected (w_node w i) then Disconnect l e i w else Inr w
           | EventError transient \<Rightarrow>
               if \<not> transient then if \<not> IsDisconnected (w_node w i) then Disconnect l e i w else Inr w else Inr w
           | EventOther \<Rightarrow> Inr w))"

end
