(* ===== verification/Net_Events.thy ===== *)
theory Net_Events
  imports Connections
begin

text \<open>
  The peer-to-peer layer as a whole: its events as a step relation on \<open>world\<close>, the states reached from
  the empty one, and the invariant they keep.  A step that runs into undefined behaviour or an
  exception has no successor; the theorems on disconnecting say when that is.  Messages are handled
  one at a time and may interleave with every other event, also on a node that was disconnected
  while the loop of \<^verbatim>\<open>ParseMsg\<close> was running.
\<close>

definition fresh_bev :: "nat option \<Rightarrow> world \<Rightarrow> bool" where
  "fresh_bev bev w = (\<forall>b. bev = Some b \<longrightarrow> (\<forall>i. n_bev (w_node w i) \<noteq> Some b))"

inductive net_step :: "lib \<Rightarrow> world \<Rightarrow> world \<Rightarrow> bool" for l :: lib where
  accept: "fresh_bev bev w \<Longrightarrow> AcceptConnCb l e sa base bev w = Inr w' \<Longrightarrow> net_step l w w'"
| connect: "fresh_bev bev w \<Longrightarrow> ConnectNode l e addr base bev connected manual w = (ok, w') \<Longrightarrow> net_step l w w'"
| outbound: "fresh_bev bev w \<Longrightarrow> OutboundTimeOutCb l e rnds stops base bev connected w = Inr (ok, w') \<Longrightarrow> net_step l w w'"
| seeds: "DnsLookup l e seeds w = Inr (ok, w') \<Longrightarrow> net_step l w w'"
| arrival: "i < w_next_id w \<Longrightarrow> net_step l w (upd_node i (\<lambda>n. n\<lparr>n_input := n_input n @ bs\<rparr>) w)"
| read: "ConnReadCb e o1 b w = (r, w') \<Longrightarrow> net_step l w w'"
| event: "ConnEventCb l e o1 b ev w = Inr w' \<Longrightarrow> net_step l w w'"
| message: "i < w_next_id w \<Longrightarrow> ParseMsgData l e raw i h w = Inr (ok, w') \<Longrightarrow> net_step l w w'"
| drained: "i < w_next_id w \<Longrightarrow> net_step l w (drain l i n w)"
| dropped: "i < w_next_id w \<Longrightarrow> Disconnect l e i w = Inr w' \<Longrightarrow> net_step l w w'"
| check: "net_step l w (w\<lparr>w_tm := CheckTimers now (w_tm w)\<rparr>)"
| timer: "t \<in> set (tm_tasks (w_tm w)) \<Longrightarrow>
    run_timer l e t (w\<lparr>w_tm := (w_tm w)\<lparr>tm_tasks := remove1 t (tm_tasks (w_tm w))\<rparr>\<rparr>) = Inr w' \<Longrightarrow> net_step l w w'"

inductive reachable :: "lib \<Rightarrow> world \<Rightarrow> bool" for l :: lib where
  init: "reachable l ((world_init key)\<lparr>w_local_addrs := locals\<rparr>)"
| step: "reachable l w \<Longrightarrow> net_step l w w' \<Longrightarrow> reachable l w'"

inductive_cases net_stepE: "net_step l w w'"

declare init [intro] reachable.step [intro]

subsection \<open>The invariant\<close>

text \<open>What it depends on in a node.\<close>

definition n_core :: "node \<Rightarrow> bool \<times> u64 \<times> u32 \<times> nat option \<times> net_addr \<times> conn_state \<times> owner option \<times> u64 \<times> bytes list" where
  "n_core n = (n_inbound n, n_services n, n_version n, n_bev n, n_addr n, n_state n, n_owner n, n_ping_nonce n, n_in_flight n)"

definition node_ok :: "node \<Rightarrow> bool" where
  [inv_defs]: "node_ok n =
     (n_ping_nonce n = 0 \<and> n_in_flight n = [] \<and> (n_version n = 0 \<or> kMinPeerProtoVersion \<le> n_version n) \<and>
      (n_state n = kEstablished \<longrightarrow> n_version n \<noteq> 0))"

definition list_ok :: "owner \<Rightarrow> world \<Rightarrow> bool" where
  [inv_defs]: "list_ok o1 w =
     (distinct (nodes_of o1 w) \<and>
      (\<forall>i\<in>set (nodes_of o1 w). i < w_next_id w \<and> n_owner (w_node w i) = Some o1 \<and>
         n_inbound (w_node w i) = (o1 = Inbound) \<and> n_state (w_node w i) \<noteq> kDisconnected))"

definition one_connection_each :: "world \<Rightarrow> bool" where
  [inv_defs]: "one_connection_each w =
     (\<forall>i\<in>set (w_outbounds w). \<forall>j\<in>set (w_outbounds w). NetAddr_eq (n_addr (w_node w i)) (n_addr (w_node w j)) \<longrightarrow> i = j)"

definition preferred_ok :: "world \<Rightarrow> bool" where
  [inv_defs]: "preferred_ok w =
     (w_preferred w = (\<Sum>i<w_next_id w. int_of_bool (IsPreferedDownload (w_node w i))))"

definition net_inv :: "world \<Rightarrow> bool" where
  "net_inv w =
     (w_singleton w = [] \<and> w_orphans w = Orphans_new \<and> tm_inv (w_tm w) \<and> (\<forall>i. node_ok (w_node w i)) \<and>
      (\<forall>o1. list_ok o1 w) \<and> length (w_inbounds w) \<le> kMaxInboundConnections \<and> one_connection_each w \<and>
      preferred_ok w)"

lemma n_core_eq:
  assumes "n_core n = n_core n'"
  shows "n_inbound n = n_inbound n'" "n_services n = n_services n'" "n_version n = n_version n'" "n_bev n = n_bev n'"
    "n_addr n = n_addr n'" "n_state n = n_state n'" "n_owner n = n_owner n'" "n_ping_nonce n = n_ping_nonce n'"
    "n_in_flight n = n_in_flight n'"
  using assms by (simp_all add: n_core_def)

text \<open>The rest of the world the invariant looks at.\<close>

definition w_rest :: "world \<Rightarrow> nat list \<times> orphans \<times> nat \<times> nat list \<times> nat list \<times> int" where
  "w_rest w = (w_singleton w, w_orphans w, w_next_id w, w_inbounds w, w_outbounds w, w_preferred w)"

lemma net_inv_cong:
  assumes "\<And>i. n_core (w_node w' i) = n_core (w_node w i)" "w_rest w' = w_rest w" "tm_inv (w_tm w) \<Longrightarrow> tm_inv (w_tm w')"
    "net_inv w"
  shows "net_inv w'"
proof -
  note c = n_core_eq[OF assms(1)]
  have p: "IsPreferedDownload (w_node w' i) = IsPreferedDownload (w_node w i)" for i
    using c[of i] by (simp add: IsPreferedDownload_def IsClient_def)
  have n: "nodes_of o1 w' = nodes_of o1 w" for o1 using assms(2) by (cases o1) (simp_all add: w_rest_def)
  show ?thesis using assms(2-4)
    by (simp add: net_inv_def node_ok_def list_ok_def one_connection_each_def preferred_ok_def c p n w_rest_def)
qed

text \<open>A weaker condition for steps that change the state or the version of a node.\<close>

lemma preferred_ok_cong:
  assumes "preferred_ok w" "w_preferred w' = w_preferred w" "w_next_id w' = w_next_id w"
    "\<And>j. n_inbound (w_node w' j) = n_inbound (w_node w j)" "\<And>j. n_services (w_node w' j) = n_services (w_node w j)"
  shows "preferred_ok w'"
  using assms by (simp add: preferred_ok_def IsPreferedDownload_def IsClient_def)

lemma one_connection_each_cong:
  assumes "one_connection_each w" "set (w_outbounds w') \<subseteq> set (w_outbounds w)"
    "\<And>j. n_addr (w_node w' j) = n_addr (w_node w j)"
  shows "one_connection_each w'"
  using assms unfolding one_connection_each_def assms(3) by blast

lemma net_inv_node:
  assumes "net_inv w" "w_rest w' = w_rest w" "w_tm w' = w_tm w" "\<And>j. node_ok (w_node w' j)"
    "\<And>j. n_inbound (w_node w' j) = n_inbound (w_node w j)" "\<And>j. n_services (w_node w' j) = n_services (w_node w j)"
    "\<And>j. n_addr (w_node w' j) = n_addr (w_node w j)" "\<And>j. n_owner (w_node w' j) = n_owner (w_node w j)"
    "\<And>j. n_state (w_node w' j) = kDisconnected \<Longrightarrow> n_state (w_node w j) \<noteq> kDisconnected \<Longrightarrow> n_owner (w_node w j) = None"
  shows "net_inv w'"
proof -
  have n: "nodes_of o1 w' = nodes_of o1 w" for o1 using assms(2) by (cases o1) (simp_all add: w_rest_def)
  have r: "w_next_id w' = w_next_id w" "w_preferred w' = w_preferred w" "w_outbounds w' = w_outbounds w"
      "w_inbounds w' = w_inbounds w" "w_singleton w' = w_singleton w" "w_orphans w' = w_orphans w"
    using assms(2) by (simp_all add: w_rest_def)
  have "list_ok o1 w'" for o1
    using assms(1,9) unfolding net_inv_def list_ok_def n r assms(5,8) by (metis option.distinct(1))
  moreover have "preferred_ok w'"
    using assms(1) r assms(5,6) by - (rule preferred_ok_cong[of w]; simp add: net_inv_def)
  moreover have "one_connection_each w'"
    using assms(1) r assms(7) by - (rule one_connection_each_cong[of w]; simp add: net_inv_def)
  ultimately show ?thesis using assms(1,3,4) r by (simp add: net_inv_def)
qed

lemma net_inv_upd:
  "net_inv w \<Longrightarrow> (\<And>n. n_core (f n) = n_core n) \<Longrightarrow> net_inv (upd_node i f w)"
  by (rule net_inv_cong[of _ w]) (simp_all add: w_rest_def upd_node_def)

lemma net_inv_world [simp]:
  "net_inv (w\<lparr>w_peers := x1\<rparr>) = net_inv w" "net_inv (w\<lparr>w_time := x2\<rparr>) = net_inv w"
  "net_inv (w\<lparr>w_bans := x3\<rparr>) = net_inv w" "net_inv (w\<lparr>w_blocks_in_flight := x4\<rparr>) = net_inv w"
  "net_inv (w\<lparr>w_local_addrs := x5\<rparr>) = net_inv w"
proof -
  have "list_ok o1 (w\<lparr>w_peers := x1\<rparr>) = list_ok o1 w" "list_ok o1 (w\<lparr>w_time := x2\<rparr>) = list_ok o1 w"
    "list_ok o1 (w\<lparr>w_bans := x3\<rparr>) = list_ok o1 w" "list_ok o1 (w\<lparr>w_blocks_in_flight := x4\<rparr>) = list_ok o1 w"
    "list_ok o1 (w\<lparr>w_local_addrs := x5\<rparr>) = list_ok o1 w" for o1
    by (cases o1; simp add: list_ok_def)+
  then show "net_inv (w\<lparr>w_peers := x1\<rparr>) = net_inv w" "net_inv (w\<lparr>w_time := x2\<rparr>) = net_inv w"
    "net_inv (w\<lparr>w_bans := x3\<rparr>) = net_inv w" "net_inv (w\<lparr>w_blocks_in_flight := x4\<rparr>) = net_inv w"
    "net_inv (w\<lparr>w_local_addrs := x5\<rparr>) = net_inv w"
    by (simp_all add: net_inv_def node_ok_def one_connection_each_def preferred_ok_def)
qed

lemma net_inv_tm: "net_inv w \<Longrightarrow> tm_inv m \<Longrightarrow> net_inv (w\<lparr>w_tm := m\<rparr>)"
  by (rule net_inv_cong[of _ w]) (simp_all add: w_rest_def)

lemma net_inv_tmD: "net_inv w \<Longrightarrow> tm_inv (w_tm w)"
  by (simp add: net_inv_def)

lemma net_inv_start_timer:
  assumes "net_inv w"
  shows "net_inv (start_node_timer e i s d iv cb w)"
proof -
  obtain t m where m: "StartTimer (t_ms e) d iv cb (w_tm w) = (t, m)" by (metis surj_pair)
  have "net_inv (w\<lparr>w_tm := m\<rparr>)" using assms tm_inv_start[OF net_inv_tmD[OF assms] m] by (rule net_inv_tm)
  then show ?thesis by (simp add: start_node_timer_def start_timer_def m net_inv_upd n_core_def)
qed

lemma net_inv_restart: "net_inv w \<Longrightarrow> net_inv (restart_no_sending e i w)"
  by (auto simp: restart_no_sending_def reset_timer_def net_inv_start_timer intro!: net_inv_tm tm_inv_upd net_inv_tmD
      split: option.split)

lemma net_inv_send: "net_inv w \<Longrightarrow> net_inv (send l e m i w)"
  by (simp add: send_def SendMsg_def Let_def net_inv_restart net_inv_upd n_core_def)

lemma net_inv_SendVersion: "net_inv w \<Longrightarrow> net_inv (snd (SendVersion l e i w))"
  using net_inv_send[of w] by (simp add: SendVersion_def Let_def send_def split_def)

subsection \<open>Disconnecting keeps it\<close>

lemma nodes_of_erase [simp]:
  "nodes_of o2 (EraseNode o1 i w) = (if o2 = o1 then remove1 i (nodes_of o1 w) else nodes_of o2 w)"
  by (cases o1; cases o2; simp add: EraseNode_def)

lemma erase_sel [simp]:
  "w_node (EraseNode o1 i w) = w_node w" "w_next_id (EraseNode o1 i w) = w_next_id w"
  "w_singleton (EraseNode o1 i w) = w_singleton w" "w_orphans (EraseNode o1 i w) = w_orphans w"
  "w_tm (EraseNode o1 i w) = w_tm w" "w_preferred (EraseNode o1 i w) = w_preferred w"
  by (cases o1; simp add: EraseNode_def)+

lemma tm_inv_filter: "tm_inv m \<Longrightarrow> tm_inv (m\<lparr>tm_timers := filter P (tm_timers m)\<rparr>)"
  by (auto simp: tm_inv_def)

lemma nodes_of_disconnected:
  "nodes_of o2 (disconnected i o1 w) = (if o2 = o1 then remove1 i (nodes_of o1 w) else nodes_of o2 w)"
  by (cases o1; cases o2; simp add: disconnected_def)

lemma net_inv_disconnected:
  assumes inv: "net_inv w" and own: "n_owner (w_node w i) = Some o1"
  shows "net_inv (disconnected i o1 w)"
proof -
  let ?w = "disconnected i o1 w"
  have node: "w_node ?w j = (if j = i then (w_node w i)\<lparr>n_state := kDisconnected, n_timers := (\<lambda>_. None)\<rparr> else w_node w j)" for j
    by (simp add: disconnected_def)
  have sel: "w_next_id ?w = w_next_id w" "w_singleton ?w = w_singleton w" "w_orphans ?w = w_orphans w"
    "w_preferred ?w = w_preferred w"
    "w_tm ?w = (w_tm w)\<lparr>tm_timers := filter (\<lambda>t. t \<notin> set (slot_ids all_slots (w_node w i))) (tm_timers (w_tm w))\<rparr>"
    by (simp_all add: disconnected_def)
  have list: "list_ok o2 ?w" for o2
  proof -
    have old: "list_ok o2 w" using inv by (simp add: net_inv_def)
    have "set (nodes_of o2 ?w) \<subseteq> set (nodes_of o2 w)" "distinct (nodes_of o2 ?w)"
      using old by (auto simp: nodes_of_disconnected list_ok_def dest: notin_set_remove1)
    moreover have "i \<notin> set (nodes_of o2 ?w)"
      using old own by (auto simp: nodes_of_disconnected list_ok_def)
    ultimately show ?thesis using old by (auto simp: list_ok_def node sel)
  qed
  have "preferred_ok ?w"
    using inv by - (rule preferred_ok_cong[of w]; simp add: net_inv_def sel node)
  moreover have "length (w_inbounds ?w) \<le> kMaxInboundConnections"
    using inv nodes_of_disconnected[of Inbound i o1 w] by (auto simp: net_inv_def length_remove1 split: if_splits)
  moreover have "one_connection_each ?w"
  proof (rule one_connection_each_cong[of w])
    show "set (w_outbounds ?w) \<subseteq> set (w_outbounds w)"
      using nodes_of_disconnected[of Outbound i o1 w] set_remove1_subset[of i "w_outbounds w"] by (auto split: if_splits)
  qed (use inv in \<open>simp_all add: net_inv_def node\<close>)
  moreover have "node_ok (w_node ?w j)" for j using inv by (simp add: net_inv_def node_ok_def node)
  ultimately show ?thesis using inv list by (simp add: net_inv_def sel tm_inv_filter)
qed

lemma net_inv_idle: "net_inv w \<Longrightarrow> idle_node i w"
  by (simp add: net_inv_def idle_node_def node_ok_def tm_inv_def)

lemma net_inv_Disconnect:
  assumes "net_inv w" "Disconnect l e i w = Inr w'"
  shows "net_inv w'"
proof (cases "n_owner (w_node w i)")
  case (Some o1)
  then show ?thesis
    using assms Disconnect_exact[OF net_inv_idle[OF assms(1)] Some, of l e] net_inv_disconnected[OF assms(1) Some]
    by (auto split: if_splits)
next
  case None
  have w': "w' = upd_node i (\<lambda>n. n\<lparr>n_state := kDisconnected\<rparr>) w"
    using assms(2) None by (simp add: Disconnect_def set_connection_state_def)
  show ?thesis using assms(1) None
    by - (rule net_inv_node[of w]; auto simp: w' w_rest_def upd_node_def net_inv_def node_ok_def split: if_splits)
qed

lemma net_inv_disconnect_false: "net_inv w \<Longrightarrow> disconnect_false l e i r w = Inr (b, w') \<Longrightarrow> net_inv w'"
  by (auto simp: disconnect_false_def res_bind_eq_Inr dest: net_inv_Disconnect)

subsection \<open>The handlers keep it\<close>

lemma net_inv_establish:
  assumes "net_inv w" "n_version (w_node w i) \<noteq> 0" "set_connection_state l e i kEstablished w = Inr w'"
  shows "net_inv w'"
proof -
  have w': "w' = upd_node i (\<lambda>n. n\<lparr>n_state := kEstablished\<rparr>) w" using assms(3) by (simp add: set_connection_state_def)
  show ?thesis using assms(1,2)
    by - (rule net_inv_node[of w]; auto simp: w' w_rest_def upd_node_def net_inv_def node_ok_def split: if_splits)
qed

lemma sum_fun_upd:
  fixes g :: "nat \<Rightarrow> int"
  assumes "i < n"
  shows "(\<Sum>j<n. (g(i := x)) j) = (\<Sum>j<n. g j) - g i + x"
proof -
  have "(\<Sum>j<n. (g(i := x)) j) = x + (\<Sum>j\<in>{..<n} - {i}. g j)"
    using assms by (subst sum.remove[of _ i]) (auto intro!: sum.cong)
  moreover have "(\<Sum>j<n. g j) = g i + (\<Sum>j\<in>{..<n} - {i}. g j)" using assms by (intro sum.remove) auto
  ultimately show ?thesis by simp
qed

lemma net_inv_set_services:
  assumes "net_inv w" "i < w_next_id w"
  shows "net_inv (set_services i sv w)"
proof -
  let ?w = "set_services i sv w"
  have node: "w_node ?w j = (if j = i then (w_node w i)\<lparr>n_services := sv\<rparr> else w_node w j)" for j
    by (simp add: set_services_def Let_def)
  have rest: "w_next_id ?w = w_next_id w" "nodes_of o1 ?w = nodes_of o1 w" "w_singleton ?w = w_singleton w"
      "w_orphans ?w = w_orphans w" "w_tm ?w = w_tm w" "w_outbounds ?w = w_outbounds w" "w_inbounds ?w = w_inbounds w"
      "w_preferred ?w = w_preferred w - int_of_bool (IsPreferedDownload (w_node w i)) + int_of_bool (IsPreferedDownload (w_node ?w i))" for o1
    by (cases o1; simp add: set_services_def Let_def upd_node_def)+
  have fn: "(\<lambda>j. int_of_bool (IsPreferedDownload (w_node ?w j))) =
      (\<lambda>j. int_of_bool (IsPreferedDownload (w_node w j)))(i := int_of_bool (IsPreferedDownload (w_node ?w i)))"
    by (auto simp: node fun_eq_iff)
  have "(\<Sum>j<w_next_id w. int_of_bool (IsPreferedDownload (w_node ?w j))) =
      (\<Sum>j<w_next_id w. int_of_bool (IsPreferedDownload (w_node w j))) - int_of_bool (IsPreferedDownload (w_node w i)) +
      int_of_bool (IsPreferedDownload (w_node ?w i))"
    using sum_fun_upd[OF assms(2), of "\<lambda>j. int_of_bool (IsPreferedDownload (w_node w j))"] by (subst fn) simp
  then have "preferred_ok ?w" using assms(1) by (simp add: net_inv_def preferred_ok_def rest)
  moreover have "list_ok o1 ?w" for o1 using assms(1) by (auto simp: net_inv_def list_ok_def rest node)
  moreover have "node_ok (w_node ?w j)" for j using assms(1) by (simp add: net_inv_def node_ok_def node)
  moreover have "one_connection_each ?w"
    using assms(1) by - (rule one_connection_each_cong[of w]; simp add: net_inv_def rest node)
  ultimately show ?thesis using assms(1) by (simp add: net_inv_def rest)
qed

lemma next_id_simps [simp]:
  "w_next_id (upd_node i f w) = w_next_id w"
  "w_next_id (start_node_timer e i s d iv cb w) = w_next_id w"
  "w_next_id (restart_no_sending e i w) = w_next_id w"
  "w_next_id (send l e m i w) = w_next_id w"
  "w_next_id (snd (SendVersion l e i w)) = w_next_id w"
proof -
  show u: "w_next_id (upd_node i f w) = w_next_id w" for f w by (simp add: upd_node_def)
  show t: "w_next_id (start_node_timer e i s d iv cb w) = w_next_id w" for s d iv cb w
    by (simp add: start_node_timer_def start_timer_def split_def u Let_def)
  show r: "w_next_id (restart_no_sending e i w) = w_next_id w" for w
    by (simp add: restart_no_sending_def reset_timer_def t split: option.split)
  show s: "w_next_id (send l e m i w) = w_next_id w" for m w
    by (simp add: send_def SendMsg_def Let_def u r)
  show "w_next_id (snd (SendVersion l e i w)) = w_next_id w"
    using s by (simp add: SendVersion_def Let_def send_def split_def)
qed

lemma net_inv_version:
  assumes "net_inv w" "kMinPeerProtoVersion \<le> v_version v"
  shows "net_inv (upd_node i (\<lambda>n. n\<lparr>n_start_height := v_height v, n_relay_txes := v_relay v, n_version := v_version v\<rparr>) w)"
proof -
  have "v_version v \<noteq> 0" using assms(2) by (auto simp: kMinPeerProtoVersion_def kGetheadersVersion_def)
  then show ?thesis using assms
    by - (rule net_inv_node[of w]; auto simp: w_rest_def upd_node_def net_inv_def node_ok_def split: if_splits)
qed

lemma net_inv_store:
  assumes "net_inv w" "i < w_next_id w" "kMinPeerProtoVersion \<le> v_version v"
  shows "net_inv (version_store l e v i w)"
proof -
  define w2 where "w2 = send l e MVerack i (if n_inbound (w_node w i) then snd (SendVersion l e i w) else w)"
  have w2: "net_inv w2" "i < w_next_id w2" using assms by (simp_all add: w2_def net_inv_send net_inv_SendVersion)
  have "net_inv (upd_node i (set_local_addr (v_recv v)) (set_services i (v_services v) w2))"
    by (intro net_inv_upd net_inv_set_services w2) (simp add: set_local_addr_def n_core_def)
  from net_inv_version[OF this assms(3), of i] show ?thesis
    by (simp add: version_store_def Let_def w2_def[symmetric] net_inv_upd n_core_def)
qed

lemma net_inv_push: "net_inv w \<Longrightarrow> push_addr l e i a w = Inr w' \<Longrightarrow> net_inv w'"
proof -
  assume "net_inv w" "push_addr l e i a w = Inr w'"
  then obtain b n where n: "PushAddrToSend l (t_rand e) a (w_node w i) = Inr (b, n)" "w' = upd_node i (\<lambda>_. n) w"
    by (auto simp: push_addr_def res_bind_eq_Inr)
  have "n_core n = n_core (w_node w i)"
    using n(1) by (auto simp: PushAddrToSend_def Let_def n_core_def split: if_splits)
  then show ?thesis using \<open>net_inv w\<close> n(2)
    by - (rule net_inv_cong[of _ w]; simp add: w_rest_def upd_node_def)
qed

lemma net_inv_Advertise: "net_inv w \<Longrightarrow> AdvertiseLocalAddr l e i b w = Inr w' \<Longrightarrow> net_inv w'"
  by (auto simp: AdvertiseLocalAddr_def Let_def split: if_splits dest: net_inv_push)

lemma net_inv_outbound:
  assumes "net_inv w" "version_outbound l e i w = Inr w'"
  shows "net_inv w'"
proof -
  obtain w1 where w1: "(if e_advertise l \<and> \<not> IsInitialBlockDownload then AdvertiseLocalAddr l e i True w else Inr w) = Inr w1"
    using assms(2) by (auto simp: version_outbound_def res_bind_eq_Inr)
  have "net_inv w1" using assms(1) w1 net_inv_Advertise by (auto split: if_splits)
  then show ?thesis using assms(2) w1
    by (auto simp: version_outbound_def Let_def net_inv_upd net_inv_send n_core_def split: if_splits)
qed

lemma net_inv_accept_version:
  assumes "net_inv w" "i < w_next_id w" "kMinPeerProtoVersion \<le> v_version v" "version_accept l e v i w = Inr (b, w')"
  shows "net_inv w'"
  using assms(4) net_inv_store[OF assms(1-3), of l e]
  by (auto simp: version_accept_def Let_def res_bind_eq_Inr split: if_splits dest: net_inv_outbound)

lemma net_inv_misbehave: "net_inv w \<Longrightarrow> misbehave i w = Inr (b, w') \<Longrightarrow> net_inv w'"
proof -
  assume "net_inv w" "misbehave i w = Inr (b, w')"
  then obtain n where n: "Misbehaving 1 (w_node w i) = Inr n" "w' = upd_node i (\<lambda>_. n) w"
    by (auto simp: misbehave_def res_bind_eq_Inr)
  have "n_core n = n_core (w_node w i)"
    using n(1) by (auto simp: Misbehaving_def Let_def n_core_def split: if_splits)
  then show ?thesis using \<open>net_inv w\<close> n(2)
    by - (rule net_inv_cong[of _ w]; simp add: w_rest_def upd_node_def)
qed

lemma peer_services_sel [simp]:
  "w_next_id (version_peer_services l v i w) = w_next_id w" "net_inv (version_peer_services l v i w) = net_inv w"
  by (simp_all add: version_peer_services_def)

lemma net_inv_Version:
  assumes "net_inv w" "i < w_next_id w" "Version_RecvHandler l e v i w = Inr (b, w')"
  shows "net_inv w'"
  using assms(3) assms(1,2)
  by (auto simp: Version_RecvHandler_def Let_def not_less split: if_splits
      dest: net_inv_misbehave net_inv_disconnect_false[rotated] net_inv_accept_version[rotated 3])

lemma version_send [simp]:
  "n_version (w_node (send l e m i w) j) = n_version (w_node w j)"
  by (simp add: send_def SendMsg_def Let_def restart_no_sending_def reset_timer_def start_node_timer_def start_timer_def
      split_def split: option.split)

lemma net_inv_Verack:
  assumes "net_inv w" "n_version (w_node w i) \<noteq> 0" "Verack_RecvHandler l e i w = Inr (b, w')"
  shows "net_inv w'"
proof -
  obtain w1 w2 where s: "set_connection_state l e i kEstablished (verack_announce l e i w) = Inr w1"
      "verack_advertise l e i (verack_ping l e i w1) = Inr w2" "w' = verack_relay l e i w2"
    using assms(3) by (auto simp: Verack_RecvHandler_def res_bind_eq_Inr)
  have "net_inv (verack_announce l e i w)" "n_version (w_node (verack_announce l e i w) i) \<noteq> 0"
    using assms by (simp_all add: verack_announce_def Let_def net_inv_send)
  then have "net_inv w1" using s(1) by (rule net_inv_establish)
  then have "net_inv (verack_ping l e i w1)" by (simp add: verack_ping_def net_inv_start_timer net_inv_send)
  then have "net_inv w2" using s(2)
    by (auto simp: verack_advertise_def res_bind_eq_Inr net_inv_start_timer split: if_splits dest: net_inv_Advertise)
  then show ?thesis using s(3) by (simp add: verack_relay_def net_inv_start_timer)
qed

lemma net_inv_handler:
  assumes "net_inv w" "i < w_next_id w" "CheckMisbehaving (msg_command m) (w_node w i)" "RecvHandler l e m i w = Inr (b, w')"
  shows "net_inv w'"
proof (cases m)
  case MVerack
  then show ?thesis using assms by (auto simp: CheckMisbehaving_def split: if_splits dest: net_inv_Verack)
next
  case (MPing p)
  then show ?thesis using assms by (auto simp: Ping_RecvHandler_def net_inv_send split: if_splits)
next
  case (MPong n)
  have "n_ping_nonce (w_node w i) = 0" using assms(1) by (simp add: net_inv_def node_ok_def)
  then show ?thesis using MPong assms by (simp add: Pong_RecvHandler_def)
qed (use assms net_inv_Version in auto)

lemma net_inv_ParseMsgData:
  assumes "net_inv w" "i < w_next_id w" "ParseMsgData l e raw i h w = Inr (b, w')"
  shows "net_inv w'"
  using assms(3) assms(1,2)
  by (auto simp: ParseMsgData_def HandleMsgData_def res_bind_eq_Inr split: if_splits option.splits
      dest: net_inv_misbehave net_inv_handler)

subsection \<open>Callbacks and connections keep it\<close>

lemma net_inv_slot_interval: "net_inv w \<Longrightarrow> set_slot_interval i s iv w = Inr w' \<Longrightarrow> net_inv w'"
  by (auto simp: set_slot_interval_def split: option.splits intro!: net_inv_tm tm_inv_upd net_inv_tmD)

lemma net_inv_relay_loop: "net_inv w \<Longrightarrow> relay_loop l e i as batch w = (batch', w') \<Longrightarrow> net_inv w'"
proof (induction l e i as batch w rule: relay_loop.induct)
  case (2 l e i a as batch w)
  have "net_inv (upd_node i (\<lambda>n. snd (AddKnownAddr l a n)) w)"
    using "2.prems"(1) by (rule net_inv_upd) (simp add: AddKnownAddr_def n_core_def)
  then show ?case using 2 by (auto simp: Let_def net_inv_send split: if_splits)
qed simp

lemma net_inv_callback:
  assumes "net_inv w" "run_timer_cb l e cb w = Inr w'"
  shows "net_inv w'"
proof (cases cb)
  case (PingTimeout i magic)
  have "n_ping_nonce (w_node w i) = 0" using assms(1) by (simp add: net_inv_def node_ok_def)
  then show ?thesis using PingTimeout assms by (auto simp: PingTimeoutCb_def net_inv_send split: if_splits)
next
  case (AdvertiseLocal i)
  then show ?thesis using assms
    by (auto simp: AdvertiseLocalTimeoutCb_def res_bind_eq_Inr split: if_splits
        dest: net_inv_slot_interval net_inv_Advertise)
next
  case (RelayFloodingAddrs i magic)
  obtain batch w1 where r: "relay_loop (l\<lparr>e_magic := magic\<rparr>) e i (n_to_send (w_node w i)) [] w = (batch, w1)"
    by (metis surj_pair)
  have "net_inv w1" using assms(1) r by (rule net_inv_relay_loop)
  then have "net_inv (upd_node i ClearSentAddr (if batch \<noteq> [] then send (l\<lparr>e_magic := magic\<rparr>) e (MAddr batch) i w1 else w1))"
    by (intro net_inv_upd) (auto simp: net_inv_send ClearSentAddr_def n_core_def)
  then show ?thesis using assms RelayFloodingAddrs r
    by (auto simp: RelayFloodingAddrsTimeoutCb_def Let_def split: if_splits dest: net_inv_slot_interval)
qed (use assms in \<open>auto simp: SocketNoMsgTimeoutCb_def InactivityTimeoutCb_def ShakeHandsTimeoutCb_def split: if_splits
      dest: net_inv_Disconnect\<close>)

lemma net_inv_run_timer:
  assumes "net_inv w" "run_timer l e t w = Inr w'"
  shows "net_inv w'"
proof (cases "tm_cfg (w_tm w) t")
  case None
  then show ?thesis using assms by (simp add: run_timer_def InvokeTimerCb_def)
next
  case (Some c)
  then obtain w1 m where w1: "run_timer_cb l e (tc_cb c) w = Inr w1" "Invoke_after (t_ms e) t (w_tm w1) = Inr m"
      "w' = w1\<lparr>w_tm := m\<rparr>"
    using assms(2) by (auto simp: run_timer_def InvokeTimerCb_def res_bind_eq_Inr)
  have "net_inv w1" using assms(1) w1(1) by (rule net_inv_callback)
  then show ?thesis using w1(2,3) tm_inv_after[OF net_inv_tmD] net_inv_tm by blast
qed

lemma nodes_of_set [simp]: "nodes_of o2 (set_nodes o1 is w) = (if o2 = o1 then is else nodes_of o2 w)"
  by (cases o1; cases o2; simp)

lemma set_nodes_sel [simp]:
  "w_node (set_nodes o1 is w) = w_node w" "w_next_id (set_nodes o1 is w) = w_next_id w"
  "w_singleton (set_nodes o1 is w) = w_singleton w" "w_orphans (set_nodes o1 is w) = w_orphans w"
  "w_tm (set_nodes o1 is w) = w_tm w" "w_preferred (set_nodes o1 is w) = w_preferred w"
  by (cases o1; simp)+

lemma net_inv_Node_new:
  assumes "net_inv w"
  shows "net_inv (snd (Node_new e bev addr inb manual host w))"
proof -
  let ?w = "snd (Node_new e bev addr inb manual host w)" and ?n = "fresh_node e bev addr inb manual host"
  have w: "?w = w\<lparr>w_node := (w_node w)(w_next_id w := ?n), w_next_id := Suc (w_next_id w),
      w_preferred := w_preferred w + int_of_bool (IsPreferedDownload ?n)\<rparr>"
    by (simp add: Node_new_def Let_def)
  have nodes: "nodes_of o1 ?w = nodes_of o1 w" for o1 by (cases o1) (simp_all add: w)
  have small: "j \<in> set (nodes_of o1 w) \<Longrightarrow> j \<noteq> w_next_id w" for j o1
    using assms by (auto simp: net_inv_def list_ok_def)
  have "list_ok o1 ?w" for o1
    unfolding list_ok_def nodes
  proof (intro conjI ballI)
    have old: "list_ok o1 w" using assms by (simp add: net_inv_def)
    then show "distinct (nodes_of o1 w)" by (simp add: list_ok_def)
    fix j assume j: "j \<in> set (nodes_of o1 w)"
    have node: "w_node ?w j = w_node w j" using small[OF j] by (simp add: w)
    show "j < w_next_id ?w" using old j by (simp add: list_ok_def w less_SucI)
    show "n_owner (w_node ?w j) = Some o1" "n_inbound (w_node ?w j) = (o1 = Inbound)"
        "n_state (w_node ?w j) \<noteq> kDisconnected" using old j unfolding node by (simp_all add: list_ok_def)
  qed
  moreover have "preferred_ok ?w" using assms by (simp add: net_inv_def preferred_ok_def w)
  moreover have "one_connection_each ?w"
    using assms small[of _ Outbound] by (simp add: net_inv_def one_connection_each_def w)
  moreover have "node_ok (w_node ?w j)" for j using assms by (simp add: net_inv_def w node_ok_def fresh_node_def)
  ultimately show ?thesis using assms by (simp add: net_inv_def w)
qed

lemma net_inv_enlist:
  assumes inv: "net_inv w" and i: "i < w_next_id w" "\<forall>o1. i \<notin> set (nodes_of o1 w)"
    and n: "n_inbound (w_node w i) = (o1 = Inbound)" "n_state (w_node w i) \<noteq> kDisconnected"
    and room: "o1 = Inbound \<Longrightarrow> length (w_inbounds w) < kMaxInboundConnections"
    and other: "o1 = Outbound \<Longrightarrow> \<forall>j\<in>set (w_outbounds w). \<not> NetAddr_eq (n_addr (w_node w j)) (n_addr (w_node w i))"
  shows "net_inv (register o1 i (AddNode o1 i w))"
proof -
  let ?w = "register o1 i (AddNode o1 i w)"
  have node: "w_node ?w j = (if j = i then (w_node w i)\<lparr>n_owner := Some o1\<rparr> else w_node w j)" for j
    by (simp add: register_def AddNode_def)
  have rest: "w_next_id ?w = w_next_id w" "w_singleton ?w = w_singleton w" "w_orphans ?w = w_orphans w"
      "w_tm ?w = w_tm w" "w_preferred ?w = w_preferred w"
      "nodes_of o2 ?w = (if o2 = o1 then nodes_of o1 w @ [i] else nodes_of o2 w)" for o2
    by (simp_all add: register_def AddNode_def upd_node_def) (cases o2; cases o1; simp)
  have "list_ok o2 ?w" for o2
  proof -
    have "list_ok o2 w" using inv by (simp add: net_inv_def)
    then show ?thesis using i n unfolding list_ok_def rest node by (auto split: if_splits)
  qed
  moreover have "preferred_ok ?w"
    using inv by - (rule preferred_ok_cong[of w]; simp add: net_inv_def rest node)
  moreover have "node_ok (w_node ?w j)" for j using inv by (simp add: net_inv_def node node_ok_def)
  moreover have "length (w_inbounds ?w) \<le> kMaxInboundConnections"
    using rest(6)[of Inbound] inv room by (auto simp: net_inv_def split: if_splits)
  moreover have "one_connection_each ?w"
  proof -
    have sym: "NetAddr_eq a b = NetAddr_eq b a" for a b by (auto simp: NetAddr_eq_def)
    have one: "one_connection_each w" using inv by (simp add: net_inv_def)
    have addr: "n_addr (w_node ?w j) = n_addr (w_node w j)" for j by (simp add: node)
    show ?thesis
    proof (cases "o1 = Outbound")
      case True
      then show ?thesis using one other rest(6)[of Outbound] sym unfolding one_connection_each_def addr by auto
    next
      case False
      then show ?thesis using one rest(6)[of Outbound] unfolding one_connection_each_def addr by auto
    qed
  qed
  ultimately show ?thesis using inv by (simp add: net_inv_def rest)
qed

lemma net_inv_new:
  assumes inv: "net_inv w" and init: "InitializeNode e o1 bev addr (o1 = Inbound) manual w = (r, w')"
    and room: "o1 = Inbound \<Longrightarrow> length (w_inbounds w) < kMaxInboundConnections"
    and other: "o1 = Outbound \<Longrightarrow> GetNode_addr (w_outbounds w) addr w = None"
  shows "r = Some (w_next_id w) \<and> net_inv (register o1 (w_next_id w) w')"
proof -
  let ?i = "w_next_id w" and ?n = "fresh_node e bev addr (o1 = Inbound) manual []"
  define w1 where "w1 = snd (Node_new e bev addr (o1 = Inbound) manual [] w)"
  define w3 where "w3 = start_node_timer e ?i shakehands (of_nat kShakeHandsTimeout * 1000) 0 (ShakeHands ?i)
     (start_node_timer e ?i no_msg (of_nat kNoMsgTimeout * 1000) 0 (SocketNoMsg ?i) w1)"
  have new: "Node_new e bev addr (o1 = Inbound) manual [] w = (?i, w1)" by (simp add: w1_def Node_new_def Let_def)
  have w': "InitializeNode e o1 bev addr (o1 = Inbound) manual w =
      (if GetNode_id (nodes_of o1 (AddNode o1 ?i w3)) ?i = None then (None, AddNode o1 ?i w3) else (Some ?i, AddNode o1 ?i w3))"
    by (simp add: InitializeNode_def new w3_def Let_def)
  have "GetNode_id (nodes_of o1 (AddNode o1 ?i w3)) ?i \<noteq> None"
    by (auto simp: GetNode_id_def AddNode_def find_None_iff)
  then have r: "r = Some ?i" "w' = AddNode o1 ?i w3" using init w' by auto
  have inv3: "net_inv w3" unfolding w3_def w1_def by (intro net_inv_start_timer net_inv_Node_new inv)
  have core: "n_core (w_node w3 j) = n_core (if j = ?i then ?n else w_node w j)" for j
    by (simp add: w3_def w1_def start_node_timer_def start_timer_def split_def Let_def Node_new_def n_core_def)
  note c = n_core_eq[OF core]
  have nodes: "nodes_of o2 w3 = nodes_of o2 w" for o2
    by (cases o2; simp add: w3_def w1_def start_node_timer_def start_timer_def split_def Let_def Node_new_def upd_node_def)
  have nid: "w_next_id w3 = Suc ?i" by (simp add: w3_def w1_def Node_new_def Let_def)
  have small: "?i \<notin> set (nodes_of o2 w)" for o2 using inv by (auto simp: net_inv_def list_ok_def)
  have lists: "w_inbounds w3 = w_inbounds w" "w_outbounds w3 = w_outbounds w"
    using nodes[of Inbound] nodes[of Outbound] by simp_all
  have "net_inv (register o1 ?i (AddNode o1 ?i w3))"
  proof (rule net_inv_enlist[OF inv3])
    assume o: "o1 = Outbound"
    show "\<forall>j\<in>set (w_outbounds w3). \<not> NetAddr_eq (n_addr (w_node w3 j)) (n_addr (w_node w3 ?i))"
      using other[OF o] small[of Outbound] c(5) lists
      by (auto simp: GetNode_addr_def find_None_iff fresh_node_def)
  qed (use small nodes c room lists nid in \<open>simp_all add: fresh_node_def\<close>)
  then show ?thesis using r by simp
qed

lemma net_inv_Accept:
  assumes "net_inv w" "AcceptConnCb l e sa base bev w = Inr w'"
  shows "net_inv w'"
proof -
  obtain ok addr where a: "FromSockAddr sa NetAddr_new = Inr (ok, addr)"
    using assms(2) by (auto simp: AcceptConnCb_def res_bind_eq_Inr)
  consider "w' = w" | b where "length (w_inbounds w) < kMaxInboundConnections" "bev = Some b"
      "(case InitializeNode e Inbound (Some b) addr True False w of
          (None, w1) \<Rightarrow> w1 | (Some i, w1) \<Rightarrow> register Inbound i w1) = w'"
    using assms(2) a by (auto simp: AcceptConnCb_def not_le split: if_splits option.splits prod.splits)
  then show ?thesis
  proof cases
    case 2
    obtain r w1 where i: "InitializeNode e Inbound (Some b) addr (Inbound = Inbound) False w = (r, w1)"
      by (metis surj_pair)
    show ?thesis using net_inv_new[OF assms(1) i 2(1)] 2(3) i by auto
  qed (use assms in simp)
qed

lemma net_inv_Connect:
  assumes "net_inv w" "ConnectNode l e addr base bev connected manual w = (ok, w')"
  shows "net_inv w'"
proof -
  define w1 where "w1 = w\<lparr>w_peers := snd (Attempt (e_sha l) addr (t_now e) (w_peers w))\<rparr>"
  have inv1: "net_inv w1" using assms(1) by (simp add: w1_def)
  consider "w' = w" | "w' = w1" | b where "GetNode_addr (w_outbounds w1) addr w1 = None" "bev = Some b"
      "(case InitializeNode e Outbound (Some b) addr False manual w1 of
          (None, w2) \<Rightarrow> w2 | (Some i, w2) \<Rightarrow> snd (SendVersion l e i (register Outbound i w2))) = w'"
    using assms(2) unfolding ConnectNode_def Let_def w1_def[symmetric]
    by (auto simp: GetNode_addr_def w1_def split: if_splits option.splits prod.splits)
  then show ?thesis
  proof cases
    case 3
    obtain r w2 where i: "InitializeNode e Outbound (Some b) addr (Outbound = Inbound) manual w1 = (r, w2)"
      by (metis surj_pair)
    show ?thesis using net_inv_new[OF inv1 i _ 3(1)] 3(3) i by (auto simp: net_inv_SendVersion)
  qed (use assms inv1 in simp_all)
qed

subsection \<open>Every reachable state has it\<close>

lemma DnsLookup_loop_inv: "net_inv w \<Longrightarrow> DnsLookup_loop l e seeds found w = Inr (r, w') \<Longrightarrow> net_inv w'"
proof (induction seeds arbitrary: found w)
  case (Cons s seeds)
  obtain host stop looked_up ages where s: "s = (host, stop, looked_up, ages)" by (metis surj_pair)
  obtain ok source where src: "SetInternal (e_sha l) (seed_host host) NetAddr_new = (ok, source)" by (metis surj_pair)
  consider "stop" | "\<not> stop" "\<not> ok \<or> looked_up = None" | addrs where "\<not> stop" "ok" "looked_up = Some addrs" by (cases looked_up) auto
  then show ?case
  proof cases
    case 1
    then show ?thesis using Cons.prems s by simp
  next
    case 2
    then show ?thesis using Cons.prems s src Cons.IH by (auto simp: Let_def split: if_splits)
  next
    case 3
    let ?as = "map (\<lambda>k. seed_addr (e_port l) (t_now e) (ages k) (addrs ! k)) [0..<length addrs]"
    obtain p where rest: "DnsLookup_loop l e seeds (found + length addrs) (w\<lparr>w_peers := p\<rparr>) = Inr (r, w')"
      using Cons.prems(2) s src 3 by (auto simp: Let_def res_bind_eq_Inr)
    show ?thesis using Cons.prems(1) by (intro Cons.IH[OF _ rest]) simp
  qed
qed simp

lemma net_inv_step:
  assumes "net_step l w w'" "net_inv w"
  shows "net_inv w'"
  using assms(1)
proof cases
  case (accept bev e sa base)
  then show ?thesis using assms(2) net_inv_Accept by blast
next
  case (connect bev e addr base connected manual ok)
  then show ?thesis using assms(2) net_inv_Connect by blast
next
  case (outbound bev e rnds stops base connected ok)
  then show ?thesis using assms(2) net_inv_Connect
    by (auto simp: OutboundTimeOutCb_def res_bind_eq_Inr split: if_splits option.splits)
next
  case (seeds e ss ok)
  then show ?thesis using assms(2) by (auto simp: DnsLookup_def res_bind_eq_Inr split: option.splits dest: DnsLookup_loop_inv)
next
  case (arrival i bs)
  then show ?thesis using assms(2) by (simp add: net_inv_upd n_core_def)
next
  case (read e o1 b r)
  then show ?thesis using assms(2)
    by (auto simp: ConnReadCb_def Let_def reset_timer_def net_inv_upd n_core_def
        intro!: net_inv_start_timer net_inv_tm tm_inv_upd net_inv_tmD split: option.splits)
next
  case (event e o1 b ev)
  then show ?thesis using assms(2)
    by (auto simp: ConnEventCb_def split: option.splits conn_event.splits if_splits dest: net_inv_Disconnect)
next
  case (message i e raw h ok)
  then show ?thesis using assms(2) net_inv_ParseMsgData by blast
next
  case (drained i n)
  then show ?thesis using assms(2) by (simp add: drain_def net_inv_upd n_core_def)
next
  case (dropped i e)
  then show ?thesis using assms(2) net_inv_Disconnect by blast
next
  case (check now)
  then show ?thesis using assms(2) net_inv_tm tm_inv_check net_inv_tmD by blast
next
  case (timer t e)
  have "net_inv (w\<lparr>w_tm := (w_tm w)\<lparr>tm_tasks := remove1 t (tm_tasks (w_tm w))\<rparr>\<rparr>)"
    using assms(2) net_inv_tmD[OF assms(2)] by (intro net_inv_tm) simp_all
  then show ?thesis using timer(2) by (rule net_inv_run_timer)
qed

lemma net_inv_init: "net_inv ((world_init key)\<lparr>w_local_addrs := locals\<rparr>)"
proof -
  have n: "nodes_of o1 (world_init key) = []" for o1 by (cases o1) (simp_all add: world_init_def)
  have "list_ok o1 (world_init key)" for o1 by (simp add: list_ok_def n)
  moreover have "node_ok (w_node (world_init key) j)" for j by (simp add: node_ok_def world_init_def fresh_node_def)
  moreover have "w_singleton (world_init key) = []" "w_orphans (world_init key) = Orphans_new" "w_tm (world_init key) = tm_init"
      "w_preferred (world_init key) = 0" "w_next_id (world_init key) = 0" "w_inbounds (world_init key) = []"
      "w_outbounds (world_init key) = []" by (simp_all add: world_init_def)
  ultimately have "net_inv (world_init key)"
    by (simp add: net_inv_def one_connection_each_def preferred_ok_def tm_inv_init)
  then show ?thesis by simp
qed

theorem reachable_net_inv: "reachable l w \<Longrightarrow> net_inv w"
  by (induction rule: reachable.induct) (blast intro: net_inv_init net_inv_step)+

end
