(* ===== verification/Net_Safety.thy ===== *)
theory Net_Safety
  imports Net_Events
begin

text \<open>
  What holds of every state the peer-to-peer layer reaches: the lists of connections, the order of the
  handshake, pings, and what becomes of a peer that misbehaves.  A call of \<^verbatim>\<open>ParseMsg\<close> is a sequence of
  the steps of \<open>Net_Events\<close>.
\<close>

subsection \<open>ParseMsg is a sequence of steps\<close>

lemma ParseMsgData_keeps:
  assumes "ParseMsgData l e raw i h w = Inr (b, w')"
  shows "w_next_id w' = w_next_id w" "n_input (w_node w' j) = n_input (w_node w j)"
  using input.keeps_ParseMsgData[OF input.keeps_refl assms] by (simp_all add: input.keeps_def w_fixed_def)

lemma drain_next_id [simp]: "w_next_id (drain l i n w) = w_next_id w"
  by (simp add: drain_def)

lemma step_trans: "net_step l w w1 \<Longrightarrow> (net_step l)\<^sup>*\<^sup>* w1 w2 \<Longrightarrow> (net_step l)\<^sup>*\<^sup>* w w2"
  by (rule converse_rtranclp_into_rtranclp)

lemmas parse_loop_induct = parse_loop.raw_induct[rotated, consumes 1, case_names round]

lemma parse_loop_steps:
  assumes "parse_loop l e i raw ret w = Some r" "r = Inr (b, w')" "i < w_next_id w"
  shows "(net_step l)\<^sup>*\<^sup>* w w'"
  using assms
proof (induction rule: parse_loop_induct)
  case (round loop l e i raw ret w r)
  obtain h where h: "MsgHeader_of_raw raw = Inr h"
    using round(2,3) by (auto split: sum.splits)
  define w1 where "w1 = drain l i kHeaderSize w"
  define len where "len = unat (h_payload_length h)"
  have d1: "net_step l w w1" using round(4) unfolding w1_def by (rule drained)
  have i1: "i < w_next_id w1" using round(4) by (simp add: w1_def)
  note body = round(2)[unfolded h sum.case Let_def w1_def[symmetric] len_def[symmetric]]
  show ?case
  proof (cases "kMaxMessageSize < len \<or> h_magic h \<noteq> e_magic l")
    case True
    then have "disconnect_false l e i False w1 = Inr (b, w')" using body round(3) by (auto split: if_splits)
    then have "net_step l w1 w'" using i1 by (auto simp: disconnect_false_def res_bind_eq_Inr intro: dropped)
    then show ?thesis using d1 by (blast intro: step_trans)
  next
    case False
    show ?thesis
    proof (cases "if 0 < len then pullup l i len w1 else Some raw")
      case None
      then have "w' = w1" using False body round(3) by simp
      then show ?thesis using d1 by blast
    next
      case (Some raw1)
      obtain ok w2 where p: "ParseMsgData l e raw1 i h w1 = Inr (ok, w2)"
        using False body round(3) Some by (auto split: sum.splits)
      let ?w3 = "drain l i len w2"
      have s2: "net_step l w1 w2" using i1 p by (rule message)
      have i2: "i < w_next_id w2" using i1 ParseMsgData_keeps(1)[OF p] by simp
      have s3: "net_step l w2 ?w3" using i2 by (rule drained)
      have "(net_step l)\<^sup>*\<^sup>* ?w3 w'"
      proof (cases "pullup l i kHeaderSize ?w3")
        case None
        then show ?thesis using False body round(3) Some p by simp
      next
        case (Some raw2)
        then have "loop l e i raw2 (ret \<and> ok) ?w3 = Some r"
          using False body \<open>(if 0 < len then pullup l i len w1 else Some raw) = Some raw1\<close> p by simp
        then show ?thesis using round(1) round(3) i2 by simp
      qed
      then show ?thesis using d1 s2 s3 by (blast intro: step_trans)
    qed
  qed
qed

lemma parse_loop_returns:
  assumes "libevent_ok l"
  shows "kHeaderSize \<le> length (n_input (w_node w i)) \<Longrightarrow> \<exists>r. parse_loop l e i raw ret w = Some r"
proof (induction "length (n_input (w_node w i))" arbitrary: raw ret w rule: less_induct)
  case less
  define w1 where "w1 = drain l i kHeaderSize w"
  have step: "\<exists>r. parse_loop l e i raw2 ret2 (drain l i n w2) = Some r"
    if "ParseMsgData l e raw1 i h w1 = Inr (ok, w2)" "pullup l i kHeaderSize (drain l i n w2) = Some raw2" for raw1 h ok w2 n raw2 ret2
  proof -
    let ?w3 = "drain l i n w2"
    have len: "kHeaderSize \<le> length (n_input (w_node ?w3 i))"
      using that(2) assms by (simp add: pullup_eq split: if_splits)
    have "length (n_input (w_node ?w3 i)) \<le> length (n_input (w_node w i)) - kHeaderSize"
      using ParseMsgData_keeps(2)[OF that(1), of i] assms by (simp add: w1_def)
    then have "length (n_input (w_node ?w3 i)) < length (n_input (w_node w i))"
      using len by (simp add: kHeaderSize_def)
    then show ?thesis using less.hyps len by blast
  qed
  show ?case
    by (subst parse_loop.simps, cases "MsgHeader_of_raw raw")
      (auto simp: Let_def w1_def[symmetric] step split: option.split sum.split prod.split)
qed

text \<open>C10: Every call of \<^verbatim>\<open>ParseMsg\<close> returns, whatever the peer has sent, and its effect on the state is a
  sequence of elementary steps: a header or a payload leaves the buffer, one message is handled, or
  the node is disconnected.\<close>
theorem ParseMsg_runs:
  assumes "libevent_ok l" "i < w_next_id w"
  shows "\<exists>r. ParseMsg l e i w = Some r \<and> (\<forall>b w'. r = Inr (b, w') \<longrightarrow> (net_step l)\<^sup>*\<^sup>* w w')"
proof (cases "n_bev (w_node w i) = None \<or> IsDisconnected (w_node w i) \<or> pullup l i kHeaderSize w = None")
  case True
  then show ?thesis by (auto simp: ParseMsg_def)
next
  case False
  then obtain raw where raw: "pullup l i kHeaderSize w = Some raw" by auto
  then have "kHeaderSize \<le> length (n_input (w_node w i))" using assms(1) by (simp add: pullup_eq split: if_splits)
  then obtain r where "parse_loop l e i raw True w = Some r" using parse_loop_returns[OF assms(1)] by blast
  moreover from this have "\<forall>b w'. r = Inr (b, w') \<longrightarrow> (net_step l)\<^sup>*\<^sup>* w w'"
    using parse_loop_steps assms(2) by blast
  ultimately show ?thesis using False raw by (auto simp: ParseMsg_def)
qed

subsection \<open>A reachable state\<close>

definition addr0 :: net_addr where
  "addr0 = NetAddr_make 0 0 (kPchIpv4 @ [8, 8, 1, 1]) 8333"

lemma addr0_of_sockaddr: "FromSockAddr (SockIn 0x01010808 0x8d20) NetAddr_new = Inr (True, addr0)"
  by code_simp

definition accepted :: world where
  "accepted = register Inbound 0 (snd (InitializeNode tick0 Inbound (Some 3) addr0 True False (world_init [])))"

lemma initialized: "fst (InitializeNode tick0 Inbound (Some 3) addr0 True False (world_init [])) = Some 0"
  by (simp add: InitializeNode_def Node_new_def GetNode_id_def AddNode_def start_node_timer_def start_timer_def StartTimer_def
      world_init_def tm_init_def upd_node_def const_defs Let_def)

lemma accepted_eq: "AcceptConnCb lib0 tick0 (SockIn 0x01010808 0x8d20) True (Some 3) (world_init []) = Inr accepted"
proof -
  obtain w where w: "InitializeNode tick0 Inbound (Some 3) addr0 True False (world_init []) = (Some 0, w)"
    using initialized by (metis prod.collapse)
  then show ?thesis
    by (simp add: AcceptConnCb_def addr0_of_sockaddr IsBanned_def world_init_def[of "[]", symmetric] accepted_def)
      (simp add: world_init_def kMaxInboundConnections_def kMaxPeerConnections_def kMaxOutboundConnections_def)
qed

lemmas accepted_defs = accepted_def register_def InitializeNode_def Node_new_def start_node_timer_def start_timer_def
  StartTimer_def world_init_def tick0_def tm_init_def AddNode_def GetNode_id_def upd_node_def fresh_node_def
  IsPreferedDownload_def int_of_bool_def const_defs Let_def

lemma accepted_sel:
  "w_next_id accepted = 1" "w_inbounds accepted = [0]" "n_inbound (w_node accepted 0)" "n_version (w_node accepted 0) = 0"
  "n_state (w_node accepted 0) = kInitialState" "n_owner (w_node accepted 0) = Some Inbound" "n_score (w_node accepted 0) = 0"
  "\<not> n_should_ban (w_node accepted 0)" "\<not> n_manual (w_node accepted 0)" "n_addr (w_node accepted 0) = addr0"
  "n_timers (w_node accepted 0) = (\<lambda>_. None)(no_msg := Some 0, shakehands := Some 1)" "tm_timers (w_tm accepted) = [0, 1]"
  by (simp_all add: accepted_defs)

lemma accepted_reachable: "reachable lib0 accepted"
proof -
  have "fresh_bev (Some 3) (world_init [])" by (simp add: fresh_bev_def world_init_def fresh_node_def)
  then have "net_step lib0 (world_init []) accepted" using accepted_eq by (rule accept)
  moreover have "reachable lib0 (world_init [])" using init[of lib0 "[]" "[]"] by (simp add: world_init_def)
  ultimately show ?thesis by blast
qed

lemma ParseMsg_runs_witness: "\<exists>r. ParseMsg lib0 tick0 0 accepted = Some r"
  using ParseMsg_runs[of lib0 0 accepted tick0] by (auto simp: lib0_ok accepted_sel)

subsection \<open>Connections\<close>

text \<open>C2: In every state the program reaches: at most 117 inbound connections; no connection is in a list twice
  or in both; the listed ones are alive and on the right side; there is one outbound connection per
  address; and the counter of peers to download from counts the nodes made so far that are outbound
  and serve the chain -- also those that have been disconnected since, which it never leaves out.\<close>
theorem connections_consistent:
  assumes "reachable l w"
  shows "length (w_inbounds w) \<le> 117 \<and> distinct (w_inbounds w @ w_outbounds w) \<and>
    (\<forall>i\<in>set (w_inbounds w). n_inbound (w_node w i) \<and> \<not> IsDisconnected (w_node w i)) \<and>
    (\<forall>i\<in>set (w_outbounds w). \<not> n_inbound (w_node w i) \<and> \<not> IsDisconnected (w_node w i)) \<and>
    (\<forall>i\<in>set (w_outbounds w). \<forall>j\<in>set (w_outbounds w). NetAddr_eq (n_addr (w_node w i)) (n_addr (w_node w j)) \<longrightarrow> i = j) \<and>
    w_preferred w = int (card {i. i < w_next_id w \<and> IsPreferedDownload (w_node w i)})"
proof -
  have inv: "net_inv w" using assms by (rule reachable_net_inv)
  have ok: "list_ok Inbound w" "list_ok Outbound w" using inv by (simp_all add: net_inv_def)
  have "(\<Sum>i<w_next_id w. int_of_bool (IsPreferedDownload (w_node w i))) =
      int (card {i. i < w_next_id w \<and> IsPreferedDownload (w_node w i)})"
    by (simp add: int_of_bool_def sum.If_cases Int_def)
  moreover have "set (w_inbounds w) \<inter> set (w_outbounds w) = {}" using ok by (fastforce simp: list_ok_def)
  ultimately show ?thesis using inv ok
    by (auto simp: net_inv_def list_ok_def one_connection_each_def preferred_ok_def IsDisconnected_def const_defs)
qed

lemma connections_consistent_witness:
  "w_inbounds accepted = [0] \<and> distinct (w_inbounds accepted @ w_outbounds accepted) \<and> \<not> IsDisconnected (w_node accepted 0)"
  using connections_consistent[OF accepted_reachable] by (simp add: accepted_sel)

subsection \<open>Handshake\<close>

lemma misbehave_exact:
  "misbehave i w =
     (let s = n_score (w_node w i) + 1 in
      if - (2 ^ 31) \<le> s \<and> s < 2 ^ 31
      then Inr (False, upd_node i (\<lambda>n. n\<lparr>n_score := s, n_should_ban := (n_should_ban n \<or> s = 100)\<rparr>) w)
      else Inl Undefined)"
proof -
  define s where "s = n_score (w_node w i)"
  have "(kDefaultBanscoreThreshold \<le> (of_int (s + 1) :: u32) \<and> (of_int s :: u32) < kDefaultBanscoreThreshold) = (s + 1 = 100)"
    if s: "- (2 ^ 31) \<le> s + 1" "s + 1 < 2 ^ 31"
  proof -
    have u: "uint (of_int x :: u32) = (if 0 \<le> x then x else x + 2 ^ 32)" if "- (2 ^ 31) - 1 \<le> x" "x < 2 ^ 31" for x
      using that mod_pos_pos_trivial[of "x + 2 ^ 32" "2 ^ 32"] by (simp add: uint_word_of_int)
    show ?thesis using s u[of s] u[of "s + 1"]
      by (simp add: word_le_def word_less_def kDefaultBanscoreThreshold_def del: of_int_add) linarith
  qed
  then show ?thesis
    by (auto simp: misbehave_def Misbehaving_def Let_def s_def[symmetric] upd_node_def)
qed

text \<open>C3: No message is acted on before the handshake.  In every reachable state an established node has sent an
  acceptable version; and a message that comes before the version, or that is neither version nor
  verack and comes before the verack, is dropped if its checksum or content is bad, and otherwise
  adds one to the score of its sender, who is marked for a ban when that makes a hundred; nothing else
  changes.  The addition is undefined for a peer that has reached the largest \<^verbatim>\<open>int\<close>.\<close>
theorem handshake_gate:
  assumes "reachable l w"
  shows "(n_state (w_node w i) = kEstablished \<longrightarrow> 31800 \<le> n_version (w_node w i)) \<and>
    (msg_command m \<noteq> kMsgVersion \<and> n_version (w_node w i) = 0 \<or>
     msg_command m \<notin> {kMsgVersion, kMsgVerack} \<and> n_state (w_node w i) \<noteq> kEstablished \<longrightarrow>
     HandleMsgData l' e i h m w =
       (let s = n_score (w_node w i) + 1 in
        if h_checksum h \<noteq> msg_checksum l' m \<or> \<not> msg_valid m then Inr (False, w)
        else if - (2 ^ 31) \<le> s \<and> s < 2 ^ 31
        then Inr (False, upd_node i (\<lambda>n. n\<lparr>n_score := s, n_should_ban := (n_should_ban n \<or> s = 100)\<rparr>) w)
        else Inl Undefined))"
proof -
  have "node_ok (w_node w i)" using reachable_net_inv[OF assms] by (simp add: net_inv_def)
  then have "n_state (w_node w i) = kEstablished \<longrightarrow> 31800 \<le> n_version (w_node w i)"
    by (auto simp: node_ok_def kMinPeerProtoVersion_def kGetheadersVersion_def)
  then show ?thesis by (auto simp: HandleMsgData_def CheckMisbehaving_def IsHandshakeCompleted_def misbehave_exact Let_def)
qed

lemma handshake_gate_witness:
  "HandleMsgData lib0 tick0 0 (msg_head lib0 MGetAddr) MGetAddr accepted =
   Inr (False, upd_node 0 (\<lambda>n. n\<lparr>n_score := 1, n_should_ban := n_should_ban n\<rparr>) accepted)"
  using handshake_gate[OF accepted_reachable, of 0 MGetAddr lib0 tick0 "msg_head lib0 MGetAddr"]
  by (simp add: accepted_sel ascii_def dispatched)

text \<open>A host does not notice that it talks to itself: in every reachable state an inbound node's first
  version message is accepted whatever its nonce, also the nonce this very host sent on an outbound connection.\<close>
theorem self_connection_accepted:
  assumes "reachable l w" "n_inbound (w_node w i)" "n_version (w_node w i) = 0" "31800 \<le> v_version v"
    "v_services v AND 0xa0 = 0"
  shows "Version_RecvHandler l' e v i w = version_accept l' e v i w"
proof -
  have "w_singleton w = []" using reachable_net_inv[OF assms(1)] by (simp add: net_inv_def)
  then show ?thesis using assms(2-5)
    by (auto simp: Version_RecvHandler_def Let_def version_peer_services_def CheckIncomingNonce_def
        kMinPeerProtoVersion_def kGetheadersVersion_def dest: leD)
qed

lemma self_connection_accepted_witness:
  "let v = Version_new\<lparr>v_version := 70015, v_nonce := n_nonce (w_node accepted 0)\<rparr> in
   Version_RecvHandler lib0 tick0 v 0 accepted = version_accept lib0 tick0 v 0 accepted"
  using self_connection_accepted[OF accepted_reachable, of 0] by (simp add: accepted_sel Let_def Version_new_def)

text \<open>C39: Pings measure nothing: in every reachable state a pong is refused whatever it carries, and the ping timer
  never finds a ping unanswered -- it sends the next one, or does nothing on a dead node.\<close>
theorem pongs_never_accepted:
  assumes "reachable l w"
  shows "RecvHandler l' e (MPong n) i w = Inr (False, w) \<and>
    run_timer_cb l' e (PingTimeout i magic) w =
      Inr (if t_stop e \<or> IsDisconnected (w_node w i) then w
           else send (l'\<lparr>e_magic := magic\<rparr>) e (ping_of e (w_node w i)) i w)"
proof -
  have "n_ping_nonce (w_node w i) = 0" using reachable_net_inv[OF assms] by (simp add: net_inv_def node_ok_def)
  then show ?thesis by (simp add: Pong_RecvHandler_def PingTimeoutCb_def)
qed

lemma pongs_never_accepted_witness:
  "RecvHandler lib0 tick0 (MPong 5) 0 accepted = Inr (False, accepted)"
  using pongs_never_accepted[OF accepted_reachable, of lib0 tick0 5 0] by blast

subsection \<open>Misbehaviour\<close>

text \<open>A peer that misbehaves \<open>k\<close> times in a row.\<close>

fun misbehaves :: "nat \<Rightarrow> nat \<Rightarrow> world \<Rightarrow> world res" where
  "misbehaves 0 i w = Inr w"
| "misbehaves (Suc k) i w = res_bind (misbehave i w) (\<lambda>(_, w1). misbehaves k i w1)"

definition scored :: "nat \<Rightarrow> int \<Rightarrow> world \<Rightarrow> world" where
  "scored i s w = upd_node i (\<lambda>n. n\<lparr>n_score := s, n_should_ban := (100 \<le> s)\<rparr>) w"

lemma uint_of_int_small: "0 \<le> x \<Longrightarrow> x < 2 ^ 31 \<Longrightarrow> uint (of_int x :: u32) = x"
  by (simp add: uint_word_of_int)

lemma threshold_iff:
  "0 \<le> x \<Longrightarrow> x < 2 ^ 31 \<Longrightarrow> (kDefaultBanscoreThreshold \<le> (of_int x :: u32)) = (100 \<le> x)"
  using uint_of_int_small[of x] by (simp add: word_le_def kDefaultBanscoreThreshold_def)

lemma same_ban: "n_should_ban n = b \<Longrightarrow> n\<lparr>n_score := s, n_should_ban := b\<rparr> = n\<lparr>n_score := s\<rparr>"
  by (cases n) simp

lemma same_node: "n_score n = s \<Longrightarrow> n_should_ban n = b \<Longrightarrow> n\<lparr>n_score := s, n_should_ban := b\<rparr> = n"
  by (cases n) simp

lemma misbehave_once:
  assumes "n_score (w_node w i) = s" "n_should_ban (w_node w i) = (100 \<le> s)" "0 \<le> s" "s + 1 < 2 ^ 31"
  shows "misbehave i w = Inr (False, scored i (s + 1) w)"
proof -
  have "(kDefaultBanscoreThreshold \<le> (of_int (s + 1) :: u32)) = (100 \<le> s + 1)"
    "(kDefaultBanscoreThreshold \<le> (of_int s :: u32)) = (100 \<le> s)"
    using assms(3,4) by (intro threshold_iff; simp)+
  then show ?thesis using assms
    by (cases "99 \<le> s"; cases "100 \<le> s")
      (simp_all add: misbehave_def Misbehaving_def scored_def upd_node_def Let_def not_le[symmetric] same_ban)
qed

lemma misbehaves_score:
  "n_score (w_node w i) = s \<Longrightarrow> n_should_ban (w_node w i) = (100 \<le> s) \<Longrightarrow> 0 \<le> s \<Longrightarrow> s + int k < 2 ^ 31 \<Longrightarrow>
   misbehaves k i w = Inr (scored i (s + int k) w)"
proof (induction k arbitrary: s w)
  case 0
  then show ?case by (simp add: scored_def upd_node_def same_node)
next
  case (Suc k)
  have "misbehaves k i (scored i (s + 1) w) = Inr (scored i (s + 1 + int k) (scored i (s + 1) w))"
    using Suc.prems by (intro Suc.IH) (simp_all add: scored_def)
  moreover have "scored i (s + 1 + int k) (scored i (s + 1) w) = scored i (s + int (Suc k)) w"
    by (simp add: scored_def upd_node_def ac_simps)
  ultimately show ?case using Suc.prems misbehave_once[of w i s] by simp
qed

text \<open>C18: The hundredth offence is punished, if the peer's timers are all there.  For a registered peer with no
  offence so far, in a state of the invariant, after fewer than a hundred the check does nothing.  From
  the hundredth on, a peer that was connected by hand is let off; for any other one, if all timers the
  node points to are still with the manager, the check disconnects it, takes it out of its list,
  and, unless its address is local, bans the address, IPv4 or IPv6, for a day; but if one of its timers
  has run out before, as those for the first message and the handshake do after a minute, the check is undefined.\<close>
theorem hundredth_offence_bans:
  assumes "net_inv w" "n_owner (w_node w i) = Some o1" "n_score (w_node w i) = 0" "\<not> n_should_ban (w_node w i)" "k < 2 ^ 31"
  shows "\<exists>w1. misbehaves k i w = Inr w1 \<and>
    (k < 100 \<longrightarrow> CheckBanned l e i w1 = Inr (False, w1)) \<and>
    (100 \<le> k \<longrightarrow>
      (if n_manual (w_node w i) then CheckBanned l e i w1 = Inr (True, upd_node i (\<lambda>n. n\<lparr>n_score := int k\<rparr>) w)
       else if \<not> live_on i all_slots w then CheckBanned l e i w1 = Inl Undefined
       else \<exists>w2. CheckBanned l e i w1 = Inr (True, w2) \<and> IsDisconnected (w_node w2 i) \<and> i \<notin> set (nodes_of o1 w2) \<and>
         (if IsLocal (n_addr (w_node w i)) then w_bans w2 = w_bans w
          else addr_wf (n_addr (w_node w i)) \<and> (IsIpv4 (n_addr (w_node w i)) \<or> IsIpv6 (n_addr (w_node w i))) \<longrightarrow>
            (\<forall>now. 0 \<le> now \<and> now < t_now e + 86400 \<longrightarrow> IsBanned (e_b32 l) now (n_addr (w_node w i)) (w_bans w2)))))"
proof -
  let ?w1 = "scored i (int k) w" and ?a = "n_addr (w_node w i)"
  have w1: "misbehaves k i w = Inr ?w1" using misbehaves_score[of w i 0 k] assms(3-5) by simp
  define wb where "wb = upd_node i (\<lambda>n. n\<lparr>n_should_ban := False\<rparr>) ?w1"
  define w3 where "w3 = disconnected i o1 wb"
  have "(w_node w i)\<lparr>n_score := int k, n_should_ban := False\<rparr> = (w_node w i)\<lparr>n_score := int k\<rparr>"
    using assms(4) by (intro same_ban) simp
  then have wb: "wb = upd_node i (\<lambda>n. n\<lparr>n_score := int k\<rparr>) w"
    by (simp add: wb_def scored_def upd_node_def)
  have inv: "net_inv wb" unfolding wb using assms(1) by (rule net_inv_upd) (simp add: n_core_def)
  have ids: "slot_ids ss (w_node wb i) = slot_ids ss (w_node w i)" for ss
    by (induction ss) (simp_all add: wb split: option.split)
  have live: "live_on i all_slots wb = live_on i all_slots w" by (simp add: live_on_def ids) (simp add: wb upd_node_def)
  have own: "n_owner (w_node wb i) = Some o1" "n_addr (w_node wb i) = ?a" "n_manual (w_node wb i) = n_manual (w_node w i)"
      "w_bans wb = w_bans w"
    using assms(2) by (simp_all add: wb upd_node_def)
  have dis: "Disconnect l e i wb = (if live_on i all_slots w then Inr w3 else Inl Undefined)"
    using Disconnect_exact[OF net_inv_idle[OF inv] own(1), of l e] live by (simp add: w3_def)
  have w3: "n_addr (w_node w3 i) = ?a" "IsDisconnected (w_node w3 i)" "w_bans w3 = w_bans w"
    by (simp_all add: w3_def disconnected_def own IsDisconnected_def) (cases o1; simp add: EraseNode_def own)
  have gone: "i \<notin> set (nodes_of o1 w3)" using inv by (simp add: w3_def nodes_of_disconnected net_inv_def list_ok_def)
  define w2 where "w2 = w3\<lparr>w_bans := snd (Ban_Add (e_b32 l) (t_now e, t_now e) ?a kNodeMisbehaving (w_bans w3))\<rparr>"
  have check: "CheckBanned l e i ?w1 = (if n_manual (w_node w i) then Inr (True, wb)
      else if \<not> live_on i all_slots w then Inl Undefined else Inr (True, if IsLocal ?a then w3 else w2))" if "100 \<le> k"
    using that own(3) dis w3(1)
    by (simp add: CheckBanned_def Let_def wb_def[symmetric] w2_def) (simp add: scored_def)
  have w2: "IsDisconnected (w_node w2 i)" "i \<notin> set (nodes_of o1 w2)" using w3(2) gone by (cases o1; simp add: w2_def)+
  have ban: "IsBanned (e_b32 l) now ?a (w_bans w2)"
    if "addr_wf ?a" "IsIpv4 ?a \<or> IsIpv6 ?a" "0 \<le> now" "now < t_now e + 86400" for now
    using that ban_Add_until[OF that(1,2) that(1,2), of "e_b32 l" "(t_now e, t_now e)" kNodeMisbehaving "w_bans w3"]
    by (simp add: IsBanned_until w2_def)
  have "CheckBanned l e i ?w1 = Inr (False, ?w1)" if "k < 100" using that by (simp add: CheckBanned_def scored_def)
  then show ?thesis using w1 check w2 w3 gone ban by (intro exI[of _ ?w1]) (simp add: wb)
qed

lemma accepted_live: "live_on 0 all_slots accepted"
  by (simp add: live_on_def accepted_sel all_slots_def)

lemma hundredth_offence_bans_witness:
  "\<exists>w1 w2. misbehaves 100 0 accepted = Inr w1 \<and> CheckBanned lib0 tick0 0 w1 = Inr (True, w2) \<and>
     IsBanned (\<lambda>_. ''x'') 1600000001 addr0 (w_bans w2)"
proof -
  have "addr_wf addr0" "IsIpv4 addr0" "\<not> IsLocal addr0" by code_simp+
  then show ?thesis
    using hundredth_offence_bans[of accepted 0 Inbound 100 lib0 tick0] reachable_net_inv[OF accepted_reachable] accepted_live
    by (auto simp: accepted_sel lib0_def tick0_def dest!: spec[of _ 1600000001])
qed

subsection \<open>Verack twice\<close>

lemma slot_ids_iff: "t \<in> set (slot_ids ss n) \<longleftrightarrow> (\<exists>s\<in>set ss. n_timers n s = Some t)"
  by (induction ss) (auto split: option.split)

lemma distinct_slot_ids:
  "distinct ss \<Longrightarrow> distinct (slot_ids ss n) =
    (\<forall>s\<in>set ss. \<forall>s'\<in>set ss. \<forall>t. n_timers n s = Some t \<and> n_timers n s' = Some t \<longrightarrow> s = s')"
  by (induction ss) (auto simp: slot_ids_iff split: option.split)

lemma live_on_iff:
  "live_on i all_slots w =
    (\<forall>s t. n_timers (w_node w i) s = Some t \<longrightarrow>
       t \<in> set (tm_timers (w_tm w)) \<and> (\<forall>s'. n_timers (w_node w i) s' = Some t \<longrightarrow> s = s'))"
  unfolding live_on_def distinct_slot_ids[OF all_slots_distinct] subset_iff slot_ids_iff all_slots_UNIV by blast

text \<open>What starting timers does to a node: the manager keeps what it had, a slot changes to a new timer only,
  and pointers to live timers stay so.\<close>

definition tm_bounded :: "world \<Rightarrow> bool" where
  "tm_bounded w = (\<forall>t\<in>set (tm_timers (w_tm w)). t < tm_next (w_tm w))"

definition timers_grow :: "nat \<Rightarrow> world \<Rightarrow> world \<Rightarrow> bool" where
  "timers_grow i w w' =
     (tm_next (w_tm w) \<le> tm_next (w_tm w') \<and> set (tm_timers (w_tm w)) \<subseteq> set (tm_timers (w_tm w')) \<and>
      (\<forall>s t. n_timers (w_node w' i) s = Some t \<longrightarrow> n_timers (w_node w i) s = Some t \<or> tm_next (w_tm w) \<le> t) \<and>
      (tm_bounded w \<and> live_on i all_slots w \<longrightarrow> tm_bounded w' \<and> live_on i all_slots w'))"

lemma grow_refl [simp]: "timers_grow i w w"
  by (simp add: timers_grow_def)

lemma grow_trans: "timers_grow i w w1 \<Longrightarrow> timers_grow i w1 w2 \<Longrightarrow> timers_grow i w w2"
  unfolding timers_grow_def by (meson order_trans subset_trans)

lemma grow_same:
  assumes "timers_grow i w w1" "n_timers (w_node w2 i) = n_timers (w_node w1 i)" "tm_next (w_tm w2) = tm_next (w_tm w1)"
    "tm_timers (w_tm w2) = tm_timers (w_tm w1)"
  shows "timers_grow i w w2"
  using assms by (simp add: timers_grow_def live_on_iff tm_bounded_def)

lemma grow_start:
  assumes "timers_grow i w w1"
  shows "timers_grow i w (start_node_timer e i s d iv cb w1)"
  by (rule grow_trans[OF assms])
    (fastforce simp: timers_grow_def live_on_iff tm_bounded_def less_Suc_eq start_node_timer_def start_timer_def StartTimer_def upd_node_def Let_def split: if_splits)

lemma grow_send: "timers_grow i w w1 \<Longrightarrow> timers_grow i w (send l e m i w1)"
  by (auto simp: send_def SendMsg_def Let_def restart_no_sending_def reset_timer_def upd_node_def
      intro!: grow_start elim!: grow_same split: option.split)

lemma grow_Advertise: "timers_grow i w w1 \<Longrightarrow> AdvertiseLocalAddr l e i b w1 = Inr w2 \<Longrightarrow> timers_grow i w w2"
  by (auto simp: AdvertiseLocalAddr_def Let_def push_addr_def PushAddrToSend_def res_bind_eq_Inr upd_node_def
      elim!: grow_same split: if_splits)

lemma grow_Verack:
  assumes "Verack_RecvHandler l e i w = Inr (b, w')"
  shows "timers_grow i w w'" "n_timers (w_node w' i) ping = Some t \<Longrightarrow> tm_next (w_tm w) \<le> t"
proof -
  obtain w1 w2 where s: "set_connection_state l e i kEstablished (verack_announce l e i w) = Inr w1"
      "verack_advertise l e i (verack_ping l e i w1) = Inr w2" "w' = verack_relay l e i w2"
    using assms by (auto simp: Verack_RecvHandler_def res_bind_eq_Inr)
  define ws where "ws = send l e (ping_of e (w_node w1 i)) i w1"
  have "timers_grow i w (verack_announce l e i w)" by (simp add: verack_announce_def Let_def grow_send)
  then have "timers_grow i w w1" using s(1) by (auto simp: set_connection_state_def upd_node_def elim!: grow_same)
  then have ws: "timers_grow i w ws" unfolding ws_def by (rule grow_send)
  have wp: "verack_ping l e i w1 = start_node_timer e i ping (of_nat kPingInterval * 1000) (of_nat kPingInterval * 1000)
      (PingTimeout i (e_magic l)) ws" by (simp add: verack_ping_def ws_def)
  have gp: "timers_grow i w (verack_ping l e i w1)" unfolding wp using ws by (rule grow_start)
  have g2: "timers_grow i (verack_ping l e i w1) w2"
    using s(2) by (auto simp: verack_advertise_def res_bind_eq_Inr split: if_splits intro!: grow_start dest: grow_Advertise[OF grow_refl])
  have g': "timers_grow i (verack_ping l e i w1) w'" unfolding s(3) verack_relay_def using g2 by (rule grow_start)
  show "timers_grow i w w'" using gp g' by (rule grow_trans)
  have "n_timers (w_node (verack_ping l e i w1) i) ping = Some (tm_next (w_tm ws))"
    by (simp add: wp start_node_timer_def start_timer_def StartTimer_def kPingInterval_def Let_def)
  then show "tm_next (w_tm w) \<le> t" if "n_timers (w_node w' i) ping = Some t"
    using that ws gp g' unfolding timers_grow_def by (metis option.inject order_trans)
qed

text \<open>C35: A peer that sends verack twice leaves a timer behind: the second verack starts a new ping timer over the
  old one, so that disconnecting the node stops only the new one; the old one, which repeats, stays
  with the manager for good, though no node points to it.\<close>
theorem second_verack_leaks_timer:
  assumes "net_inv w" "n_version (w_node w i) \<noteq> 0" "n_owner (w_node w i) = Some o1" "live_on i all_slots w"
    "n_timers (w_node w i) ping = Some t" "Verack_RecvHandler l e i w = Inr (b, w1)"
  shows "\<exists>w2. Disconnect l' e' i w1 = Inr w2 \<and> t \<in> set (tm_timers (w_tm w2)) \<and> n_timers (w_node w2 i) = (\<lambda>_. None)"
proof -
  note grow = grow_Verack[OF assms(6)]
  have inv1: "net_inv w1" using net_inv_Verack[OF assms(1,2,6)] .
  have own: "n_owner (w_node w1 i) = Some o1"
    using identity.keeps_Verack[OF identity.keeps_refl assms(6)] assms(3) by (simp add: identity.keeps_def n_identity_def)
  have bound: "tm_bounded w" using net_inv_tmD[OF assms(1)] by (auto simp: tm_inv_def tm_bounded_def)
  have live: "live_on i all_slots w1" using grow(1) bound assms(4) by (simp add: timers_grow_def)
  have t: "t \<in> set (tm_timers (w_tm w))" "\<forall>s. n_timers (w_node w i) s = Some t \<longrightarrow> s = ping"
    using assms(4,5) by (auto simp: live_on_iff)
  have less: "t < tm_next (w_tm w)" using bound t(1) by (simp add: tm_bounded_def)
  have "n_timers (w_node w1 i) s \<noteq> Some t" for s
  proof (cases "s = ping")
    case True
    then show ?thesis using grow(2)[of t] less by auto
  next
    case False
    then show ?thesis using grow(1) t(2) less unfolding timers_grow_def by (meson not_le)
  qed
  then have "t \<notin> set (slot_ids all_slots (w_node w1 i))" by (simp add: slot_ids_iff)
  moreover have "t \<in> set (tm_timers (w_tm w1))" using grow(1) t(1) by (auto simp: timers_grow_def)
  moreover have "w_tm (disconnected i o1 w1) =
      (w_tm w1)\<lparr>tm_timers := filter (\<lambda>t. t \<notin> set (slot_ids all_slots (w_node w1 i))) (tm_timers (w_tm w1))\<rparr>"
    by (cases o1) (simp_all add: disconnected_def EraseNode_def)
  ultimately show ?thesis
    using Disconnect_exact[OF net_inv_idle[OF inv1] own, of l' e'] live by (simp add: disconnected_def)
qed

text \<open>A node that has sent its version, and once verack.\<close>

definition versioned :: world where
  "versioned = upd_node 0 (\<lambda>n. n\<lparr>n_start_height := 0, n_relay_txes := True, n_version := 70015\<rparr>) accepted"

definition quiet :: lib where "quiet = lib0\<lparr>e_advertise := False\<rparr>"

lemma quiet_Verack: "\<exists>w'. Verack_RecvHandler quiet e i w = Inr (True, w')"
  by (simp add: Verack_RecvHandler_def set_connection_state_def verack_advertise_def quiet_def)

lemma versioned_inv: "net_inv versioned" "n_version (w_node versioned 0) = 70015"
  using net_inv_version[OF reachable_net_inv[OF accepted_reachable], of "Version_new\<lparr>v_version := 70015, v_height := 0, v_relay := True\<rparr>" 0]
  by (simp_all add: versioned_def kMinPeerProtoVersion_def kGetheadersVersion_def)

definition pinged :: world where
  "pinged = start_node_timer tick0 0 ping 120000 120000 (PingTimeout 0 kMainnetMagic) versioned"

lemma pinged_facts:
  "net_inv pinged" "n_version (w_node pinged 0) = 70015" "n_owner (w_node pinged 0) = Some Inbound"
  "n_timers (w_node pinged 0) ping = Some 2" "live_on 0 all_slots pinged"
proof -
  have next2: "tm_next (w_tm accepted) = 2" by (simp add: accepted_defs)
  have w: "w_tm versioned = w_tm accepted" "n_timers (w_node versioned 0) = n_timers (w_node accepted 0)"
    "n_owner (w_node versioned 0) = Some Inbound" by (simp_all add: versioned_def accepted_sel) (simp add: upd_node_def)
  show "net_inv pinged" using versioned_inv(1) by (simp add: pinged_def net_inv_start_timer)
  have p: "w_tm pinged = snd (StartTimer (t_ms tick0) 120000 120000 (PingTimeout 0 kMainnetMagic) (w_tm accepted))"
      "w_node pinged 0 = (w_node versioned 0)\<lparr>n_timers := (n_timers (w_node accepted 0))(ping := Some 2)\<rparr>"
    by (simp_all add: pinged_def start_node_timer_def start_timer_def StartTimer_def w next2 upd_node_def)
  show "n_version (w_node pinged 0) = 70015" "n_owner (w_node pinged 0) = Some Inbound" "n_timers (w_node pinged 0) ping = Some 2"
    using versioned_inv(2) w(3) by (simp_all add: p)
  show "live_on 0 all_slots pinged"
    by (auto simp: live_on_iff p StartTimer_def Let_def accepted_sel next2 split: if_splits)
qed

lemma second_verack_leaks_timer_witness:
  "\<exists>w1 w2. Verack_RecvHandler quiet tick0 0 pinged = Inr (True, w1) \<and> Disconnect quiet tick0 0 w1 = Inr w2 \<and>
     2 \<in> set (tm_timers (w_tm w2))"
proof -
  obtain w1 where w1: "Verack_RecvHandler quiet tick0 0 pinged = Inr (True, w1)" using quiet_Verack by blast
  then show ?thesis
    using second_verack_leaks_timer[of pinged 0 Inbound 2 quiet tick0 True w1 quiet tick0] pinged_facts by auto
qed

end
