(* ===== verification/Fast_Random.thy ===== *)
theory Fast_Random
  imports Endian
begin

text \<open>
  \<^verbatim>\<open>FastRandomContext\<close> of \<^verbatim>\<open>src/utility/include/random.h\<close> and \<^verbatim>\<open>src/utility/src/random.cpp\<close>: random numbers of
  any width from a byte generator, through a buffer of 64 bytes and one of 64 bits.  The generator of
  Botan is a parameter with a state \<open>'r\<close>: \<open>g_random\<close> draws bytes, \<open>g_entropy\<close> mixes in a seed, \<open>g_seed\<close> is
  the seed the operating system gives.  A shift by a negative amount or by 64 and more is undefined.
\<close>

record 'r generator =
  g_random :: "nat \<Rightarrow> 'r \<Rightarrow> bytes \<times> 'r"
  g_entropy :: "bytes \<Rightarrow> 'r \<Rightarrow> 'r"
  g_seed :: bytes

record 'r fast_random =
  fr_rng :: 'r
  requires_seed :: bool
  bytebuf :: bytes
  bytebuf_size :: nat
  bitbuf :: u64
  bitbuf_size :: nat

text \<open>The two constructors; \<open>mem\<close> and \<open>junk\<close> are what the buffers hold, which are not initialised, and \<open>unset\<close> is the
  memory of the local \<^verbatim>\<open>seed\<close>, which is not either: a deterministic generator is as deterministic as that.\<close>

definition FastRandom_seeded :: "(bytes \<Rightarrow> 'r) \<Rightarrow> bytes \<Rightarrow> bytes \<Rightarrow> u64 \<Rightarrow> 'r fast_random" where
  "FastRandom_seeded new_rng seed mem junk =
     \<lparr>fr_rng = new_rng seed, requires_seed = False, bytebuf = mem, bytebuf_size = 0, bitbuf = junk, bitbuf_size = 0\<rparr>"

definition FastRandom_new :: "'r generator \<Rightarrow> 'r \<Rightarrow> bool \<Rightarrow> bytes \<Rightarrow> bytes \<Rightarrow> u64 \<Rightarrow> 'r fast_random" where
  "FastRandom_new g r deterministic unset mem junk =
     (let c = \<lparr>fr_rng = r, requires_seed = (\<not> deterministic), bytebuf = mem, bytebuf_size = 0, bitbuf = junk, bitbuf_size = 0\<rparr> in
      if \<not> deterministic then c else c\<lparr>fr_rng := g_entropy g unset r\<rparr>)"

definition RandomSeed :: "'r generator \<Rightarrow> 'r fast_random \<Rightarrow> 'r fast_random" where
  "RandomSeed g c = c\<lparr>fr_rng := g_entropy g (g_seed g) (fr_rng c), requires_seed := False\<rparr>"

definition FillByteBuffer :: "'r generator \<Rightarrow> 'r fast_random \<Rightarrow> 'r fast_random" where
  "FillByteBuffer g c =
     (let c1 = (if requires_seed c then RandomSeed g c else c);
          (b, r) = g_random g 64 (fr_rng c1) in
      c1\<lparr>fr_rng := r, bytebuf := b, bytebuf_size := 64\<rparr>)"

definition Rand64 :: "'r generator \<Rightarrow> 'r fast_random \<Rightarrow> u64 \<times> 'r fast_random" where
  "Rand64 g c =
     (let c1 = (if bytebuf_size c < 8 then FillByteBuffer g c else c) in
      (from_little_endian (take 8 (drop (64 - bytebuf_size c1) (bytebuf c1))),
       c1\<lparr>bytebuf_size := bytebuf_size c1 - 8\<rparr>))"

definition Rand256 :: "'r generator \<Rightarrow> 'r fast_random \<Rightarrow> bytes \<times> 'r fast_random" where
  "Rand256 g c =
     (let c1 = (if bytebuf_size c < 32 then FillByteBuffer g c else c) in
      (take 32 (drop (64 - bytebuf_size c1) (bytebuf c1)), c1\<lparr>bytebuf_size := bytebuf_size c1 - 32\<rparr>))"

definition RandBytes :: "'r generator \<Rightarrow> nat \<Rightarrow> 'r fast_random \<Rightarrow> bytes \<times> 'r fast_random" where
  "RandBytes g n c =
     (if 0 < n then let (b, r) = g_random g n (fr_rng c) in (b, c\<lparr>fr_rng := r\<rparr>) else ([], c))"

definition FillBitBuffer :: "'r generator \<Rightarrow> 'r fast_random \<Rightarrow> 'r fast_random" where
  "FillBitBuffer g c = (let (x, c1) = Rand64 g c in c1\<lparr>bitbuf := x, bitbuf_size := 64\<rparr>)"

definition RandBits :: "'r generator \<Rightarrow> int \<Rightarrow> 'r fast_random \<Rightarrow> (u64 \<times> 'r fast_random) res" where
  "RandBits g bits c =
     (if bits = 0 then Inr (0, c)
      else if 32 < bits then
        (if 64 < bits then Inl Undefined
         else let (x, c1) = Rand64 g c in Inr (drop_bit (nat (64 - bits)) x, c1))
      else if bits < 0 then Inl Undefined
      else
        let c1 = (if bitbuf_size c < nat bits then FillBitBuffer g c else c);
            ret = bitbuf c1 AND drop_bit (nat (64 - bits)) (- 1) in
        Inr (ret, c1\<lparr>bitbuf := drop_bit (nat bits) (bitbuf c1), bitbuf_size := bitbuf_size c1 - nat bits\<rparr>))"

definition Rand32 :: "'r generator \<Rightarrow> 'r fast_random \<Rightarrow> (u32 \<times> 'r fast_random) res" where
  "Rand32 g c = res_bind (RandBits g 32 c) (\<lambda>(x, c1). Inr (ucast x, c1))"

definition RandBool :: "'r generator \<Rightarrow> 'r fast_random \<Rightarrow> (bool \<times> 'r fast_random) res" where
  "RandBool g c = res_bind (RandBits g 1 c) (\<lambda>(x, c1). Inr (x \<noteq> 0, c1))"

lemma unat_half: "unat (drop_bit 1 (x :: u64)) = unat x div 2"
  by (simp add: drop_bit_eq_div unat_div)

lemma half_less: "x \<noteq> 0 \<Longrightarrow> unat (drop_bit 1 (x :: u64)) < unat x"
proof -
  assume "x \<noteq> 0"
  then have "0 < unat x" by (simp add: unat_gt_0)
  then show ?thesis using unat_half[of x] by linarith
qed

function CountBits :: "u64 \<Rightarrow> nat" where
  "CountBits x = (if x \<noteq> 0 then Suc (CountBits (drop_bit 1 x)) else 0)"
  by auto
termination by (relation "measure unat") (use half_less in auto)

declare CountBits.simps [simp del]

partial_function (option) rand_range_loop ::
  "'r generator \<Rightarrow> nat \<Rightarrow> u64 \<Rightarrow> 'r fast_random \<Rightarrow> (u64 \<times> 'r fast_random) res option" where
  "rand_range_loop g bits bound c =
     (case RandBits g (int bits) c of Inl f \<Rightarrow> Some (Inl f)
      | Inr (ret, c1) \<Rightarrow> if ret \<le> bound then Some (Inr (ret, c1)) else rand_range_loop g bits bound c1)"

definition RandRange :: "'r generator \<Rightarrow> u64 \<Rightarrow> 'r fast_random \<Rightarrow> (u64 \<times> 'r fast_random) res option" where
  "RandRange g n c = rand_range_loop g (CountBits (n - 1)) (n - 1) c"

subsection \<open>The number of bits\<close>

lemma CountBits_bounds: "x \<noteq> 0 \<Longrightarrow> 2 ^ (CountBits x - 1) \<le> unat x \<and> unat x < 2 ^ CountBits x"
proof (induction x rule: CountBits.induct)
  case (1 x)
  let ?y = "drop_bit 1 x"
  have y: "unat ?y = unat x div 2" by (rule unat_half)
  have c: "CountBits x = Suc (CountBits ?y)" using 1(2) by (subst CountBits.simps) simp
  show ?case
  proof (cases "?y = 0")
    case True
    then have "unat x < 2" using y by simp
    moreover have "unat x \<noteq> 0" using 1(2) by (simp add: unat_eq_zero)
    ultimately show ?thesis using True c by (simp add: CountBits.simps)
  next
    case False
    have ih: "2 ^ (CountBits ?y - 1) \<le> unat ?y" "unat ?y < 2 ^ CountBits ?y" using 1 False by auto
    have "CountBits ?y \<noteq> 0" using False by (subst CountBits.simps) simp
    then have "(2 :: nat) ^ CountBits ?y = 2 * 2 ^ (CountBits ?y - 1)" by (cases "CountBits ?y") simp_all
    then have "2 ^ CountBits ?y \<le> unat x" using ih(1) y by linarith
    moreover have "unat x < 2 * 2 ^ CountBits ?y" using ih(2) y by linarith
    ultimately show ?thesis using c by simp
  qed
qed

lemma CountBits_le: "CountBits x \<le> 64"
proof (cases "x = 0")
  case False
  have "(2 :: nat) ^ (CountBits x - 1) < 2 ^ 64"
    using CountBits_bounds[OF False] unat_lt2p[of x] by simp
  then have "CountBits x - 1 < 64" by (rule power_less_imp_less_exp[rotated]) simp
  then show ?thesis by simp
qed (simp add: CountBits.simps)

lemma drop_ones: "n \<le> 64 \<Longrightarrow> drop_bit (64 - n) (- 1 :: u64) = mask n"
  by (rule bit_word_eqI) (auto simp: bit_drop_bit_eq bit_mask_iff)

subsection \<open>Draws\<close>

lemma RandBits_small:
  assumes "0 < n" "n \<le> 32"
  shows "RandBits g (int n) c =
    (let c1 = (if bitbuf_size c < n then FillBitBuffer g c else c) in
     Inr (take_bit n (bitbuf c1), c1\<lparr>bitbuf := drop_bit n (bitbuf c1), bitbuf_size := bitbuf_size c1 - n\<rparr>))"
proof -
  have "nat (64 - int n) = 64 - n" using assms by simp
  then show ?thesis using assms drop_ones[of n] by (simp add: RandBits_def Let_def take_bit_eq_mask)
qed

lemma RandBits_returns: "n \<le> 64 \<Longrightarrow> \<exists>x c'. RandBits g (int n) c = Inr (x, c')"
  by (simp add: RandBits_def Let_def split: prod.split)

text \<open>The result of the call number \<open>k\<close>, from zero, of \<open>RandBits\<close> with one and the same width.\<close>

fun draw :: "'r generator \<Rightarrow> nat \<Rightarrow> nat \<Rightarrow> 'r fast_random \<Rightarrow> (u64 \<times> 'r fast_random) res" where
  "draw g n 0 c = RandBits g (int n) c"
| "draw g n (Suc k) c = res_bind (RandBits g (int n) c) (\<lambda>(_, c1). draw g n k c1)"

lemma rand_range_first:
  assumes "n \<le> 64"
  shows "draw g n k c = Inr (x, c') \<Longrightarrow> x \<le> b \<Longrightarrow> \<forall>j<k. \<forall>y d. draw g n j c = Inr (y, d) \<longrightarrow> \<not> y \<le> b \<Longrightarrow>
    rand_range_loop g n b c = Some (Inr (x, c'))"
proof (induction k arbitrary: c)
  case 0
  then show ?case by (subst rand_range_loop.simps) simp
next
  case (Suc k)
  obtain y c1 where y: "RandBits g (int n) c = Inr (y, c1)" using RandBits_returns[OF assms] by blast
  have "\<not> y \<le> b" using Suc.prems(3) y by (metis draw.simps(1) zero_less_Suc)
  moreover have "rand_range_loop g n b c1 = Some (Inr (x, c'))"
  proof (rule Suc.IH)
    show "draw g n k c1 = Inr (x, c')" using Suc.prems(1) y by simp
    show "\<forall>j<k. \<forall>y d. draw g n j c1 = Inr (y, d) \<longrightarrow> \<not> y \<le> b"
    proof (intro allI impI)
      fix j z d assume "j < k" "draw g n j c1 = Inr (z, d)"
      then show "\<not> z \<le> b" using Suc.prems(3)[rule_format, of "Suc j" z d] y by simp
    qed
  qed (rule Suc.prems(2))
  ultimately show ?case using y by (subst rand_range_loop.simps) simp
qed

lemmas rand_range_induct = rand_range_loop.raw_induct[rotated, consumes 1, case_names round]

lemma rand_range_returns:
  assumes "rand_range_loop g n b c = Some r" "n \<le> 64"
  shows "\<exists>k x c'. draw g n k c = Inr (x, c') \<and> x \<le> b"
  using assms
proof (induction rule: rand_range_induct)
  case (round loop g n b c r)
  obtain y c1 where y: "RandBits g (int n) c = Inr (y, c1)" using RandBits_returns[OF round(3)] by blast
  show ?case
  proof (cases "y \<le> b")
    case True
    moreover have "draw g n 0 c = Inr (y, c1)" using y by simp
    ultimately show ?thesis by blast
  next
    case False
    then have "loop g n b c1 = Some r" using round(2) y by simp
    then obtain k x c' where "draw g n k c1 = Inr (x, c')" "x \<le> b" using round(1,3) by blast
    moreover from this have "draw g n (Suc k) c = Inr (x, c')" using y by simp
    ultimately show ?thesis by blast
  qed
qed

text \<open>C29: \<^verbatim>\<open>RandRange\<close> is rejection sampling with the least width: it returns exactly when one of the successive
  draws of that width is below the range, and then the first such draw; no draw fails, and of the
  numbers of that width more than half are accepted.  (The range zero wraps to all 64 bit numbers.)\<close>
theorem RandRange_exact:
  fixes n :: u64
  defines "bits \<equiv> CountBits (n - 1)"
  shows "(RandRange g n c \<noteq> None \<longleftrightarrow> (\<exists>k x c'. draw g bits k c = Inr (x, c') \<and> x \<le> n - 1)) \<and>
    (draw g bits k c = Inr (x, c') \<and> x \<le> n - 1 \<and> (\<forall>j<k. \<forall>y d. draw g bits j c = Inr (y, d) \<longrightarrow> \<not> y \<le> n - 1) \<longrightarrow>
     RandRange g n c = Some (Inr (x, c'))) \<and>
    2 ^ bits < 2 * (unat (n - 1) + 1)"
proof -
  have le: "bits \<le> 64" by (simp add: bits_def CountBits_le)
  have r: "RandRange g n c = rand_range_loop g bits (n - 1) c" by (simp add: RandRange_def bits_def)
  have "\<exists>r. RandRange g n c = Some r" if k: "draw g bits k c = Inr (x, c')" "x \<le> n - 1" for k x c'
  proof -
    define P where "P j = (\<exists>y d. draw g bits j c = Inr (y, d) \<and> y \<le> n - 1)" for j
    have "P k" using k by (auto simp: P_def)
    then have "P (Least P)" "\<forall>j<Least P. \<not> P j" by (auto intro: LeastI dest: not_less_Least)
    then obtain y d where "draw g bits (Least P) c = Inr (y, d)" "y \<le> n - 1"
        "\<forall>j<Least P. \<forall>y d. draw g bits j c = Inr (y, d) \<longrightarrow> \<not> y \<le> n - 1"
      unfolding P_def by blast
    then show ?thesis using rand_range_first[OF le] r by metis
  qed
  moreover have "\<exists>k x c'. draw g bits k c = Inr (x, c') \<and> x \<le> n - 1" if "RandRange g n c \<noteq> None"
    using that rand_range_returns[of g bits "n - 1" c] le r by auto
  moreover have "2 ^ bits < 2 * (unat (n - 1) + 1)"
  proof (cases "n - 1 = 0")
    case True
    then show ?thesis by (simp add: bits_def CountBits.simps)
  next
    case False
    have b: "2 ^ (bits - 1) \<le> unat (n - 1)" using CountBits_bounds[OF False] by (simp add: bits_def)
    have "(2 :: nat) ^ bits \<le> 2 * 2 ^ (bits - 1)" by (cases bits) simp_all
    then have "(2 :: nat) ^ bits \<le> 2 * unat (n - 1)" using mult_le_mono2[OF b, of 2] by (rule order_trans)
    then show ?thesis by simp
  qed
  ultimately show ?thesis using rand_range_first[OF le] r by (auto simp del: draw.simps)
qed

definition zeros :: "unit generator" where
  "zeros = \<lparr>g_random = (\<lambda>n r. (replicate n 0, r)), g_entropy = (\<lambda>_ r. r), g_seed = []\<rparr>"

lemma RandRange_exact_witness: "\<exists>c'. RandRange zeros 10 (FastRandom_new zeros () True [] [] 0) = Some (Inr (0, c'))"
proof -
  have z: "CountBits 9 = 4" "(from_le_loop 0 0 (replicate 8 0) :: u64) = 0" by code_simp+
  have "\<exists>c'. draw zeros 4 0 (FastRandom_new zeros () True [] [] 0) = Inr (0, c')"
    using RandBits_small[of 4 zeros "FastRandom_new zeros () True [] [] 0"]
    by (simp add: FastRandom_new_def FillBitBuffer_def Rand64_def FillByteBuffer_def zeros_def Let_def from_little_endian_def z)
  then show ?thesis
    using z(1) RandRange_exact[of zeros 10 "FastRandom_new zeros () True [] [] 0" 0 0] by auto
qed

subsection \<open>Bits of one word\<close>

text \<open>Calls of \<open>RandBits\<close> with widths \<open>bs\<close>, and the word with the fields \<open>xs\<close> of these widths, lowest first.\<close>

fun rand_all :: "'r generator \<Rightarrow> nat list \<Rightarrow> 'r fast_random \<Rightarrow> (u64 list \<times> 'r fast_random) res" where
  "rand_all g [] c = Inr ([], c)"
| "rand_all g (b # bs) c =
     res_bind (RandBits g (int b) c) (\<lambda>(x, c1). res_bind (rand_all g bs c1) (\<lambda>(xs, c2). Inr (x # xs, c2)))"

fun fields :: "nat list \<Rightarrow> u64 list \<Rightarrow> nat" where
  "fields (b # bs) (x # xs) = unat x + 2 ^ b * fields bs xs"
| "fields _ _ = 0"

lemma split_bits: "unat w = unat (take_bit b w) + 2 ^ b * unat (drop_bit b (w :: u64))"
proof -
  have "unat (take_bit b w) = unat w mod 2 ^ b" by (subst unsigned_take_bit_eq) (rule take_bit_eq_mod)
  moreover have "unat (drop_bit b w) = unat w div 2 ^ b" by (subst unat_drop_bit_eq) (rule drop_bit_eq_div)
  ultimately show ?thesis by simp
qed

lemma take_bit_less: "unat (take_bit b w :: u64) < 2 ^ b"
  by (simp add: unsigned_take_bit_eq)

lemma rand_all_fields:
  "list_all (\<lambda>b. 0 < b \<and> b \<le> 32) bs \<Longrightarrow> sum_list bs \<le> bitbuf_size c \<Longrightarrow>
   \<exists>xs c'. rand_all g bs c = Inr (xs, c') \<and> list_all2 (\<lambda>b x. unat x < 2 ^ b) bs xs \<and>
     unat (bitbuf c) = fields bs xs + 2 ^ sum_list bs * unat (bitbuf c') \<and>
     bitbuf_size c' = bitbuf_size c - sum_list bs"
proof (induction bs arbitrary: c)
  case Nil
  then show ?case by simp
next
  case (Cons b bs)
  let ?x = "take_bit b (bitbuf c)"
  let ?c1 = "c\<lparr>bitbuf := drop_bit b (bitbuf c), bitbuf_size := bitbuf_size c - b\<rparr>"
  have r: "RandBits g (int b) c = Inr (?x, ?c1)" using Cons.prems by (simp add: RandBits_small Let_def)
  obtain xs c' where ih: "rand_all g bs ?c1 = Inr (xs, c')" "list_all2 (\<lambda>b x. unat x < 2 ^ b) bs xs"
      "unat (drop_bit b (bitbuf c)) = fields bs xs + 2 ^ sum_list bs * unat (bitbuf c')"
      "bitbuf_size c' = bitbuf_size c - b - sum_list bs"
    using Cons.IH[of ?c1] Cons.prems by (auto simp: le_diff_conv2)
  have "unat (bitbuf c) = fields (b # bs) (?x # xs) + 2 ^ sum_list (b # bs) * unat (bitbuf c')"
    by (subst split_bits[of "bitbuf c" b]) (simp add: ih(3) power_add algebra_simps)
  moreover have "rand_all g (b # bs) c = Inr (?x # xs, c')" using r ih(1) by simp
  ultimately show ?case using ih(2,4) take_bit_less[of b "bitbuf c"] by (intro exI[of _ "?x # xs"] exI[of _ c']) simp
qed

text \<open>No bit is handed out twice or lost: when the bit buffer is empty, calls of \<^verbatim>\<open>RandBits\<close> for at most 64 bits in
  all, each for one to 32 of them, return exactly the successive bit fields, lowest first, of the
  next number of \<^verbatim>\<open>Rand64\<close>, each below two to its width; what is left of the number stays in the buffer.\<close>
theorem RandBits_partition:
  assumes "bitbuf_size c = 0" "bs \<noteq> []" "list_all (\<lambda>b. 0 < b \<and> b \<le> 32) bs" "sum_list bs \<le> 64"
  shows "\<exists>xs c'. rand_all g bs c = Inr (xs, c') \<and> list_all2 (\<lambda>b x. unat x < 2 ^ b) bs xs \<and>
    unat (fst (Rand64 g c)) = fields bs xs + 2 ^ sum_list bs * unat (bitbuf c') \<and> bitbuf_size c' = 64 - sum_list bs"
proof -
  obtain b bs' where bs: "bs = b # bs'" using assms(2) by (cases bs) auto
  have "RandBits g (int b) c = RandBits g (int b) (FillBitBuffer g c)"
    using assms bs by (simp add: RandBits_small Let_def FillBitBuffer_def split_def)
  then have same: "rand_all g bs c = rand_all g bs (FillBitBuffer g c)" by (simp add: bs)
  have fill: "bitbuf (FillBitBuffer g c) = fst (Rand64 g c)" "bitbuf_size (FillBitBuffer g c) = 64"
    by (simp_all add: FillBitBuffer_def split_def Let_def)
  show ?thesis
    using rand_all_fields[OF assms(3), of "FillBitBuffer g c" g] assms(4) unfolding same fill by blast
qed

lemma RandBits_partition_witness:
  "\<exists>xs c'. rand_all zeros [1, 32, 31] (FastRandom_new zeros () True [] [] 0) = Inr (xs, c') \<and> bitbuf_size c' = 0"
  using RandBits_partition[of "FastRandom_new zeros () True [] [] 0" "[1, 32, 31]" zeros] by (auto simp: FastRandom_new_def)

end
