(* ===== verification/Semaphore.thy ===== *)
theory Semaphore
  imports Prelude
begin

text \<open>
  \<^verbatim>\<open>Semaphore\<close> and \<^verbatim>\<open>SemaphoreGrant\<close> of \<^verbatim>\<open>src/utility/include/sync.h\<close> and \<^verbatim>\<open>src/utility/src/sync.cpp\<close>.  Semaphores
  and grants are numbered objects; an operation that blocks has the result \<open>None\<close> and can be tried
  again.  The counter is an \<^verbatim>\<open>int\<close>, whose overflow is undefined.
\<close>

record grant =
  g_sem :: "nat option"
  have_grant :: bool

record sem_state =
  sem_value :: "nat \<Rightarrow> int"
  grants :: "nat \<Rightarrow> grant"

subsection \<open>Semaphore\<close>

definition sem_wait :: "nat \<Rightarrow> sem_state \<Rightarrow> sem_state option" where
  "sem_wait m s = (if 1 \<le> sem_value s m then Some (s\<lparr>sem_value := (sem_value s)(m := sem_value s m - 1)\<rparr>) else None)"

definition sem_try_wait :: "nat \<Rightarrow> sem_state \<Rightarrow> bool \<times> sem_state" where
  "sem_try_wait m s =
     (if sem_value s m < 1 then (False, s)
      else (True, s\<lparr>sem_value := (sem_value s)(m := sem_value s m - 1)\<rparr>))"

definition sem_post :: "nat \<Rightarrow> sem_state \<Rightarrow> sem_state res" where
  "sem_post m s =
     (if 2 ^ 31 - 1 \<le> sem_value s m then Inl Undefined
      else Inr (s\<lparr>sem_value := (sem_value s)(m := sem_value s m + 1)\<rparr>))"

subsection \<open>SemaphoreGrant\<close>

definition set_grant :: "nat \<Rightarrow> grant \<Rightarrow> sem_state \<Rightarrow> sem_state" where
  "set_grant g x s = s\<lparr>grants := (grants s)(g := x)\<rparr>"

definition Grant_Acquire :: "nat \<Rightarrow> sem_state \<Rightarrow> sem_state res option" where
  "Grant_Acquire g s =
     (let x = grants s g in
      if have_grant x then Some (Inr s)
      else case g_sem x of None \<Rightarrow> Some (Inl Undefined)
      | Some m \<Rightarrow> map_option (\<lambda>s1. Inr (set_grant g (x\<lparr>have_grant := True\<rparr>) s1)) (sem_wait m s))"

definition Grant_Release :: "nat \<Rightarrow> sem_state \<Rightarrow> sem_state res" where
  "Grant_Release g s =
     (let x = grants s g in
      if \<not> have_grant x then Inr s
      else case g_sem x of None \<Rightarrow> Inl Undefined
      | Some m \<Rightarrow> res_bind (sem_post m s) (\<lambda>s1. Inr (set_grant g (x\<lparr>have_grant := False\<rparr>) s1)))"

definition Grant_TryAcquire :: "nat \<Rightarrow> sem_state \<Rightarrow> (bool \<times> sem_state) res" where
  "Grant_TryAcquire g s =
     (let x = grants s g in
      if have_grant x then Inr (True, s)
      else case g_sem x of None \<Rightarrow> Inl Undefined
      | Some m \<Rightarrow>
          let (ok, s1) = sem_try_wait m s in
          if ok then Inr (True, set_grant g (x\<lparr>have_grant := True\<rparr>) s1) else Inr (False, s1))"

definition Grant_MoveTo :: "nat \<Rightarrow> nat \<Rightarrow> sem_state \<Rightarrow> sem_state res" where
  "Grant_MoveTo g h s =
     res_bind (Grant_Release h s) (\<lambda>s1.
       let s2 = set_grant h (grants s1 g) s1 in
       Inr (set_grant g ((grants s2 g)\<lparr>have_grant := False\<rparr>) s2))"

text \<open>The constructors; with \<open>fTry\<close> the second one tries, else it acquires.\<close>

definition Grant_default :: "nat \<Rightarrow> sem_state \<Rightarrow> sem_state" where
  "Grant_default g s = set_grant g \<lparr>g_sem = None, have_grant = False\<rparr> s"

definition Grant_new :: "nat \<Rightarrow> nat \<Rightarrow> bool \<Rightarrow> sem_state \<Rightarrow> sem_state res option" where
  "Grant_new g m fTry s =
     (let s1 = set_grant g \<lparr>g_sem = Some m, have_grant = False\<rparr> s in
      if fTry then Some (res_bind (Grant_TryAcquire g s1) (\<lambda>(_, s2). Inr s2)) else Grant_Acquire g s1)"

subsection \<open>Permits are conserved\<close>

definition holders :: "nat \<Rightarrow> sem_state \<Rightarrow> nat set" where
  "holders m s = {g. have_grant (grants s g) \<and> g_sem (grants s g) = Some m}"

definition sem_inv :: "(nat \<Rightarrow> int) \<Rightarrow> sem_state \<Rightarrow> bool" where
  [inv_defs]: "sem_inv permits s =
     ((\<forall>m. finite (holders m s) \<and> sem_value s m + int (card (holders m s)) = permits m) \<and>
      (\<forall>g. have_grant (grants s g) \<longrightarrow> g_sem (grants s g) \<noteq> None))"

lemma holders_set:
  "holders m (set_grant g x s) = (if have_grant x \<and> g_sem x = Some m then insert g (holders m s) else holders m s - {g})"
  by (auto simp: holders_def set_grant_def)

lemma holders_value [simp]: "holders m (s\<lparr>sem_value := v\<rparr>) = holders m s"
  by (simp add: holders_def)

lemma set_grant_sel [simp]: "sem_value (set_grant g x s) = sem_value s" "grants (set_grant g x s) = (grants s)(g := x)"
  by (simp_all add: set_grant_def)

lemma not_holder: "\<not> have_grant (grants s g) \<Longrightarrow> g \<notin> holders m s"
  by (simp add: holders_def)

lemma sem_inv_take:
  assumes "sem_inv permits s" "\<not> have_grant (grants s g)" "g_sem x = Some m" "have_grant x"
  shows "sem_inv permits (set_grant g x (s\<lparr>sem_value := (sem_value s)(m := sem_value s m - 1)\<rparr>))"
  using assms not_holder[OF assms(2)] by (auto simp: sem_inv_def holders_set)

lemma sem_inv_free:
  assumes "sem_inv permits s" "\<not> have_grant (grants s g)" "\<not> have_grant x"
  shows "sem_inv permits (set_grant g x s)"
  using assms not_holder[OF assms(2)] by (auto simp: sem_inv_def holders_set)

lemma sem_inv_Acquire: "sem_inv permits s \<Longrightarrow> Grant_Acquire g s = Some (Inr s') \<Longrightarrow> sem_inv permits s'"
  by (auto simp: Grant_Acquire_def sem_wait_def Let_def split: if_splits option.splits intro!: sem_inv_take)

lemma sem_inv_TryAcquire: "sem_inv permits s \<Longrightarrow> Grant_TryAcquire g s = Inr (b, s') \<Longrightarrow> sem_inv permits s'"
  by (auto simp: Grant_TryAcquire_def sem_try_wait_def Let_def split: if_splits option.splits intro!: sem_inv_take)

lemma sem_inv_Release:
  assumes "sem_inv permits s" "Grant_Release g s = Inr s'"
  shows "sem_inv permits s' \<and> \<not> have_grant (grants s' g)"
proof (cases "have_grant (grants s g)")
  case True
  then obtain m where m: "g_sem (grants s g) = Some m" using assms(1) by (auto simp: sem_inv_def)
  have g: "g \<in> holders m s" using True m by (simp add: holders_def)
  have s': "s' = set_grant g ((grants s g)\<lparr>have_grant := False\<rparr>) (s\<lparr>sem_value := (sem_value s)(m := sem_value s m + 1)\<rparr>)"
    using assms(2) True m by (auto simp: Grant_Release_def sem_post_def Let_def split: if_splits)
  have "card (holders m s) = Suc (card (holders m s - {g}))"
    using g assms(1) by (intro card.remove) (auto simp: sem_inv_def)
  moreover have "m' \<noteq> m \<Longrightarrow> g \<notin> holders m' s" for m' using m by (simp add: holders_def)
  moreover have "sem_value s m + int (card (holders m s)) = permits m" using assms(1) by (simp add: sem_inv_def)
  ultimately show ?thesis using assms(1) by (auto simp: sem_inv_def holders_set s')
next
  case False
  then show ?thesis using assms by (simp add: Grant_Release_def)
qed

lemma sem_inv_MoveTo:
  assumes "sem_inv permits s" "Grant_MoveTo g h s = Inr s'"
  shows "sem_inv permits s'"
proof -
  obtain s1 where s1: "Grant_Release h s = Inr s1"
      "s' = set_grant g (((grants s1)(h := grants s1 g)) g\<lparr>have_grant := False\<rparr>) (set_grant h (grants s1 g) s1)"
    using assms(2) by (auto simp: Grant_MoveTo_def res_bind_eq_Inr Let_def)
  have r: "sem_inv permits s1" "\<not> have_grant (grants s1 h)" using sem_inv_Release[OF assms(1) s1(1)] by auto
  show ?thesis
  proof (cases "g = h \<or> \<not> have_grant (grants s1 g)")
    case True
    then show ?thesis using r unfolding s1(2) by (intro sem_inv_free) auto
  next
    case False
    then obtain m where m: "g_sem (grants s1 g) = Some m" using r(1) by (auto simp: sem_inv_def)
    have h: "h \<notin> holders m' s1" for m' using r(2) by (rule not_holder)
    have g: "g \<in> holders m s1" "\<And>m'. m' \<noteq> m \<Longrightarrow> g \<notin> holders m' s1" using m False by (auto simp: holders_def)
    have "holders m s' = insert h (holders m s1 - {g})" "\<And>m'. m' \<noteq> m \<Longrightarrow> holders m' s' = holders m' s1"
      using m False h g(2) by (auto simp: s1(2) holders_set)
    moreover have "card (insert h (holders m s1 - {g})) = card (holders m s1)"
    proof -
      have fin: "finite (holders m s1)" using r(1) by (simp add: sem_inv_def)
      then have "card (holders m s1) = Suc (card (holders m s1 - {g}))" using g(1) by (rule card.remove)
      then show ?thesis using fin h[of m] by simp
    qed
    ultimately have "finite (holders m' s') \<and> card (holders m' s') = card (holders m' s1)" for m'
      using r(1) by (cases "m' = m") (auto simp: sem_inv_def)
    then show ?thesis using r(1) False m by (auto simp: sem_inv_def s1(2))
  qed
qed

text \<open>What a client does with grants: an object is made anew only when the old one is gone.\<close>

datatype sem_op = OpDefault nat | OpNew nat nat bool | OpAcquire nat | OpTryAcquire nat | OpRelease nat | OpMoveTo nat nat

fun sem_apply :: "sem_op \<Rightarrow> sem_state \<Rightarrow> sem_state res option" where
  "sem_apply (OpDefault g) s = Some (res_bind (Grant_Release g s) (\<lambda>s1. Inr (Grant_default g s1)))"
| "sem_apply (OpNew g m f) s =
     (case Grant_Release g s of Inl e \<Rightarrow> Some (Inl e) | Inr s1 \<Rightarrow> Grant_new g m f s1)"
| "sem_apply (OpAcquire g) s = Grant_Acquire g s"
| "sem_apply (OpTryAcquire g) s = Some (res_bind (Grant_TryAcquire g s) (\<lambda>(_, s1). Inr s1))"
| "sem_apply (OpRelease g) s = Some (Grant_Release g s)"
| "sem_apply (OpMoveTo g h) s = Some (Grant_MoveTo g h s)"

text \<open>Operations that block are skipped, as for a thread that waits for ever.\<close>

fun sem_run :: "sem_op list \<Rightarrow> sem_state \<Rightarrow> sem_state res" where
  "sem_run [] s = Inr s"
| "sem_run (x # xs) s = (case sem_apply x s of None \<Rightarrow> sem_run xs s | Some r \<Rightarrow> res_bind r (sem_run xs))"

lemma sem_inv_apply: "sem_inv permits s \<Longrightarrow> sem_apply x s = Some (Inr s') \<Longrightarrow> sem_inv permits s'"
proof (induction x)
  case (OpNew g m f)
  then obtain s1 where s1: "Grant_Release g s = Inr s1" "Grant_new g m f s1 = Some (Inr s')"
    by (auto split: sum.splits)
  have "sem_inv permits (set_grant g \<lparr>g_sem = Some m, have_grant = False\<rparr> s1)"
    using sem_inv_Release[OF OpNew(1) s1(1)] by (auto intro: sem_inv_free)
  then show ?case using s1(2)
    by (auto simp: Grant_new_def Let_def res_bind_eq_Inr split: if_splits dest: sem_inv_Acquire sem_inv_TryAcquire)
qed (auto simp: res_bind_eq_Inr Grant_default_def dest: sem_inv_Release sem_inv_Acquire sem_inv_TryAcquire sem_inv_MoveTo
    intro: sem_inv_free)

lemma sem_inv_run: "sem_inv permits s \<Longrightarrow> sem_run xs s = Inr s' \<Longrightarrow> sem_inv permits s'"
  by (induction xs arbitrary: s) (auto simp: res_bind_eq_Inr dest: sem_inv_apply split: option.splits)

definition sem_init :: "(nat \<Rightarrow> int) \<Rightarrow> sem_state" where
  "sem_init v = \<lparr>sem_value = v, grants = (\<lambda>_. \<lparr>g_sem = None, have_grant = False\<rparr>)\<rparr>"

text \<open>Permits are neither lost nor made: after any calls, those left in a semaphore and those held by grants are
  as many as it was made with.\<close>

theorem permits_conserved:
  assumes "sem_run xs (sem_init v) = Inr s"
  shows "sem_value s m + int (card (holders m s)) = v m"
proof -
  have "sem_inv v (sem_init v)" by (simp add: sem_inv_def holders_def sem_init_def)
  then show ?thesis using sem_inv_run[OF _ assms] by (simp add: sem_inv_def)
qed

end
