(* ===== verification/Configuration.thy ===== *)
theory Configuration
  imports Block Constants
begin

text \<open>
  Command line and configuration: \<^verbatim>\<open>Args\<close> and \<^verbatim>\<open>Configuration\<close> of \<^verbatim>\<open>src/utility/include/util.h\<close> and
  \<^verbatim>\<open>src/utility/src/util.cpp\<close>, \<^verbatim>\<open>FullNodeConfig\<close> of \<^verbatim>\<open>src/fullnode/src/config.cpp\<close>, the log levels of
  \<^verbatim>\<open>src/utility/src/logging.cpp\<close> and the network parameters of \<^verbatim>\<open>src/network/src/params.cpp\<close>.  A
  \<^verbatim>\<open>std::string\<close> is a byte list.  \<^verbatim>\<open>getopt_long\<close> and \<^verbatim>\<open>inet_pton\<close> are parameters, given by the options it
  returns and by the texts that are addresses; so is the file system of the data directory.
\<close>

subsection \<open>Errors\<close>

text \<open>\<^verbatim>\<open>Exception\<close> with its error code; \<open>Fails\<close> is any other failure.\<close>

datatype config_error = ShowHelp | InvalidOption | InvalidArg | Fails fault

type_synonym 'a cfg = "config_error + 'a"

definition cfg_bind :: "'a cfg \<Rightarrow> ('a \<Rightarrow> 'b cfg) \<Rightarrow> 'b cfg" where
  "cfg_bind m f = (case m of Inl e \<Rightarrow> Inl e | Inr x \<Rightarrow> f x)"

lemma cfg_bind_simps [simp]: "cfg_bind (Inr x) f = f x" "cfg_bind (Inl e) f = Inl e"
  by (simp_all add: cfg_bind_def)

lemma cfg_bind_eq_Inr: "cfg_bind m f = Inr y \<longleftrightarrow> (\<exists>x. m = Inr x \<and> f x = Inr y)"
  by (cases m) auto

subsection \<open>Args\<close>

record args =
  map_args :: "bytes \<Rightarrow> bytes option"
  map_multi_args :: "bytes \<Rightarrow> bytes list option"

definition Args_Clear :: args where
  "Args_Clear = \<lparr>map_args = Map.empty, map_multi_args = Map.empty\<rparr>"

definition GetArg :: "bytes \<Rightarrow> bytes \<Rightarrow> args \<Rightarrow> bytes" where
  "GetArg arg arg_default a = (case map_args a arg of Some v \<Rightarrow> v | None \<Rightarrow> arg_default)"

definition GetBoolArg :: "bytes \<Rightarrow> bool \<Rightarrow> args \<Rightarrow> bool" where
  "GetBoolArg arg arg_default a =
     (case map_args a arg of Some v \<Rightarrow> \<not> (v = [] \<or> v = ascii ''0'') | None \<Rightarrow> arg_default)"

definition GetArgs :: "bytes \<Rightarrow> args \<Rightarrow> bytes list" where
  "GetArgs arg a = (case map_multi_args a arg of Some vs \<Rightarrow> vs | None \<Rightarrow> [])"

definition SetArg :: "bytes \<Rightarrow> bytes \<Rightarrow> args \<Rightarrow> args" where
  "SetArg arg v a = a\<lparr>map_args := (map_args a)(arg \<mapsto> v), map_multi_args := (map_multi_args a)(arg \<mapsto> [v])\<rparr>"

definition SetArgs :: "bytes \<Rightarrow> bytes \<Rightarrow> args \<Rightarrow> args" where
  "SetArgs arg v a = a\<lparr>map_args := (map_args a)(arg \<mapsto> v), map_multi_args := (map_multi_args a)(arg \<mapsto> GetArgs arg a @ [v])\<rparr>"

definition IsArgSet :: "bytes \<Rightarrow> args \<Rightarrow> bool" where
  "IsArgSet arg a = (map_args a arg \<noteq> None)"

subsection \<open>Log levels and modules\<close>

text \<open>\<open>log_module\<close> and the flags \<open>FLAGS_minloglevel\<close> and \<open>FLAGS_v\<close> of glog.\<close>

record log_state =
  log_module :: u32
  minloglevel :: int
  verbosity :: int

definition module_names :: "(bytes \<times> u16) list" where
  "module_names =
     [(ascii ''0'', 0), (ascii ''net'', 1), (ascii ''mempool'', 2), (ascii ''http'', 4), (ascii ''db'', 8),
      (ascii ''rpc'', 16), (ascii ''prune'', 32), (ascii ''libevent'', 64), (ascii ''coindb'', 128), (ascii ''1'', 65535)]"

definition MapIntoModule :: "bytes \<Rightarrow> u16" where
  "MapIntoModule s = (case map_of module_names s of Some m \<Rightarrow> m | None \<Rightarrow> 0)"

definition map_loglevel :: "u8 list" where
  "map_loglevel = [3, 2, 1, 4, 5, 6]"

definition MapIntoGloglevel :: "u8 \<Rightarrow> u8 res" where
  "MapIntoGloglevel level = (if \<not> level < 6 then Inl Assertion else Inr (map_loglevel ! unat level))"

definition set_logModule :: "u16 \<Rightarrow> log_state \<Rightarrow> log_state" where
  "set_logModule m g = g\<lparr>log_module := log_module g OR ucast m\<rparr>"

text \<open>The static initial values, and \<^verbatim>\<open>InitLogging\<close>.\<close>

definition log_start :: log_state where
  "log_start = \<lparr>log_module = 0, minloglevel = 0, verbosity = 0\<rparr>"

text \<open>\<^verbatim>\<open>std::stoi\<close>: text after the number is ignored; \<open>None\<close> is one of its exceptions.\<close>

definition stoi :: "bytes \<Rightarrow> int option" where
  "stoi s =
     (let (n, endp, erange) = strto (- (2 ^ 63)) (2 ^ 63 - 1) s in
      if endp = s \<or> erange \<or> n < - (2 ^ 31) \<or> 2 ^ 31 - 1 < n then None else Some n)"

definition InitLogging :: "log_state \<Rightarrow> log_state res" where
  "InitLogging g =
     (case stoi (ascii ''3'') of None \<Rightarrow> Inl RuntimeError
      | Some n \<Rightarrow> if n < 0 \<or> 6 \<le> n then Inl Undefined else Inr (g\<lparr>verbosity := uint (map_loglevel ! nat n)\<rparr>))"

subsection \<open>Parsing\<close>

text \<open>\<open>argv\<close> without the \<open>argc\<close>; nothing when the pointer is null.\<close>

definition CheckOptions :: "bytes list option \<Rightarrow> unit cfg" where
  "CheckOptions argv =
     (case argv of None \<Rightarrow> Inl InvalidArg
      | Some vs \<Rightarrow>
          if vs = [] then Inl InvalidArg
          else if list_ex (\<lambda>s. (2 < length s \<and> take 2 s \<noteq> ascii ''--'') \<or> s = ascii ''--'') (tl vs)
          then Inl InvalidOption else Inr ())"

text \<open>What a call of \<^verbatim>\<open>getopt_long\<close> returns: 0 with the index of a long option and \<^verbatim>\<open>optarg\<close>, the letter \<open>h\<close>
  or a question mark, another letter.\<close>

datatype opt = LongOpt nat "bytes option" | HelpOpt | OtherOpt

definition fullnode_options :: "(bytes \<times> bool) list" where
  "fullnode_options =
     [(ascii ''help'', False), (ascii ''debug'', True), (ascii ''loglevel'', True), (ascii ''datadir'', True),
      (ascii ''conf'', True), (ascii ''testnet'', False), (ascii ''regtest'', False), (ascii ''connect'', True)]"

fun parse_opts :: "opt list \<Rightarrow> args \<Rightarrow> args cfg" where
  "parse_opts [] a = Inr a"
| "parse_opts (LongOpt i optarg # os) a =
     (if length fullnode_options \<le> i then Inl (Fails Undefined)
      else let (str, has_arg) = fullnode_options ! i in
        if has_arg then
          (case optarg of None \<Rightarrow> Inl (Fails Undefined)
           | Some v \<Rightarrow> if v = [] then Inl InvalidOption else parse_opts os (SetArgs str v a))
        else parse_opts os (SetArgs str [] a))"
| "parse_opts (HelpOpt # os) a = Inl ShowHelp"
| "parse_opts (OtherOpt # os) a = parse_opts os a"

definition CheckArgsCustomized :: "(bytes \<Rightarrow> bool) \<Rightarrow> args \<Rightarrow> unit cfg" where
  "CheckArgsCustomized is_ip a =
     (if IsArgSet (ascii ''connect'') a \<and> list_ex (\<lambda>v. \<not> is_ip v) (GetArgs (ascii ''connect'') a)
      then Inl InvalidArg else Inr ())"

definition CheckArgs :: "(bytes \<Rightarrow> bool) \<Rightarrow> args \<Rightarrow> unit cfg" where
  "CheckArgs is_ip a =
     (if IsArgSet (ascii ''testnet'') a \<and> IsArgSet (ascii ''regtest'') a then Inl InvalidOption
      else if IsArgSet (ascii ''debug'') a \<and> list_all (\<lambda>v. v \<noteq> ascii ''0'') (GetArgs (ascii ''debug'') a) \<and>
          list_ex (\<lambda>v. MapIntoModule v = 0) (GetArgs (ascii ''debug'') a) then Inl InvalidArg
      else if IsArgSet (ascii ''loglevel'') a \<and>
          (case stoi (GetArg (ascii ''loglevel'') (ascii ''3'') a) of None \<Rightarrow> True | Some level \<Rightarrow> level < 0 \<or> 6 \<le> level)
        then Inl InvalidArg
      else CheckArgsCustomized is_ip a)"

definition ParseParameters :: "(bytes \<Rightarrow> bool) \<Rightarrow> (bytes list \<Rightarrow> opt list) \<Rightarrow> bytes list option \<Rightarrow> args cfg" where
  "ParseParameters is_ip getopt argv =
     cfg_bind (CheckOptions argv) (\<lambda>_.
     cfg_bind (parse_opts (getopt (the argv)) Args_Clear) (\<lambda>a.
     cfg_bind (CheckArgs is_ip a) (\<lambda>_. Inr a)))"

subsection \<open>Configuration\<close>

record config =
  cfg_btcnet :: btcnet
  cfg_args :: args
  cfg_data_dir :: bytes
  cfg_file :: bytes

definition InitArgs_debug :: "args \<Rightarrow> log_state \<Rightarrow> log_state" where
  "InitArgs_debug a g =
     (if IsArgSet (ascii ''debug'') a \<and> list_all (\<lambda>v. v \<noteq> ascii ''0'') (GetArgs (ascii ''debug'') a)
      then fold (\<lambda>v. set_logModule (MapIntoModule v)) (GetArgs (ascii ''debug'') a) g else g)"

definition InitArgs_loglevel :: "args \<Rightarrow> log_state \<Rightarrow> log_state res" where
  "InitArgs_loglevel a g =
     (if IsArgSet (ascii ''loglevel'') a then
        (case stoi (GetArg (ascii ''loglevel'') (ascii ''3'') a) of None \<Rightarrow> Inl RuntimeError
         | Some level \<Rightarrow>
             res_bind (MapIntoGloglevel (of_int level)) (\<lambda>m.
               if level \<le> 2 then Inr (g\<lparr>minloglevel := uint m\<rparr>)
               else Inr (g\<lparr>minloglevel := 0, verbosity := uint m\<rparr>)))
      else Inr g)"

definition InitArgs :: "config \<Rightarrow> log_state \<Rightarrow> (bool \<times> config \<times> log_state) res" where
  "InitArgs c g =
     (let a = cfg_args c in
      res_bind (InitArgs_loglevel a (InitArgs_debug a g)) (\<lambda>g2.
        Inr (True,
          c\<lparr>cfg_btcnet := (if IsArgSet (ascii ''testnet'') a then kTestNet
                          else if IsArgSet (ascii ''regtest'') a then kRegTest else kMainNet)\<rparr>, g2)))"

subsection \<open>The data directory\<close>

text \<open>The file system: \<^verbatim>\<open>fs::is_directory\<close>, which throws when it cannot tell (a path that is too long, a directory that
  may not be searched), what \<^verbatim>\<open>std::ifstream\<close> reads (nothing when the file cannot be
  opened), \<^verbatim>\<open>fs::create_directories\<close>, and \<^verbatim>\<open>std::ofstream\<close> opened and closed, on a state \<open>'f\<close>.\<close>

record 'f filesystem =
  f_is_dir :: "bytes \<Rightarrow> 'f \<Rightarrow> bool res"
  f_read :: "bytes \<Rightarrow> 'f \<Rightarrow> bytes option"
  f_mkdirs :: "bytes \<Rightarrow> 'f \<Rightarrow> 'f res"
  f_open_out :: "bytes \<Rightarrow> 'f \<Rightarrow> 'f"

text \<open>\<^verbatim>\<open>operator/\<close> of \<^verbatim>\<open>std::filesystem::path\<close> on a POSIX system, and the elements by which paths are compared
  (of a path that does not end in a slash).\<close>

definition path_append :: "bytes \<Rightarrow> bytes \<Rightarrow> bytes" where
  "path_append p q =
     (if q \<noteq> [] \<and> hd q = 47 then q else if p = [] \<or> last p = 47 then p @ q else p @ [47] @ q)"

fun split_slash :: "bytes \<Rightarrow> bytes list" where
  "split_slash [] = [[]]"
| "split_slash (c # cs) = (if c = 47 then [] # split_slash cs else (c # hd (split_slash cs)) # tl (split_slash cs))"

definition path_parts :: "bytes \<Rightarrow> bytes list" where
  "path_parts p = (if p \<noteq> [] \<and> hd p = 47 then [[47]] else []) @ filter (\<lambda>x. x \<noteq> []) (split_slash p)"

definition PathHome :: "bytes option \<Rightarrow> bytes" where
  "PathHome home = (case home of Some h \<Rightarrow> h | None \<Rightarrow> [47])"

text \<open>\<^verbatim>\<open>std::getline\<close> until the end of the file.\<close>

fun get_lines :: "bytes \<Rightarrow> bytes list" where
  "get_lines [] = []"
| "get_lines (c # cs) =
     (if c = 10 then [] # get_lines cs
      else case get_lines cs of [] \<Rightarrow> [[c]] | l # ls \<Rightarrow> (c # l) # ls)"

text \<open>The option and value in a line of the file.  The source computes the value and drops it.\<close>

definition config_entry :: "args \<Rightarrow> bytes \<Rightarrow> (bytes \<times> bytes) option" where
  "config_entry a l =
     (let line = filter (\<lambda>x. \<not> isspace x) l in
      if line = [] \<or> hd line = 35 then None
      else if 61 \<notin> set line then None
      else
        let str = takeWhile (\<lambda>x. x \<noteq> 61) line in
        if \<not> IsArgSet str a \<and> str \<noteq> ascii ''conf'' then Some (str, tl (dropWhile (\<lambda>x. x \<noteq> 61) line)) else None)"

definition ParseFromFile :: "args \<Rightarrow> bytes option \<Rightarrow> bool" where
  "ParseFromFile a text =
     (case text of None \<Rightarrow> True
      | Some t \<Rightarrow> fold (\<lambda>l r. case config_entry a l of None \<Rightarrow> r | Some (str, str_val) \<Rightarrow> r) (get_lines t) True)"

definition net_dir :: "btcnet \<Rightarrow> bytes" where
  "net_dir net =
     (if net = kTestNet then ascii ''testnet'' else if net = kRegTest then ascii ''regtest'' else ascii ''mainnet'')"

definition default_config :: bytes where
  "default_config = ascii ''btc-fullnode.conf''"

definition choose_data_dir :: "'f filesystem \<Rightarrow> bytes option \<Rightarrow> config \<Rightarrow> 'f \<Rightarrow> bytes res" where
  "choose_data_dir os home c f =
     (let default_dir = path_append (path_append (PathHome home) (ascii ''.btc-fullnode'')) (net_dir (cfg_btcnet c));
          path = GetArg (ascii ''datadir'') (ascii ''.btc-fullnode'') (cfg_args c) in
      if IsArgSet (ascii ''datadir'') (cfg_args c) then
        res_bind (f_is_dir os path f) (\<lambda>is_dir.
          Inr (if is_dir then path_append path (net_dir (cfg_btcnet c)) else default_dir))
      else Inr default_dir)"

definition InitDataDir :: "'f filesystem \<Rightarrow> bytes option \<Rightarrow> config \<Rightarrow> 'f \<Rightarrow> (bool \<times> config \<times> 'f) res" where
  "InitDataDir os home c f =
     (let default_dir = path_append (path_append (PathHome home) (ascii ''.btc-fullnode'')) (net_dir (cfg_btcnet c)) in
      res_bind (choose_data_dir os home c f) (\<lambda>dir.
        let c1 = c\<lparr>cfg_data_dir := dir\<rparr> in
        res_bind (if path_parts (cfg_data_dir c1) = path_parts default_dir then f_mkdirs os (cfg_data_dir c1) f else Inr f) (\<lambda>f1.
          let c2 = c1\<lparr>cfg_file := GetArg (ascii ''conf'') default_config (cfg_args c)\<rparr>;
              path = path_append (cfg_data_dir c2) (cfg_file c2);
              f2 = (if cfg_file c2 = default_config then f_open_out os path f1 else f1) in
          Inr (ParseFromFile (cfg_args c2) (f_read os path f2), c2, f2))))"

subsection \<open>Network parameters\<close>

record net_params =
  p_msg_magic :: u32
  p_default_port :: u16
  p_seeds :: "(bytes \<times> u16) list"
  p_advertise_local_addr :: bool
  p_discover_local_addr :: bool
  p_use_dnsseed :: bool
  p_specified_outgoing :: "bytes list"
  p_path_data_dir :: bytes

definition main_seeds :: "(bytes \<times> u16) list" where
  "main_seeds = map (\<lambda>h. (ascii h, 8333))
     [''seed.bitcoin.sipa.be'', ''dnsseed.bluematt.me'', ''dnsseed.bitcoin.dashjr.org'', ''seed.bitcoinstats.com'',
      ''seed.bitcoin.jonasschnelli.ch'', ''seed.btc.petertodd.org'', ''seed.bitcoin.sprovoost.nl'', ''dnsseed.emzy.de'']"

definition test_seeds :: "(bytes \<times> u16) list" where
  "test_seeds = map (\<lambda>h. (ascii h, 18333))
     [''testnet-seed.bitcoin.jonasschnelli.ch'', ''seed.tbtc.petertodd.org'', ''seed.testnet.bitcoin.sprovoost.nl'',
      ''testnet-seed.bluematt.me'']"

definition NetParams_new :: "btcnet \<Rightarrow> args \<Rightarrow> bytes \<Rightarrow> net_params" where
  "NetParams_new net a dir =
     (let connect = IsArgSet (ascii ''connect'') a;
          p = \<lparr>p_msg_magic = 0, p_default_port = 0, p_seeds = [], p_advertise_local_addr = \<not> connect,
               p_discover_local_addr = \<not> connect, p_use_dnsseed = \<not> connect,
               p_specified_outgoing = (if connect then GetArgs (ascii ''connect'') a else []), p_path_data_dir = dir\<rparr> in
      case net of
        kMainNet \<Rightarrow> p\<lparr>p_msg_magic := kMainnetMagic, p_default_port := 8333, p_seeds := main_seeds\<rparr>
      | kTestNet \<Rightarrow> p\<lparr>p_msg_magic := kTestnetMagic, p_default_port := 18333, p_seeds := test_seeds\<rparr>
      | kRegTest \<Rightarrow> p\<lparr>p_msg_magic := kRegtestMagic, p_default_port := 18444\<rparr>
      | kNone \<Rightarrow> p)"

text \<open>\<^verbatim>\<open>main\<close> up to the parameters of the network; a failure of \<^verbatim>\<open>InitArgs\<close> or \<^verbatim>\<open>InitDataDir\<close> is not caught.\<close>

definition start_up ::
  "(bytes \<Rightarrow> bool) \<Rightarrow> (bytes list \<Rightarrow> opt list) \<Rightarrow> 'f filesystem \<Rightarrow> bytes option \<Rightarrow> bytes list \<Rightarrow> config \<Rightarrow> 'f \<Rightarrow>
   (net_params \<times> config \<times> log_state \<times> 'f) cfg" where
  "start_up is_ip getopt os home argv c f =
     (case InitLogging log_start of Inl e \<Rightarrow> Inl (Fails e)
      | Inr g \<Rightarrow>
          cfg_bind (ParseParameters is_ip getopt (Some argv)) (\<lambda>a.
          case res_bind (InitArgs (c\<lparr>cfg_args := a\<rparr>) g) (\<lambda>(_, c1, g1).
                 res_bind (InitDataDir os home c1 f) (\<lambda>(_, c2, f1).
                   Inr (NetParams_new (cfg_btcnet c2) (cfg_args c2) (cfg_data_dir c2), c2, g1, f1)))
          of Inl e \<Rightarrow> Inl (Fails e) | Inr r \<Rightarrow> Inr r))"

subsection \<open>What the options mean\<close>

text \<open>\<^verbatim>\<open>optarg\<close> is set for an option that takes an argument, and the index is that of an option.\<close>

fun opt_ok :: "opt \<Rightarrow> bool" where
  "opt_ok (LongOpt i optarg) = (i < length fullnode_options \<and> (snd (fullnode_options ! i) \<longrightarrow> optarg \<noteq> None))"
| "opt_ok _ = True"

text \<open>The documented meaning of the flags of glog: does \<^verbatim>\<open>BTCLOG\<close> write messages of level \<open>k\<close>?\<close>

definition logged :: "nat \<Rightarrow> log_state \<Rightarrow> bool" where
  "logged k g =
     (if k \<le> 2 then minloglevel g \<le> 3 - int k else int k + 1 \<le> verbosity g \<and> minloglevel g \<le> 0)"

definition log_level_of :: "args \<Rightarrow> int" where
  "log_level_of a = (if IsArgSet (ascii ''loglevel'') a then the (stoi (GetArg (ascii ''loglevel'') (ascii ''3'') a)) else 3)"

lemma parse_opts_fails: "list_all opt_ok os \<Longrightarrow> parse_opts os a \<noteq> Inl (Fails e)"
proof (induction os arbitrary: a)
  case (Cons x os)
  then show ?case by (cases x) (auto split: prod.splits option.splits)
qed simp

lemma InitLogging_value: "InitLogging log_start = Inr (log_start\<lparr>verbosity := 4\<rparr>)"
  by code_simp

lemma levels: "level < 6 \<Longrightarrow> 0 \<le> level \<Longrightarrow> level \<in> {0, 1, 2, 3, 4, 5 :: int}"
  by auto

lemma InitArgs_loglevel_exact:
  assumes "CheckArgs is_ip a = Inr ()" "minloglevel g = 0" "verbosity g = 4"
  shows "\<exists>g'. InitArgs_loglevel a g = Inr g' \<and> log_module g' = log_module g \<and> 0 \<le> log_level_of a \<and> log_level_of a \<le> 5 \<and>
    (\<forall>k\<in>{0, 1, 2, 3, 4, 5}. logged k g' \<longleftrightarrow> int k \<le> log_level_of a)"
proof (cases "IsArgSet (ascii ''loglevel'') a")
  case True
  then obtain n where n: "stoi (GetArg (ascii ''loglevel'') (ascii ''3'') a) = Some n" "0 \<le> n" "n < 6"
    using assms(1) by (auto simp: CheckArgs_def split: if_splits option.splits)
  then have "log_level_of a = n" using True by (simp add: log_level_of_def)
  then show ?thesis using True n(1) levels[OF n(3,2)]
    by (auto simp: InitArgs_loglevel_def MapIntoGloglevel_def map_loglevel_def logged_def)
next
  case False
  then show ?thesis using assms(2,3) by (auto simp: InitArgs_loglevel_def log_level_of_def logged_def)
qed

lemma bit_fold_modules:
  "bit (log_module (fold (\<lambda>v. set_logModule (MapIntoModule v)) vs g)) n =
     (bit (log_module g) n \<or> (\<exists>v\<in>set vs. bit (ucast (MapIntoModule v) :: u32) n))"
  by (induction vs arbitrary: g) (auto simp: set_logModule_def bit_or_iff)

lemma fold_modules_flags:
  "minloglevel (fold (\<lambda>v. set_logModule (MapIntoModule v)) vs g) = minloglevel g \<and>
   verbosity (fold (\<lambda>v. set_logModule (MapIntoModule v)) vs g) = verbosity g"
  by (induction vs arbitrary: g) (auto simp: set_logModule_def)

text \<open>\<open>asked n a\<close>: a \<^verbatim>\<open>--debug\<close> option names a module with bit \<open>n\<close>, and none is 0.\<close>

definition asked :: "nat \<Rightarrow> args \<Rightarrow> bool" where
  "asked n a =
     (IsArgSet (ascii ''debug'') a \<and> ascii ''0'' \<notin> set (GetArgs (ascii ''debug'') a) \<and>
      (\<exists>v\<in>set (GetArgs (ascii ''debug'') a). bit (ucast (MapIntoModule v) :: u32) n))"

lemma InitArgs_debug_exact:
  "minloglevel (InitArgs_debug a g) = minloglevel g" "verbosity (InitArgs_debug a g) = verbosity g"
  "log_module g = 0 \<Longrightarrow> bit (log_module (InitArgs_debug a g)) n = asked n a"
  by (auto simp: InitArgs_debug_def asked_def fold_modules_flags bit_fold_modules list_all_iff)

lemma ParseFromFile_True: "ParseFromFile a contents"
proof -
  have "fold (\<lambda>l r. case config_entry a l of None \<Rightarrow> r | Some (str, str_val) \<Rightarrow> r) ls r = r" for ls and r :: bool
    by (induction ls) (auto split: option.splits)
  then show ?thesis by (cases contents) (simp_all add: ParseFromFile_def)
qed

lemma InitDataDir_keeps:
  "InitDataDir os home c f = Inr (ok, c', f') \<Longrightarrow>
    ok \<and> cfg_args c' = cfg_args c \<and> cfg_btcnet c' = cfg_btcnet c \<and> choose_data_dir os home c f = Inr (cfg_data_dir c')"
  by (auto simp: InitDataDir_def Let_def res_bind_eq_Inr ParseFromFile_True)

lemma InitDataDir_fails:
  "InitDataDir os home c f = Inl e \<Longrightarrow>
    IsArgSet (ascii ''datadir'') (cfg_args c) \<and>
      f_is_dir os (GetArg (ascii ''datadir'') (ascii ''.btc-fullnode'') (cfg_args c)) f = Inl e \<or>
    (\<exists>dir. f_mkdirs os dir f = Inl e)"
  by (auto simp: InitDataDir_def choose_data_dir_def Let_def res_bind_def split: sum.splits if_splits)

lemma InitArgs_total:
  assumes "CheckArgs is_ip (cfg_args c) = Inr ()" "minloglevel g = 0" "verbosity g = 4" "log_module g = 0"
  shows "\<exists>g'. InitArgs c g =
      Inr (True, c\<lparr>cfg_btcnet := (if IsArgSet (ascii ''testnet'') (cfg_args c) then kTestNet
                                 else if IsArgSet (ascii ''regtest'') (cfg_args c) then kRegTest else kMainNet)\<rparr>, g') \<and>
    (\<forall>n. bit (log_module g') n = asked n (cfg_args c)) \<and> 0 \<le> log_level_of (cfg_args c) \<and> log_level_of (cfg_args c) \<le> 5 \<and>
    (\<forall>k\<in>{0, 1, 2, 3, 4, 5}. logged k g' \<longleftrightarrow> int k \<le> log_level_of (cfg_args c))"
proof -
  let ?g = "InitArgs_debug (cfg_args c) g"
  have "minloglevel ?g = 0" "verbosity ?g = 4" using assms(2,3) by (simp_all add: InitArgs_debug_exact)
  from InitArgs_loglevel_exact[OF assms(1) this] show ?thesis
    using InitArgs_debug_exact(3)[OF assms(4)] by (auto simp: InitArgs_def Let_def)
qed

lemma start_up_eq:
  assumes "list_all opt_ok (getopt argv)"
  shows "(\<exists>e. ParseParameters is_ip getopt (Some argv) = Inl e \<and> e \<in> {ShowHelp, InvalidOption, InvalidArg} \<and>
            start_up is_ip getopt os home argv c f = Inl e) \<or>
    (\<exists>a g. ParseParameters is_ip getopt (Some argv) = Inr a \<and> CheckArgs is_ip a = Inr () \<and>
       (\<forall>n. bit (log_module g) n = asked n a) \<and> 0 \<le> log_level_of a \<and> log_level_of a \<le> 5 \<and>
       (\<forall>k\<in>{0, 1, 2, 3, 4, 5}. logged k g \<longleftrightarrow> int k \<le> log_level_of a) \<and>
       start_up is_ip getopt os home argv c f =
         (case InitDataDir os home
             (c\<lparr>cfg_args := a, cfg_btcnet := (if IsArgSet (ascii ''testnet'') a then kTestNet
                else if IsArgSet (ascii ''regtest'') a then kRegTest else kMainNet)\<rparr>) f
          of Inl e \<Rightarrow> Inl (Fails e)
           | Inr (ok, c2, f1) \<Rightarrow> Inr (NetParams_new (cfg_btcnet c2) a (cfg_data_dir c2), c2, g, f1)))"
proof (cases "ParseParameters is_ip getopt (Some argv)")
  case (Inl e)
  have "e \<in> {ShowHelp, InvalidOption, InvalidArg}"
    using Inl parse_opts_fails[OF assms, of Args_Clear]
    by (auto simp: ParseParameters_def cfg_bind_def CheckOptions_def CheckArgs_def CheckArgsCustomized_def
        split: sum.splits if_splits; case_tac e; simp)
  then show ?thesis using Inl by (simp add: start_up_def InitLogging_value)
next
  case (Inr a)
  then have check: "CheckArgs is_ip a = Inr ()" by (auto simp: ParseParameters_def cfg_bind_eq_Inr)
  let ?c = "c\<lparr>cfg_args := a\<rparr>"
  let ?net = "if IsArgSet (ascii ''testnet'') a then kTestNet else if IsArgSet (ascii ''regtest'') a then kRegTest else kMainNet"
  obtain g where g: "InitArgs ?c (log_start\<lparr>verbosity := 4\<rparr>) = Inr (True, ?c\<lparr>cfg_btcnet := ?net\<rparr>, g)"
      "\<forall>n. bit (log_module g) n = asked n a" "0 \<le> log_level_of a" "log_level_of a \<le> 5"
      "\<forall>k\<in>{0, 1, 2, 3, 4, 5}. logged k g \<longleftrightarrow> int k \<le> log_level_of a"
    using InitArgs_total[of is_ip ?c "log_start\<lparr>verbosity := 4\<rparr>"] check by (auto simp: log_start_def)
  have "start_up is_ip getopt os home argv c f =
      (case InitDataDir os home (?c\<lparr>cfg_btcnet := ?net\<rparr>) f of Inl e \<Rightarrow> Inl (Fails e)
       | Inr (ok, c2, f1) \<Rightarrow> Inr (NetParams_new (cfg_btcnet c2) a (cfg_data_dir c2), c2, g, f1))"
    using Inr g(1) InitDataDir_keeps[of os home "?c\<lparr>cfg_btcnet := ?net\<rparr>" f]
    by (cases "InitDataDir os home (?c\<lparr>cfg_btcnet := ?net\<rparr>) f") (auto simp: start_up_def InitLogging_value)
  then show ?thesis using Inr check g(2-5)
    by (intro disjI2 exI[of _ a] exI[of _ g] conjI) assumption+
qed




subsection \<open>Networks do not share data\<close>

lemma split_slash_ne [simp]: "split_slash p \<noteq> []"
  by (cases p) simp_all

lemma split_slash_append: "split_slash (p @ 47 # q) = split_slash p @ split_slash q"
  by (induction p) auto

lemma split_slash_name: "47 \<notin> set q \<Longrightarrow> split_slash q = [q]"
  by (induction q) auto

lemma last_path_append:
  assumes "q \<noteq> []" "47 \<notin> set q"
  shows "path_parts (path_append p q) \<noteq> [] \<and> last (path_parts (path_append p q)) = q"
proof -
  have hd: "hd q \<noteq> 47" using assms by (metis list.set_sel(1))
  consider "p = []" | p' where "p = p' @ [47]" | "p \<noteq> []" "last p \<noteq> 47"
    by (metis append_butlast_last_id)
  then show ?thesis
  proof cases
    case 1
    then show ?thesis using assms hd split_slash_name by (simp add: path_append_def path_parts_def)
  next
    case 2
    then have "path_append p q = p' @ 47 # q" using hd by (simp add: path_append_def)
    then show ?thesis using assms by (simp add: path_parts_def split_slash_append split_slash_name)
  next
    case 3
    then have "path_append p q = p @ 47 # q" using hd by (simp add: path_append_def)
    then show ?thesis using assms by (simp add: path_parts_def split_slash_append split_slash_name)
  qed
qed

lemma net_dir_name: "net_dir net \<noteq> [] \<and> 47 \<notin> set (net_dir net)"
  by (cases net) (simp_all add: net_dir_def ascii_def)

lemma net_dir_inj:
  "net_dir m = net_dir n \<Longrightarrow> m \<in> {kMainNet, kTestNet, kRegTest} \<Longrightarrow> n \<in> {kMainNet, kTestNet, kRegTest} \<Longrightarrow> m = n"
  by (auto simp: net_dir_def ascii_def split: if_splits)

lemma choose_data_dir_name:
  "choose_data_dir os home c f = Inr dir \<Longrightarrow> path_parts dir \<noteq> [] \<and> last (path_parts dir) = net_dir (cfg_btcnet c)"
  using net_dir_name[of "cfg_btcnet c"] last_path_append
  by (auto simp: choose_data_dir_def Let_def res_bind_eq_Inr split: if_splits)

lemma start_up_Inr:
  assumes "start_up is_ip getopt os home argv c f = Inr (p, c', g, f')"
  shows "\<exists>a g0 b c1 ok. InitArgs (c\<lparr>cfg_args := a\<rparr>) g0 = Inr (b, c1, g) \<and> InitDataDir os home c1 f = Inr (ok, c', f') \<and>
    p = NetParams_new (cfg_btcnet c') (cfg_args c') (cfg_data_dir c')"
proof -
  obtain g0 where g0: "InitLogging log_start = Inr g0" using InitLogging_value by blast
  obtain a where a: "ParseParameters is_ip getopt (Some argv) = Inr a"
    using assms g0 by (cases "ParseParameters is_ip getopt (Some argv)") (auto simp: start_up_def)
  obtain b c1 g1 where i: "InitArgs (c\<lparr>cfg_args := a\<rparr>) g0 = Inr (b, c1, g1)"
    using assms g0 a by (cases "InitArgs (c\<lparr>cfg_args := a\<rparr>) g0") (auto simp: start_up_def)
  obtain ok c2 f2 where d: "InitDataDir os home c1 f = Inr (ok, c2, f2)"
    using assms g0 a i by (cases "InitDataDir os home c1 f") (auto simp: start_up_def)
  have "g1 = g \<and> c2 = c' \<and> f2 = f' \<and> p = NetParams_new (cfg_btcnet c') (cfg_args c') (cfg_data_dir c')"
    using assms g0 a i d by (auto simp: start_up_def)
  then show ?thesis using i d by blast
qed

lemma start_up_dir:
  assumes "start_up is_ip getopt os home argv c f = Inr (p, c', g, f')"
  shows "p_path_data_dir p = cfg_data_dir c' \<and> last (path_parts (cfg_data_dir c')) = net_dir (cfg_btcnet c') \<and>
    cfg_btcnet c' \<in> {kMainNet, kTestNet, kRegTest} \<and> p = NetParams_new (cfg_btcnet c') (cfg_args c') (cfg_data_dir c')"
proof -
  obtain a g0 g1 c1 b ok where s: "InitArgs (c\<lparr>cfg_args := a\<rparr>) g0 = Inr (b, c1, g1)"
      "InitDataDir os home c1 f = Inr (ok, c', f')" "p = NetParams_new (cfg_btcnet c') (cfg_args c') (cfg_data_dir c')"
    using start_up_Inr[OF assms] by blast
  have "cfg_btcnet c1 \<in> {kMainNet, kTestNet, kRegTest}"
    using s(1) by (auto simp: InitArgs_def Let_def res_bind_eq_Inr split: if_splits)
  moreover have "cfg_btcnet c' = cfg_btcnet c1" "choose_data_dir os home c1 f = Inr (cfg_data_dir c')"
    using InitDataDir_keeps[OF s(2)] by simp_all
  moreover have "p_path_data_dir p = cfg_data_dir c'" unfolding s(3) by (cases "cfg_btcnet c'") (simp_all add: NetParams_new_def Let_def)
  ultimately show ?thesis using choose_data_dir_name[of os home c1 f "cfg_data_dir c'"] s(3) by simp
qed

text \<open>C21: Two nodes started for different networks, with whatever other options, homes and files, never use the same
  data directory, magic number or port.\<close>
theorem networks_kept_apart:
  assumes "start_up is_ip getopt os home argv c f = Inr (p, c', g, f')"
    "start_up is_ip2 getopt2 os2 home2 argv2 c2 f2 = Inr (p2, c2', g2, f2')" "cfg_btcnet c' \<noteq> cfg_btcnet c2'"
  shows "path_parts (p_path_data_dir p) \<noteq> path_parts (p_path_data_dir p2) \<and> p_msg_magic p \<noteq> p_msg_magic p2 \<and>
    p_default_port p \<noteq> p_default_port p2"
proof -
  note d = start_up_dir[OF assms(1)] start_up_dir[OF assms(2)]
  have "path_parts (p_path_data_dir p) \<noteq> path_parts (p_path_data_dir p2)"
    using d assms(3) net_dir_inj[of "cfg_btcnet c'" "cfg_btcnet c2'"] by metis
  moreover have "p_msg_magic p \<noteq> p_msg_magic p2 \<and> p_default_port p \<noteq> p_default_port p2"
    using d assms(3) by (auto simp: NetParams_new_def Let_def const_defs)
  ultimately show ?thesis by blast
qed

text \<open>The default configuration file is emptied by every start that uses it, before it is read: what the user
  wrote there is lost.\<close>
theorem default_config_emptied:
  assumes "start_up is_ip getopt os home argv c f = Inr (p, c', g, f')" "\<not> IsArgSet (ascii ''conf'') (cfg_args c')"
    "\<And>q s. f_read os q (f_open_out os q s) \<in> {None, Some []}"
  shows "f_read os (path_append (cfg_data_dir c') default_config) f' \<in> {None, Some []}"
proof -
  obtain c1 ok where i: "InitDataDir os home c1 f = Inr (ok, c', f')"
    using start_up_Inr[OF assms(1)] by blast
  have "GetArg (ascii ''conf'') default_config (cfg_args c1) = default_config"
    using assms(2) InitDataDir_keeps[OF i] by (simp add: GetArg_def IsArgSet_def)
  then obtain f1 where "f' = f_open_out os (path_append (cfg_data_dir c') default_config) f1"
    using i by (auto simp: InitDataDir_def Let_def res_bind_eq_Inr)
  then show ?thesis using assms(3) by simp
qed

subsection \<open>A start\<close>

text \<open>A file system that knows one file of the default directory; the option is given by the second word.\<close>

definition disk :: "bytes option filesystem" where
  "disk = \<lparr>f_is_dir = (\<lambda>_ _. Inr False), f_read = (\<lambda>_ s. s), f_mkdirs = (\<lambda>_ s. Inr s), f_open_out = (\<lambda>_ _. Some [])\<rparr>"

definition no_config :: config where
  "no_config = \<lparr>cfg_btcnet = kNone, cfg_args = Args_Clear, cfg_data_dir = [], cfg_file = []\<rparr>"

definition scan_test :: "bytes list \<Rightarrow> opt list" where
  "scan_test argv = (if length argv = 2 then [LongOpt 5 None, LongOpt 2 (Some [52])] else [])"

definition start_test :: "bytes list \<Rightarrow> (net_params \<times> config \<times> log_state \<times> bytes option) cfg" where
  "start_test argv = start_up (\<lambda>_. True) scan_test disk None argv no_config (Some [104, 105])"

lemma scan_test_ok: "list_all opt_ok (scan_test argv)"
  by (simp add: scan_test_def fullnode_options_def)

lemma start_test_run:
  assumes "ParseParameters (\<lambda>_. True) scan_test (Some argv) = Inr a"
  shows "\<exists>p c' g f'. start_test argv = Inr (p, c', g, f') \<and> cfg_args c' = a \<and>
    cfg_btcnet c' = (if IsArgSet (ascii ''testnet'') a then kTestNet else if IsArgSet (ascii ''regtest'') a then kRegTest else kMainNet)"
proof -
  let ?c = "no_config\<lparr>cfg_args := a, cfg_btcnet := (if IsArgSet (ascii ''testnet'') a then kTestNet
    else if IsArgSet (ascii ''regtest'') a then kRegTest else kMainNet)\<rparr>"
  obtain g where g: "start_test argv =
      (case InitDataDir disk None ?c (Some [104, 105])
       of Inl e \<Rightarrow> Inl (Fails e)
        | Inr (ok, c2, f1) \<Rightarrow> Inr (NetParams_new (cfg_btcnet c2) a (cfg_data_dir c2), c2, g, f1))"
    using start_up_eq[of scan_test argv "\<lambda>_. True" disk None no_config "Some [104, 105]", OF scan_test_ok] assms
    unfolding start_test_def by auto
  obtain ok c2 f1 where i: "InitDataDir disk None ?c (Some [104, 105]) = Inr (ok, c2, f1)"
    by (cases "InitDataDir disk None ?c (Some [104, 105])") (auto simp: disk_def dest: InitDataDir_fails)
  then show ?thesis using g InitDataDir_keeps[OF i] by auto
qed

definition test_args :: args where
  "test_args = SetArgs (ascii ''loglevel'') [52] (SetArgs (ascii ''testnet'') [] Args_Clear)"

lemma test_args_set:
  "IsArgSet (ascii ''loglevel'') test_args" "IsArgSet (ascii ''testnet'') test_args" "\<not> IsArgSet (ascii ''regtest'') test_args"
  "\<not> IsArgSet (ascii ''conf'') test_args" "\<not> IsArgSet (ascii ''debug'') test_args" "\<not> IsArgSet (ascii ''connect'') test_args"
  "\<not> IsArgSet arg Args_Clear" "GetArg (ascii ''loglevel'') (ascii ''3'') test_args = [52]"
  by (simp_all add: test_args_def IsArgSet_def SetArgs_def Args_Clear_def ascii_def GetArg_def)

lemma ParseParameters_test: "ParseParameters (\<lambda>_. True) scan_test (Some [[], []]) = Inr test_args"
proof -
  have "parse_opts (scan_test [[], []]) Args_Clear = Inr test_args"
    by (simp add: scan_test_def fullnode_options_def test_args_def)
  moreover have "stoi [52] = Some 4" by code_simp
  ultimately show ?thesis
    by (simp add: ParseParameters_def CheckOptions_def CheckArgs_def CheckArgsCustomized_def test_args_set ascii_def[of "''--''"])
qed

lemma ParseParameters_none: "ParseParameters (\<lambda>_. True) scan_test (Some [[]]) = Inr Args_Clear"
  by (simp add: ParseParameters_def CheckOptions_def CheckArgs_def CheckArgsCustomized_def test_args_set scan_test_def)



lemma networks_kept_apart_witness:
  "\<exists>p c' g f' p2 c2' g2 f2'. start_test [[], []] = Inr (p, c', g, f') \<and> start_test [[]] = Inr (p2, c2', g2, f2') \<and>
    p_msg_magic p \<noteq> p_msg_magic p2 \<and> path_parts (p_path_data_dir p) \<noteq> path_parts (p_path_data_dir p2)"
proof -
  obtain p c' g f' where s: "start_test [[], []] = Inr (p, c', g, f')" "cfg_btcnet c' = kTestNet"
    using start_test_run[OF ParseParameters_test] by (auto simp: test_args_set)
  obtain p2 c2' g2 f2' where s2: "start_test [[]] = Inr (p2, c2', g2, f2')" "cfg_btcnet c2' = kMainNet"
    using start_test_run[OF ParseParameters_none] by (auto simp: test_args_set)
  from networks_kept_apart[OF s(1)[unfolded start_test_def] s2(1)[unfolded start_test_def]] s(2) s2(2)
  show ?thesis using s(1) s2(1) by auto
qed

lemma default_config_emptied_witness:
  "\<exists>p c' g f'. start_test [[]] = Inr (p, c', g, f') \<and> f_read disk (path_append (cfg_data_dir c') default_config) f' \<noteq> Some [104, 105]"
proof -
  obtain p c' g f' where s: "start_test [[]] = Inr (p, c', g, f')" "cfg_args c' = Args_Clear"
    using start_test_run[OF ParseParameters_none] by blast
  have "f_read disk q (f_open_out disk q x) \<in> {None, Some []}" for q x by (simp add: disk_def)
  from default_config_emptied[OF s(1)[unfolded start_test_def] _ this] s show ?thesis by (auto simp: test_args_set)
qed

end
