(* ===== verification/Hash_Text.thy ===== *)
theory Hash_Text
  imports String_Encoding Block
begin

text \<open>
  \<^verbatim>\<open>StrToHash256\<close> of \<^verbatim>\<open>src/utility/src/arithmetic.cpp\<close>, which turns the hexadecimal text of a hash, most
  significant byte first, into its 32 bytes, least significant first, and the parameters of the chains
  of \<^verbatim>\<open>src/chain/src/params.cpp\<close>, which are written with it.  Dereferencing the end of a text is undefined.
\<close>

definition tolower :: "u8 \<Rightarrow> u8" where
  "tolower c = (if 65 \<le> c \<and> c \<le> 90 then c + 32 else c)"

text \<open>The local \<^verbatim>\<open>result\<close> is not initialised: \<open>mem\<close> is what it holds.\<close>

definition StrToHash256 :: "bytes \<Rightarrow> bytes \<Rightarrow> bytes res" where
  "StrToHash256 mem s =
     (if dropWhile isspace s = [] then Inl Undefined
      else
        let s1 = dropWhile isspace s;
            s2 = (if 2 < length s1 \<and> hd s1 = 48 \<and> tolower (s1 ! 1) = 120 then drop 2 s1 else s1);
            trailing = length (takeWhile isspace (rev s));
            sub_str = take (length s2 - trailing) s2 in
        if \<not> list_all isxdigit sub_str then Inl Assertion
        else res_bind (DecodeHex (if even (length sub_str) then sub_str else 48 # sub_str)) (\<lambda>vec.
          Inr (take 32 (rev vec) @ drop (length vec) mem)))"

subsection \<open>Digits\<close>

text \<open>The bytes that a text of hexadecimal digits writes, two digits each.\<close>

fun hex_bytes :: "bytes \<Rightarrow> bytes" where
  "hex_bytes (c # d # s) = (push_bit 4 (hex_value c) OR hex_value d) # hex_bytes s"
| "hex_bytes _ = []"

lemma isxdigit_not_space: "isxdigit c \<Longrightarrow> \<not> isspace c \<and> c \<noteq> 120 \<and> c \<noteq> 88"
  by (auto simp: isxdigit_def isdigit_def isspace_def word_le_nat_alt)

lemma DecodeHex_loop_digits:
  "list_all isxdigit s \<Longrightarrow> even (length s) \<Longrightarrow> DecodeHex_loop acc s = Inr (acc @ hex_bytes s)"
proof (induction s arbitrary: acc rule: hex_bytes.induct)
  case (1 c d s)
  then show ?case using isxdigit_not_space[of c] by (subst DecodeHex_loop.simps) simp
qed (auto simp: DecodeHex_loop.simps)

lemma length_hex_bytes: "length (hex_bytes s) = length s div 2"
  by (induction s rule: hex_bytes.induct) auto

lemma hex_bytes_EncodeHex: "hex_bytes (EncodeHex bs) = bs"
proof -
  have "hex_bytes (EncodeHex_loop False f bs) = bs" for f
    using hexmap_lookup nibbles by (induction bs arbitrary: f) auto
  then show ?thesis by (simp add: EncodeHex_def)
qed

lemma EncodeHex_digits: "list_all isxdigit (EncodeHex bs)"
proof -
  have "list_all isxdigit (EncodeHex_loop False f bs)" for f
    using hexmap_lookup nibbles(1,2) by (induction bs arbitrary: f) auto
  then show ?thesis by (simp add: EncodeHex_def)
qed

lemma not_x: "isxdigit c \<or> isspace c \<Longrightarrow> tolower c \<noteq> 120"
  using isxdigit_not_space[of c] by (auto simp: tolower_def isspace_def word_le_nat_alt unat_word_ariths split: if_splits)

lemma takeWhile_all_append: "list_all P xs \<Longrightarrow> \<not> P y \<Longrightarrow> takeWhile P (xs @ y # ys) = xs"
  by (induction xs) auto

lemma dropWhile_all_append: "list_all P xs \<Longrightarrow> \<not> P y \<Longrightarrow> dropWhile P (xs @ y # ys) = y # ys"
  by (induction xs) auto

lemma StrToHash256_digits:
  assumes "list_all isspace pre" "list_all isspace post" "list_all isxdigit ds" "ds \<noteq> []"
    "p = [] \<or> p = [48, 120] \<or> p = [48, 88]"
  shows "StrToHash256 mem (pre @ p @ ds @ post) =
    Inr (take 32 (rev (hex_bytes (if even (length ds) then ds else 48 # ds))) @ drop ((length ds + 1) div 2) mem)"
proof -
  obtain d ds' where ds: "ds = d # ds'" "isxdigit d" using assms(3,4) by (cases ds) auto
  obtain es e where es: "ds = es @ [e]" "isxdigit e" using assms(3,4) by (cases ds rule: rev_cases) auto
  have s1: "dropWhile isspace (pre @ p @ ds @ post) = p @ ds @ post"
    using assms(5) ds dropWhile_all_append[OF assms(1)] isxdigit_not_space[OF ds(2)]
    by (auto simp: isspace_def)
  have "takeWhile isspace (rev post @ e # rev es @ rev p @ rev pre) = rev post"
    using isxdigit_not_space[OF es(2)] assms(2) by (intro takeWhile_all_append) auto
  then have trailing: "length (takeWhile isspace (rev (pre @ p @ ds @ post))) = length post" by (simp add: es(1))
  let ?s1 = "p @ ds @ post"
  have s2: "(if 2 < length ?s1 \<and> hd ?s1 = 48 \<and> tolower (?s1 ! 1) = 120 then drop 2 ?s1 else ?s1) = ds @ post"
  proof (cases "p = []")
    case True
    have "tolower ((ds @ post) ! 1) \<noteq> 120" if "2 < length (ds @ post)"
    proof -
      have "(ds @ post) ! 1 \<in> set (ds @ post)" using that by (intro nth_mem) simp
      then show ?thesis using assms(2,3) not_x by (auto simp: list_all_iff)
    qed
    then show ?thesis using True by auto
  next
    case False
    then show ?thesis using assms(4,5) by (cases ds) (auto simp: tolower_def)
  qed
  have digits: "list_all isxdigit (48 # ds)" using assms(3) by (simp add: isxdigit_def isdigit_def)
  have "DecodeHex (if even (length ds) then ds else 48 # ds) = Inr (hex_bytes (if even (length ds) then ds else 48 # ds))"
    using DecodeHex_loop_digits[of ds "[]"] DecodeHex_loop_digits[of "48 # ds" "[]"] assms(3) digits
    by (simp add: DecodeHex_def)
  moreover have "length (hex_bytes (if even (length ds) then ds else 48 # ds)) = (length ds + 1) div 2"
    by (simp add: length_hex_bytes del: hex_bytes.simps)
  moreover have "ds @ post \<noteq> []" "p @ ds @ post \<noteq> []" using assms(4) by auto
  moreover have "take (length (ds @ post) - length post) (ds @ post) = ds" by simp
  ultimately show ?thesis
    unfolding StrToHash256_def Let_def s1 s2 trailing using assms(3)
    by (cases "even (length ds)") (simp_all del: hex_bytes.simps)
qed

text \<open>The number that a text of digits writes.\<close>

definition hex_number :: "bytes \<Rightarrow> nat" where
  "hex_number ds = foldl (\<lambda>n d. 16 * n + unat (hex_value d)) 0 ds"

lemma hex_value_small: "isxdigit d \<Longrightarrow> hex_value d < 16"
proof -
  assume d: "isxdigit d"
  have "\<forall>k\<in>set [0..<256]. isxdigit (of_nat k) \<longrightarrow> hex_value (of_nat k) < 16" by code_simp
  moreover have "unat d \<in> set [0..<256]" using unat_lt2p[of d] by simp
  ultimately have "isxdigit (of_nat (unat d)) \<longrightarrow> hex_value (of_nat (unat d)) < 16" by (rule bspec)
  then show ?thesis using d by simp
qed

lemma hex_byte:
  assumes "isxdigit c" "isxdigit d"
  shows "push_bit 4 (hex_value c) OR hex_value d = of_nat (16 * unat (hex_value c) + unat (hex_value d))"
proof -
  have "\<forall>a\<in>set [0..<16]. \<forall>b\<in>set [0..<16]. push_bit 4 (of_nat a) OR of_nat b = (of_nat (16 * a + b) :: u8)" by code_simp
  moreover have "unat (hex_value x) < 16" if "isxdigit x" for x using hex_value_small[OF that] by (simp add: word_less_nat_alt)
  ultimately have "push_bit 4 (of_nat (unat (hex_value c))) OR of_nat (unat (hex_value d)) =
      (of_nat (16 * unat (hex_value c) + unat (hex_value d)) :: u8)"
    using assms by (metis atLeastLessThan_iff set_upt zero_le)
  then show ?thesis by simp
qed

lemma hex_bytes_snoc: "even (length s) \<Longrightarrow> hex_bytes (s @ [c, d]) = hex_bytes s @ [push_bit 4 (hex_value c) OR hex_value d]"
  by (induction s rule: hex_bytes.induct) auto

lemma hex_number_less: "list_all isxdigit s \<Longrightarrow> hex_number s < 16 ^ length s"
proof (induction s rule: rev_induct)
  case (snoc d s)
  then have "hex_number s < 16 ^ length s" "unat (hex_value d) < 16"
    using hex_value_small[of d] by (auto simp: word_less_nat_alt)
  then show ?case by (simp add: hex_number_def)
qed (simp add: hex_number_def)

lemma hex_number_zeros: "hex_number (48 # s) = hex_number s"
  by (simp add: hex_number_def hex_value_def isdigit_def)

text \<open>The bytes from the last one on are the number in base 256.\<close>

lemma rev_hex_bytes:
  "list_all isxdigit s \<Longrightarrow> length s = 2 * n \<Longrightarrow> rev (hex_bytes s) = map (\<lambda>i. of_nat (hex_number s div 256 ^ i)) [0..<n]"
proof (induction n arbitrary: s)
  case (Suc n)
  obtain t d where t: "s = t @ [d]" "length t = Suc (2 * n)" using Suc.prems(2) by (cases s rule: rev_cases) auto
  obtain r c where r: "t = r @ [c]" "length r = 2 * n" using t(2) by (cases t rule: rev_cases) auto
  have s: "s = r @ [c, d]" "list_all isxdigit r" "isxdigit c" "isxdigit d" using t(1) r(1) Suc.prems(1) by simp_all
  let ?v = "16 * unat (hex_value c) + unat (hex_value d)"
  have num: "hex_number s = 256 * hex_number r + ?v" by (simp add: s(1) hex_number_def)
  have small: "?v < 256"
    using hex_value_small[OF s(3)] hex_value_small[OF s(4)] by (simp add: word_less_nat_alt)
  have "of_nat (256 * hex_number r + ?v) = (of_nat ?v :: u8)" by (simp only: word_of_nat_eq_iff take_bit_nat_def) simp
  moreover have "(256 * hex_number r + ?v) div 256 ^ Suc i = hex_number r div 256 ^ i" for i
    using small by (simp add: div_mult2_eq)
  ultimately have "map (\<lambda>i. of_nat (hex_number s div 256 ^ i)) [0..<Suc n] =
      (of_nat ?v :: u8) # map (\<lambda>i. of_nat (hex_number r div 256 ^ i)) [0..<n]"
    unfolding num by (simp only: upt_conv_Cons zero_less_Suc map_Suc_upt[symmetric] list.map map_map comp_def power_0 div_by_1)
  then show ?case
    using Suc.IH[OF s(2) r(2)] hex_byte[OF s(3,4)] r(2) by (simp add: s(1) hex_bytes_snoc del: upt_Suc)
qed simp

text \<open>C27: White space around a number and a leading \<^verbatim>\<open>0x\<close> are ignored, and the result is the number in 32 bytes, least
  significant first, modulo 2 to the power of 256: for a text of at least 63 digits whatever was in the memory of
  the result, and for a shorter one if that memory was zero.  So the text of a hash gives the hash.\<close>
theorem StrToHash256_exact:
  assumes "list_all isspace pre" "list_all isspace post" "list_all isxdigit ds" "ds \<noteq> []"
    "p = [] \<or> p = [48, 120] \<or> p = [48, 88]" "length mem = 32" "63 \<le> length ds \<or> mem = replicate 32 0"
  shows "StrToHash256 mem (pre @ p @ ds @ post) = Inr (map (\<lambda>i. of_nat (hex_number ds div 256 ^ i)) [0..<32]) \<and>
    (length h = 32 \<longrightarrow> StrToHash256 mem (pre @ p @ EncodeHex (rev h) @ post) = Inr h)"
proof -
  let ?es = "if even (length ds) then ds else 48 # ds" and ?f = "\<lambda>i. of_nat (hex_number ds div 256 ^ i) :: u8"
  define n where "n = (length ds + 1) div 2"
  have es: "list_all isxdigit ?es" "length ?es = 2 * n" "hex_number ?es = hex_number ds"
    using assms(3) by (auto simp: n_def isxdigit_def isdigit_def hex_number_zeros)
  have bytes: "rev (hex_bytes ?es) = map ?f [0..<n]" using rev_hex_bytes[OF es(1,2)] es(3) by simp
  have "take 32 (map ?f [0..<n]) @ drop n mem = map ?f [0..<32]"
  proof (cases "32 \<le> n")
    case True
    then show ?thesis using assms(6) by (simp add: take_map)
  next
    case False
    then have mem: "mem = replicate 32 0" using assms(7) by (auto simp: n_def)
    have "hex_number ds < 256 ^ n" using hex_number_less[OF es(1)] es(2,3) by (simp add: power_mult)
    moreover have "256 ^ n \<le> (256 :: nat) ^ i" if "n \<le> i" for i using that by (intro power_increasing) simp_all
    ultimately have "?f i = 0" if "n \<le> i" for i using less_le_trans[of "hex_number ds" "256 ^ n" "256 ^ i"] that by simp
    then have "map ?f [n..<32] = replicate (32 - n) 0" by (intro replicate_eqI) auto
    then have "map ?f [0..<32] = map ?f [0..<n] @ replicate (32 - n) 0"
      using False upt_add_eq_append[of 0 n "32 - n"] by simp
    then show ?thesis using False by (simp add: mem)
  qed
  moreover have "StrToHash256 mem (pre @ p @ EncodeHex (rev h) @ post) = Inr h" if "length h = 32"
  proof -
    have "EncodeHex (rev h) \<noteq> []" using that length_EncodeHex[of "rev h"] by force
    then show ?thesis
      using StrToHash256_digits[OF assms(1,2) EncodeHex_digits _ assms(5), of "rev h" mem] that assms(6)
      by (simp add: hex_bytes_EncodeHex)
  qed
  ultimately show ?thesis using StrToHash256_digits[OF assms(1-5), of mem] bytes by (simp add: n_def)
qed

text \<open>The short number of the unit test.\<close>

lemma StrToHash256_exact_witness:
  "StrToHash256 (replicate 32 0) [32, 48, 120, 49, 50, 51, 10] = Inr ([0x23, 0x01] @ replicate 30 0)"
proof -
  have "hex_number [49, 50, 51] = 291" by (simp add: hex_number_def hex_value_def isdigit_def)
  moreover have "[0..<32] = [0, 1] @ [2..<32]" by (simp add: upt_rec)
  moreover have "(of_nat (291 div 256 ^ i) :: u8) = 0" if "2 \<le> i" for i :: nat
    using power_increasing[OF that, of "256 :: nat"] by simp
  then have "map (\<lambda>i. of_nat (291 div 256 ^ i)) [2..<32] = (replicate 30 0 :: bytes)" by (intro replicate_eqI) auto
  ultimately have h: "map (\<lambda>i. of_nat (hex_number [49, 50, 51] div 256 ^ i)) [0..<32] = ([0x23, 0x01] @ replicate 30 0 :: bytes)"
    by simp
  show ?thesis
    using StrToHash256_exact[of "[32]" "[10]" "[49, 50, 51]" "[48, 120]" "replicate 32 0" "[]"] h
    by (simp add: isspace_def isxdigit_def isdigit_def del: upt_Suc)
qed

subsection \<open>Parameters of the chains\<close>

text \<open>The consensus parameters are those of \<open>Block\<close>; the rate of transactions, a floating point number that
  nothing reads, is left out.\<close>

record chain_params =
  base58_prefixes :: "bytes list"
  bech32_hrp :: bytes
  checkpoints :: "(u32 \<times> bytes) list"
  tx_data :: "u64 \<times> u64"

definition main_checkpoints :: "(u32 \<times> bytes) list" where
  "main_checkpoints =
     [(11111, ascii ''0x0000000069e244f73d78e8fd29ba2fd2ed618bd6fa2ee92559f542fdb26e7c1d''),
      (33333, ascii ''0x000000002dd5588a74784eaa7ab0507a18ad16a236e7b1ce69f00d7ddfb5d0a6''),
      (74000, ascii ''0x0000000000573993a3c9e41ce34471c079dcf5f52a0e824a81e7f953b8661a20''),
      (105000, ascii ''0x00000000000291ce28027faea320c8d2b054b2e0fe44a773f3eefb151d6bdc97''),
      (134444, ascii ''0x00000000000005b12ffd4cd315cd34ffd4a594f430ac814c91184a0d42d2b0fe''),
      (168000, ascii ''0x000000000000099e61ea72015e79632f216fe6cb33d7899acb35b75c8303b763''),
      (193000, ascii ''0x000000000000059f452a5f7340de6682a977387c17010ff6e6c3bd83ca8b1317''),
      (210000, ascii ''0x000000000000048b95347e83192f69cf0366076336c639f9b7228e9ba171342e''),
      (216116, ascii ''0x00000000000001b4f4b433e81ee46494af945cf96014816a4e2370f11b23df4e''),
      (225430, ascii ''0x00000000000001c108384350f74090433e7fcf79a606b8e797f065b130575932''),
      (250000, ascii ''0x000000000000003887df1f29024b06fc2200b55f8af8f35453d7be294df2d214''),
      (279000, ascii ''0x0000000000000001ae8c72a0b0c301f67e3afca10e819efa9041e458e9bd7e40''),
      (295000, ascii ''0x00000000000000004d9b4ef50f0f9d686fd69db2e03af35a100370c64632a983'')]"

definition test_checkpoints :: "(u32 \<times> bytes) list" where
  "test_checkpoints = [(546, ascii ''000000002a936ca763904c3c35fce2f3556c559c0214345d31b1bcebf76acb70'')]"

definition regtest_checkpoints :: "(u32 \<times> bytes) list" where
  "regtest_checkpoints = [(0, ascii ''0f9188f13cb7b2c71f2a335e3a4fc328bf5beb436012afca590b1a11466e2206'')]"

fun set_checkpoints :: "bytes \<Rightarrow> (u32 \<times> bytes) list \<Rightarrow> chain_params \<Rightarrow> chain_params res" where
  "set_checkpoints mem [] p = Inr p"
| "set_checkpoints mem ((h, s) # cs) p =
     res_bind (StrToHash256 mem s) (\<lambda>hash. set_checkpoints mem cs (p\<lparr>checkpoints := checkpoints p @ [(h, hash)]\<rparr>))"

definition ChainParams_new :: "bytes \<Rightarrow> btcnet \<Rightarrow> chain_params res" where
  "ChainParams_new mem net =
     (let p = \<lparr>base58_prefixes = replicate 5 [], bech32_hrp = [], checkpoints = [], tx_data = (0, 0)\<rparr>;
          test_prefixes = [[111], [196], [239], [0x04, 0x35, 0x87, 0xCF], [0x04, 0x35, 0x83, 0x94]] in
      case net of
        kMainNet \<Rightarrow>
          set_checkpoints mem main_checkpoints
            (p\<lparr>base58_prefixes := [[0], [5], [128], [0x04, 0x88, 0xB2, 0x1E], [0x04, 0x88, 0xAD, 0xE4]],
               bech32_hrp := ascii ''bc'', tx_data := (1516903077, 295363220)\<rparr>)
      | kTestNet \<Rightarrow>
          set_checkpoints mem test_checkpoints
            (p\<lparr>base58_prefixes := test_prefixes, bech32_hrp := ascii ''tb'', tx_data := (1516903490, 17082348)\<rparr>)
      | kRegTest \<Rightarrow>
          set_checkpoints mem regtest_checkpoints
            (p\<lparr>base58_prefixes := test_prefixes, bech32_hrp := ascii ''bcrt'', tx_data := (0, 0)\<rparr>)
      | kNone \<Rightarrow> Inr p)"

text \<open>Every checkpoint is written with all of its digits, so the tables do not depend on memory.\<close>

definition hex_digits :: string where
  "hex_digits = ''0123456789abcdef''"

definition full_text :: "string \<Rightarrow> bool" where
  "full_text s =
     (let ds = (if take 2 s = ''0x'' then drop 2 s else s) in
      length ds = 64 \<and> list_all (\<lambda>c. c \<in> set hex_digits) ds)"

lemma ascii_digit: "c \<in> set hex_digits \<Longrightarrow> isxdigit (of_char c)"
  by (auto simp: hex_digits_def isxdigit_def isdigit_def)

lemma StrToHash256_full:
  assumes "full_text s" "length mem = 32"
  shows "StrToHash256 mem (ascii s) = StrToHash256 (replicate 32 0) (ascii s) \<and> res_ok (StrToHash256 mem (ascii s))"
proof -
  obtain p ds where s: "s = p @ ds" "p = [] \<or> p = ''0x''" "length ds = 64" "list_all (\<lambda>c. c \<in> set hex_digits) ds"
  proof (cases "take 2 s = ''0x''")
    case True
    then show ?thesis using that[of "''0x''" "drop 2 s"] assms(1) append_take_drop_id[of 2 s] by (simp add: full_text_def)
  next
    case False
    then show ?thesis using that[of "[]" s] assms(1) by (simp add: full_text_def)
  qed
  have "list_all isxdigit (ascii ds)" using s(4) ascii_digit by (auto simp: ascii_def list_all_iff)
  moreover have "ascii p = [] \<or> ascii p = [48, 120]" using s(2) by (auto simp: ascii_def)
  ultimately have "StrToHash256 m (ascii s) = Inr (take 32 (rev (hex_bytes (ascii ds))) @ drop 32 m)" for m
    using StrToHash256_digits[of "[]" "[]" "ascii ds" "ascii p" m] s(1,3) by (force simp: ascii_def)
  then show ?thesis using assms(2) by simp
qed

lemma set_checkpoints_full:
  "list_all (\<lambda>(h, s). \<exists>t. s = ascii t \<and> full_text t) cs \<Longrightarrow> length mem = 32 \<Longrightarrow>
    \<exists>r. set_checkpoints mem cs p = Inr r \<and> set_checkpoints (replicate 32 0) cs p = Inr r"
proof (induction cs arbitrary: p)
  case (Cons c cs)
  obtain h t where c: "c = (h, ascii t)" "full_text t" using Cons.prems(1) by (cases c) auto
  obtain hash where "StrToHash256 mem (ascii t) = Inr hash" "StrToHash256 (replicate 32 0) (ascii t) = Inr hash"
    using StrToHash256_full[OF c(2) Cons.prems(2)] by (metis res_okD)
  then show ?case using Cons.IH Cons.prems c(1) by simp
qed simp

lemma checkpoints_full:
  "list_all (\<lambda>(h, s). \<exists>t. s = ascii t \<and> full_text t) (main_checkpoints @ test_checkpoints @ regtest_checkpoints)"
  unfolding main_checkpoints_def test_checkpoints_def regtest_checkpoints_def append.simps list.pred_inject prod.case
  by (intro conjI list.pred_inject(1) TrueI; (rule exI, rule conjI, rule refl, simp add: full_text_def hex_digits_def)?)

text \<open>The tables of every network are built without a failure and depend on no uninitialised byte.\<close>

lemma ChainParams_total:
  assumes "length mem = 32"
  shows "\<exists>p. ChainParams_new mem net = Inr p \<and> ChainParams_new (replicate 32 0) net = Inr p"
proof -
  have full: "list_all (\<lambda>(h, s). \<exists>t. s = ascii t \<and> full_text t) main_checkpoints"
    "\<And>h s. (h, s) \<in> set test_checkpoints \<union> set regtest_checkpoints \<Longrightarrow> \<exists>t. s = ascii t \<and> full_text t"
    using checkpoints_full by (auto simp: list_all_iff test_checkpoints_def regtest_checkpoints_def)
  then have "list_all (\<lambda>(h, s). \<exists>t. s = ascii t \<and> full_text t) test_checkpoints"
    "list_all (\<lambda>(h, s). \<exists>t. s = ascii t \<and> full_text t) regtest_checkpoints"
    by (auto simp: list_all_iff)
  then show ?thesis using full(1) set_checkpoints_full[OF _ assms]
    by (cases net) (simp_all add: ChainParams_new_def Let_def del: set_checkpoints.simps)
qed

end
