(* ===== verification/Net_Lookup.thy ===== *)
theory Net_Lookup
  imports Sub_Net String_Encoding
begin

text \<open>
  Names and texts of hosts and subnets, \<^verbatim>\<open>src/network/src/net_base.cpp\<close>.  \<^verbatim>\<open>getaddrinfo\<close> is a parameter: for a
  name and whether it may ask a server it gives the list of results, or fails; an address structure is at
  least as long as its family demands, as documented.  A text is a C string, so without zero bytes.
\<close>

datatype addr_info = AfInet u32 | AfInet6 bytes u32 | AfOther

type_synonym resolver = "bytes \<Rightarrow> bool \<Rightarrow> addr_info list option"

definition resolve :: "addr_info \<Rightarrow> net_addr res" where
  "resolve ai =
     (case ai of AfInet w \<Rightarrow> SetIpv4 w NetAddr_new
      | AfInet6 b sc \<Rightarrow> res_bind (SetIpv6 b NetAddr_new) (\<lambda>a. Inr (NetAddr_set_scope_id sc a))
      | AfOther \<Rightarrow> Inr NetAddr_new)"

fun lookup_loop :: "nat \<Rightarrow> u16 \<Rightarrow> addr_info list \<Rightarrow> net_addr list \<Rightarrow> net_addr list res" where
  "lookup_loop max_solutions port [] out = Inr out"
| "lookup_loop max_solutions port (ai # ais) out =
     (if \<not> (max_solutions = 0 \<or> length out < max_solutions) then Inr out
      else res_bind (resolve ai) (\<lambda>a.
        lookup_loop max_solutions port ais (if \<not> IsInternal a then out @ [NetAddr_set_port port a] else out)))"

definition LookupIntern :: "resolver \<Rightarrow> bytes \<Rightarrow> nat \<Rightarrow> bool \<Rightarrow> u16 \<Rightarrow> (bool \<times> net_addr list) res" where
  "LookupIntern getai name max_solutions allow_lookup port =
     (case getai name allow_lookup of None \<Rightarrow> Inr (False, [])
      | Some ais \<Rightarrow> res_bind (lookup_loop max_solutions port ais []) (\<lambda>out. Inr (out \<noteq> [], out)))"

definition LookupHost ::
  "resolver \<Rightarrow> bytes \<Rightarrow> nat \<Rightarrow> bool \<Rightarrow> u16 \<Rightarrow> net_addr list \<Rightarrow> (bool \<times> net_addr list) res" where
  "LookupHost getai name max_solutions allow_lookup port out =
     (if name = [] then Inr (False, out)
      else
        let host = (if hd name = 91 \<and> last name = 93 then take (length name - 2) (drop 1 name) else name) in
        LookupIntern getai host max_solutions allow_lookup port)"

definition LookupHost_one :: "resolver \<Rightarrow> bytes \<Rightarrow> bool \<Rightarrow> u16 \<Rightarrow> net_addr \<Rightarrow> (bool \<times> net_addr) res" where
  "LookupHost_one getai name allow_lookup port out =
     res_bind (LookupHost getai name 1 allow_lookup port []) (\<lambda>(_, vip).
       case vip of [] \<Rightarrow> Inr (False, out) | a # _ \<Rightarrow> Inr (True, a))"

text \<open>The texts before and after the last slash.\<close>

definition before_slash :: "bytes \<Rightarrow> bytes" where
  "before_slash s = (if 47 \<in> set s then rev (tl (dropWhile (\<lambda>c. c \<noteq> 47) (rev s))) else s)"

definition after_slash :: "bytes \<Rightarrow> bytes" where
  "after_slash s = rev (takeWhile (\<lambda>c. c \<noteq> 47) (rev s))"

definition LookupSubNet :: "resolver \<Rightarrow> bytes \<Rightarrow> u16 \<Rightarrow> subnet \<Rightarrow> (bool \<times> subnet) res" where
  "LookupSubNet getai name port out =
     res_bind (LookupHost getai (before_slash name) 1 False port []) (\<lambda>(ok, vip).
       if \<not> ok then Inr (False, out)
       else case vip of [] \<Rightarrow> Inl Undefined
       | network # _ \<Rightarrow>
           if 47 \<notin> set name then Inr (sn_valid (SubNet_of network), SubNet_of network)
           else
             let mask_text = after_slash name in
             case DecodeInt32 mask_text of
               (True, Some n) \<Rightarrow> Inr (sn_valid (SubNet_bits network (sint n)), SubNet_bits network (sint n))
             | _ \<Rightarrow>
                 res_bind (LookupHost getai mask_text 1 False port vip) (\<lambda>(ok2, vip2).
                   if \<not> ok2 then Inr (False, out)
                   else case vip2 of [] \<Rightarrow> Inl Undefined
                   | m # _ \<Rightarrow> Inr (sn_valid (SubNet_mask network m), SubNet_mask network m)))"

subsection \<open>What is found\<close>

fun addr_info_ok :: "addr_info \<Rightarrow> bool" where
  "addr_info_ok (AfInet6 b sc) = (length b = 16)"
| "addr_info_ok _ = True"

definition resolver_ok :: "resolver \<Rightarrow> bool" where
  "resolver_ok getai = (\<forall>name allow ais. getai name allow = Some ais \<longrightarrow> list_all addr_info_ok ais)"

text \<open>The address of a result, and the addresses a caller gets.\<close>

fun addr_of :: "addr_info \<Rightarrow> net_addr" where
  "addr_of (AfInet w) = NetAddr_new\<lparr>ip := kPchIpv4 @ to_little_endian 4 w\<rparr>"
| "addr_of (AfInet6 b sc) = NetAddr_new\<lparr>ip := b, na_scope := sc\<rparr>"
| "addr_of AfOther = NetAddr_new"

lemma resolve_ok: "addr_info_ok ai \<Longrightarrow> resolve ai = Inr (addr_of ai)"
  by (cases ai) (simp_all add: resolve_def SetIpv4_new SetIpv6_new NetAddr_set_scope_id_def)

lemma addr_of_wf: "addr_info_ok ai \<Longrightarrow> addr_wf (addr_of ai)"
  by (cases ai) (simp_all add: addr_wf_def NetAddr_new_def kIpByteSize_def kPchIpv4_def)

definition found :: "u16 \<Rightarrow> addr_info list \<Rightarrow> net_addr list" where
  "found port ais = map (NetAddr_set_port port) (filter (\<lambda>a. \<not> IsInternal a) (map addr_of ais))"

lemma found_simps [simp]: "found port [] = []"
  "found port (ai # ais) = (if IsInternal (addr_of ai) then [] else [NetAddr_set_port port (addr_of ai)]) @ found port ais"
  by (simp_all add: found_def)

lemma lookup_loop_found:
  "list_all addr_info_ok ais \<Longrightarrow> n = 0 \<or> length out \<le> n \<Longrightarrow>
    lookup_loop n port ais out = Inr (out @ (if n = 0 then found port ais else take (n - length out) (found port ais)))"
proof (induction ais arbitrary: out)
  case (Cons ai ais)
  show ?case
  proof (cases "n \<noteq> 0 \<and> length out = n")
    case False
    then have "n = 0 \<or> length out < n" using Cons.prems(2) by auto
    then show ?thesis using Cons resolve_ok[of ai] by (auto simp: take_Cons')
  qed simp
qed simp

text \<open>A lookup gives the results of the system in their order, without internal addresses, with the port that was
  asked for, and no more than the limit.\<close>

lemma LookupIntern_found:
  "resolver_ok getai \<Longrightarrow> LookupIntern getai name n allow port =
    Inr (case getai name allow of None \<Rightarrow> (False, [])
         | Some ais \<Rightarrow> let r = (if n = 0 then found port ais else take n (found port ais)) in (r \<noteq> [], r))"
  by (auto simp: LookupIntern_def resolver_ok_def lookup_loop_found Let_def split: option.split)

lemma found_wf: "list_all addr_info_ok ais \<Longrightarrow> a \<in> set (found port ais) \<Longrightarrow> addr_wf a \<and> \<not> IsInternal a \<and> NetAddr_port a = port"
  by (auto simp: found_def list_all_iff NetAddr_set_port_def NetAddr_port_def addr_wf_def IsInternal_def memcmp_eq_def
      dest!: bspec addr_of_wf)

lemma LookupHost_total:
  assumes "resolver_ok getai"
  shows "\<exists>ok vip. LookupHost getai name n allow port out = Inr (ok, vip) \<and>
    (ok \<longrightarrow> vip \<noteq> [] \<and> (\<forall>a\<in>set vip. addr_wf a \<and> \<not> IsInternal a \<and> NetAddr_port a = port))"
proof (cases "name = []")
  case False
  let ?host = "if hd name = 91 \<and> last name = 93 then take (length name - 2) (drop 1 name) else name"
  show ?thesis
  proof (cases "getai ?host allow")
    case None
    then show ?thesis using False LookupIntern_found[OF assms, of ?host] by (auto simp: LookupHost_def Let_def)
  next
    case (Some ais)
    then have "list_all addr_info_ok ais" using assms by (simp add: resolver_ok_def)
    then show ?thesis using False Some LookupIntern_found[OF assms, of ?host n allow port] found_wf[of ais _ port]
      by (auto simp: LookupHost_def Let_def dest: in_set_takeD)
  qed
qed (auto simp: LookupHost_def)

subsection \<open>Subnets\<close>

lemma last_slash: "47 \<notin> set m \<Longrightarrow> before_slash (h @ 47 # m) = h \<and> after_slash (h @ 47 # m) = m"
proof -
  assume "47 \<notin> set m"
  then have "\<And>c. c \<in> set (rev m) \<Longrightarrow> c \<noteq> 47" by auto
  then have "takeWhile (\<lambda>c. c \<noteq> 47) (rev m @ 47 # rev h) = rev m" "dropWhile (\<lambda>c. c \<noteq> 47) (rev m @ 47 # rev h) = 47 # rev h"
    by (subst takeWhile_append2 dropWhile_append2; simp)+
  then show ?thesis by (simp add: before_slash_def after_slash_def)
qed

lemma sint_of_int32: "- (2 ^ 31) \<le> n \<Longrightarrow> n \<le> 2 ^ 31 - 1 \<Longrightarrow> sint (of_int n :: u32) = n"
  by (simp add: signed_of_int signed_take_bit_int_eq_self)

text \<open>C24: A text of an address, a slash and a number is read as the subnet of that prefix: it is accepted exactly when
  the number fits the family, and then matches exactly the valid addresses with the same leading bits.
  Names are never resolved for it.\<close>
theorem LookupSubNet_prefix:
  assumes "resolver_ok getai" "LookupHost getai host 1 False port [] = Inr (True, a # vip)" "47 \<notin> set m" "literal m"
    "- (2 ^ 31) \<le> literal_value m" "literal_value m \<le> 2 ^ 31 - 1"
  defines "n \<equiv> literal_value m"
  shows "\<exists>sn. LookupSubNet getai (host @ 47 # m) port out = Inr (0 \<le> n \<and> n \<le> 128 - 8 * int (first_byte a), sn) \<and>
    (\<forall>b. addr_wf b \<longrightarrow> Match sn b =
      (0 \<le> n \<and> n \<le> 128 - 8 * int (first_byte a) \<and> NetAddr_IsValid b \<and>
       (\<forall>k < nat n + 8 * first_byte a. addr_bit (ip b) k = addr_bit (ip a) k)))"
proof -
  have "DecodeInt32 m = (True, Some (of_int n))"
    using strict_decimal_parsing[of m "of_int n"] assms(4-6) by (simp add: n_def)
  then have "LookupSubNet getai (host @ 47 # m) port out = Inr (sn_valid (SubNet_bits a n), SubNet_bits a n)"
    using assms(2) last_slash[OF assms(3)] sint_of_int32[OF assms(5,6)] by (simp add: LookupSubNet_def n_def)
  moreover have "sn_valid (SubNet_bits a n) = (0 \<le> n \<and> n \<le> 128 - 8 * int (first_byte a))"
    by (auto simp: SubNet_bits_def Let_def mult.commute)
  moreover have "addr_wf a" using LookupHost_total[OF assms(1), of host 1 False port "[]"] assms(2) by auto
  ultimately show ?thesis using Match_prefix[of a] by (intro exI[of _ "SubNet_bits a n"]) auto
qed

definition numeric :: resolver where
  "numeric name allow = (if name = [49] then Some [AfInet 0x04030201] else None)"

lemma LookupSubNet_prefix_witness:
  "\<exists>sn. LookupSubNet numeric [49, 47, 50, 52] 8333 SubNet_new = Inr (True, sn) \<and>
     Match sn (NetAddr_new\<lparr>ip := kPchIpv4 @ [1, 2, 3, 4]\<rparr>)"
proof -
  let ?a = "NetAddr_new\<lparr>ip := kPchIpv4 @ [1, 2, 3, 4]\<rparr>"
  have rok: "resolver_ok numeric" by (simp add: resolver_ok_def numeric_def)
  have le: "to_little_endian 4 (0x04030201 :: u32) = [1, 2, 3, 4]" by code_simp
  have int: "\<not> IsInternal ?a" by code_simp
  have host: "LookupHost numeric [49] 1 False 8333 [] = Inr (True, [NetAddr_set_port 8333 ?a])"
    using LookupIntern_found[OF rok, of "[49]" 1 False 8333] int
    by (simp add: LookupHost_def Let_def numeric_def found_def le)
  have m: "literal [50, 52]" "literal_value [50, 52] = 24" by code_simp+
  have f: "first_byte (NetAddr_set_port 8333 ?a) = 12" "NetAddr_IsValid ?a" "ip (NetAddr_set_port 8333 ?a) = ip ?a"
    by code_simp+
  have "addr_wf ?a" by (simp add: addr_wf_def kIpByteSize_def kPchIpv4_def)
  then show ?thesis using LookupSubNet_prefix[OF rok host _ m(1), of SubNet_new] m(2) f by auto
qed

end
