(* ===== verification/P2P_Start.thy ===== *)
theory P2P_Start
  imports Connections
begin

text \<open>
  Starting and stopping the peer-to-peer layer: \<^verbatim>\<open>src/network/src/p2p.cpp\<close>, and connecting to hosts by name of
  \<^verbatim>\<open>src/network/src/connector.cpp\<close>.  What the files \<^verbatim>\<open>peers.dat\<close> and \<^verbatim>\<open>banlist.dat\<close> hold is an argument, and what is
  written to them a result; whether the events of libevent and the timer could be made is an argument too.
\<close>

subsection \<open>Starting\<close>

text \<open>\<^verbatim>\<open>ConnectNodes\<close> for names: a name that gives no address is kept as the default address.\<close>

fun host_addrs :: "(tick \<times> string \<times> net_addr list option) list \<Rightarrow> world \<Rightarrow> (net_addr list \<times> world) res" where
  "host_addrs [] w = Inr ([], w)"
| "host_addrs ((e, host, looked_up) # xs) w =
     res_bind (GetHostAddr e host looked_up w) (\<lambda>(r, w1).
     res_bind (host_addrs xs w1) (\<lambda>(addrs, w2).
       Inr ((case r of Some a \<Rightarrow> a | None \<Rightarrow> NetAddr_new) # addrs, w2)))"

definition ConnectNodes_names ::
  "lib \<Rightarrow> (tick \<times> string \<times> net_addr list option) list \<Rightarrow> (tick \<times> nat option \<times> bool) list \<Rightarrow> bool \<Rightarrow> bool \<Rightarrow> world \<Rightarrow>
   (bool \<times> world) res" where
  "ConnectNodes_names l hosts outcomes base manual w =
     (if hosts = [] then Inr (False, w)
      else res_bind (host_addrs hosts w) (\<lambda>(addrs, w1). Inr (ConnectNodes l (zip addrs outcomes) base manual True w1)))"

definition P2P_Start ::
  "lib \<Rightarrow> (tick \<times> string \<times> net_addr list option) list \<Rightarrow> (tick \<times> nat option \<times> bool) list \<Rightarrow> bool \<Rightarrow> bool \<Rightarrow> world \<Rightarrow>
   (bool \<times> world) res" where
  "P2P_Start l specified outcomes base timer w =
     (if specified \<noteq> [] then
        res_bind (ConnectNodes_names l specified outcomes base True w) (\<lambda>(ok, w1). Inr (ok, w1))
      else Inr (timer, w))"

text \<open>\<^verbatim>\<open>Init\<close>: the last two results are what is written to the files, if anything is.\<close>

record p2p_files =
  f_peers :: "(bool \<times> peers) option"
  f_bans :: "(bool \<times> ban_map) option"

definition P2P_Init ::
  "lib \<Rightarrow> tick \<Rightarrow> bool \<Rightarrow> interface list option \<Rightarrow> bool \<Rightarrow> bool \<Rightarrow> bool \<Rightarrow> p2p_files \<Rightarrow> world \<Rightarrow>
   (bool \<times> peers option \<times> ban_map option \<times> world) res" where
  "P2P_Init l e discover ifs acceptor connector written files w =
     (let w1 = (if discover then w\<lparr>w_local_addrs := snd (DiscoverLocalAddrs ifs (w_local_addrs w))\<rparr> else w) in
      if \<not> acceptor then Inr (False, None, None, w1)
      else if \<not> connector then Inr (False, None, None, w1)
      else
        let (loaded, ps) = LoadPeers (f_peers files) (w_peers w1);
            w2 = w1\<lparr>w_peers := (if loaded then ps else Peers_Clear ps)\<rparr>;
            dumped = (if loaded then None else snd (DumpPeers written (w_peers w2)));
            (loaded_bans, bs) = LoadBanList (f_bans files) (w_bans w2) in
        if loaded_bans then
          res_bind (SweepBanned (t_now e) bs) (\<lambda>swept. Inr (True, dumped, None, w2\<lparr>w_bans := swept\<rparr>))
        else
          res_bind (DumpBanList (t_now e) written bs) (\<lambda>(_, f). Inr (True, dumped, f, w2\<lparr>w_bans := bs\<rparr>)))"

definition P2P_Stop :: "tick \<Rightarrow> bool \<Rightarrow> bool \<Rightarrow> world \<Rightarrow> (peers option \<times> ban_map option) res" where
  "P2P_Stop e ok1 ok2 w =
     (let (_, ps) = DumpPeers ok1 (w_peers w) in
      res_bind (DumpBanList (t_now e) ok2 (w_bans w)) (\<lambda>(_, bs). Inr (ps, bs)))"

subsection \<open>A restart\<close>

definition unexpired :: "int \<Rightarrow> ban_map \<Rightarrow> bool" where
  "unexpired now m = list_all (\<lambda>(k, e). now \<le> ban_until e) m"

lemma SweepBanned_unexpired: "SweepBanned now m = (if unexpired now m then Inr m else Inl Undefined)"
  by (simp add: SweepBanned_def sweep_loop_eq unexpired_def)

lemma DumpBanList_unexpired:
  "DumpBanList now ok m = (if unexpired now m then Inr (if ok then (True, Some m) else (False, None)) else Inl Undefined)"
  by (simp add: DumpBanList_def SweepBanned_unexpired)

text \<open>C25: Stopping and starting again keeps the bans and the known peers, but only when no ban has run out by then: a
  node whose list has an expired entry cannot be stopped or started without undefined behaviour.  The
  order in which peers are handed out is lost.\<close>
theorem restart_exact:
  "if unexpired (t_now e) (w_bans w)
   then (\<exists>pf bf. P2P_Stop e True True w = Inr (Some pf, Some bf) \<and>
     (let r = P2P_Init l e2 discover ifs True True written \<lparr>f_peers = Some (True, pf), f_bans = Some (True, bf)\<rparr> w0 in
      if unexpired (t_now e2) (w_bans w)
      then (\<exists>w'. r = Inr (True, None, None, w') \<and> (\<forall>a now. IsBanned b32 now a (w_bans w') = IsBanned b32 now a (w_bans w)) \<and>
        map_peers (w_peers w') = map_peers (w_peers w) \<and> new_tbl (w_peers w') = new_tbl (w_peers w) \<and>
        tried_tbl (w_peers w') = tried_tbl (w_peers w) \<and> rand_order_keys (w_peers w') = [] \<and>
        w_inbounds w' = w_inbounds w0 \<and> w_outbounds w' = w_outbounds w0)
      else r = Inl Undefined))
   else P2P_Stop e True True w = Inl Undefined"
proof -
  have stop: "P2P_Stop e True True w =
      (if unexpired (t_now e) (w_bans w) then Inr (Some (w_peers w), Some (w_bans w)) else Inl Undefined)"
    by (simp add: P2P_Stop_def DumpPeers_def DumpBanList_unexpired)
  show ?thesis
    by (auto simp: stop P2P_Init_def Let_def LoadPeers_def LoadBanList_def Peers_Parse_def SweepBanned_unexpired Peers_Clear_def)
qed

text \<open>A host that cannot be resolved makes the whole start fail, although the others are connected to.\<close>

lemma ConnectNodes_False: "fst (ConnectNodes l xs base manual False w) = False"
  by (induction l xs base manual "False" w rule: ConnectNodes.induct) (auto split: prod.split)

lemma ConnectNodes_invalid:
  "(addr, x) \<in> set xs \<Longrightarrow> \<not> NetAddr_IsValid addr \<Longrightarrow> \<not> fst (ConnectNodes l xs base manual ret w)"
proof (induction l xs base manual ret w rule: ConnectNodes.induct)
  case (2 l a e bev connected xs base manual ret w)
  show ?case
  proof (cases "(addr, x) = (a, e, bev, connected)")
    case True
    then have "\<not> fst (ConnectNode l e a base bev connected manual w)" using 2(3) by (simp add: ConnectNode_def)
    then show ?thesis using ConnectNodes_False by (auto split: prod.split)
  next
    case False
    obtain ok w1 where c: "ConnectNode l e a base bev connected manual w = (ok, w1)" by fastforce
    then have "\<not> fst (ConnectNodes l xs base manual (ret \<and> ok) w1)" using 2(1)[OF c[symmetric] refl] 2(2,3) False by auto
    then show ?thesis using c by simp
  qed
qed simp

lemma host_addrs_unresolved:
  "host_addrs hosts w = Inr (addrs, w') \<Longrightarrow> k < length hosts \<Longrightarrow> snd (snd (hosts ! k)) = None \<Longrightarrow>
    length addrs = length hosts \<and> addrs ! k = NetAddr_new"
proof (induction hosts arbitrary: w addrs w' k)
  case (Cons x hosts)
  obtain e host lk where x: "x = (e, host, lk)" by (cases x) auto
  obtain r w1 as where as: "GetHostAddr e host lk w = Inr (r, w1)" "host_addrs hosts w1 = Inr (as, w')"
      "addrs = (case r of Some a \<Rightarrow> a | None \<Rightarrow> NetAddr_new) # as"
    using Cons.prems(1) by (auto simp: x res_bind_eq_Inr)
  have len: "host_addrs hosts v = Inr (bs, v') \<Longrightarrow> length bs = length hosts" for v bs v'
    by (induction hosts arbitrary: v bs v') (auto simp: res_bind_eq_Inr)
  show ?case
  proof (cases k)
    case 0
    then have "r = None" using Cons.prems(3) as(1) by (simp add: x GetHostAddr_def)
    then show ?thesis using 0 as(3) len[OF as(2)] by simp
  next
    case (Suc j)
    then show ?thesis using Cons.IH[OF as(2), of j] Cons.prems(2,3) as(3) by simp
  qed
qed simp

lemma P2P_Start_unresolved:
  assumes "P2P_Start l hosts outcomes base timer w = Inr (ok, w')" "k < length hosts" "snd (snd (hosts ! k)) = None"
    "length outcomes = length hosts"
  shows "\<not> ok"
proof -
  obtain addrs w1 where a: "host_addrs hosts w = Inr (addrs, w1)"
      "ConnectNodes l (zip addrs outcomes) base True True w1 = (ok, w')"
    using assms(1,2) by (auto simp: P2P_Start_def ConnectNodes_names_def res_bind_eq_Inr split: if_splits)
  have k: "length addrs = length hosts" "addrs ! k = NetAddr_new" using host_addrs_unresolved[OF a(1) assms(2,3)] by auto
  then have "(NetAddr_new, outcomes ! k) \<in> set (zip addrs outcomes)" using assms(2,4) by (force simp: set_zip)
  moreover have "\<not> NetAddr_IsValid NetAddr_new" by code_simp
  ultimately show ?thesis using ConnectNodes_invalid[of NetAddr_new "outcomes ! k"] a(2) by (metis fst_conv)
qed

end
