(* ===== verification/Sync_Counters.thy ===== *)
theory Sync_Counters
  imports Prelude
begin

text \<open>
  The bookkeeping of block download in \<^verbatim>\<open>src/network/include/node.h\<close>: \<^verbatim>\<open>BlockSyncTimeout\<close>, \<^verbatim>\<open>BlockSyncState1\<close> and
  \<^verbatim>\<open>NodeBlocksInFlight\<close>, whose setters keep three static counters over all nodes.  Nodes are numbers, and
  a number is used once; block indexes are addresses.  The counters are \<^verbatim>\<open>int\<close>s.
\<close>

record sync_node =
  sy_timeout :: int
  sy_work_header :: "nat option"
  sy_sent_getheaders :: bool
  sy_protect :: bool
  sy_sync_started :: bool
  sy_best_known :: "nat option"
  sy_last_common :: "nat option"
  sy_best_header_sent :: "nat option"
  sy_num_valid_headers :: int

definition sync_node_new :: sync_node where
  "sync_node_new =
     \<lparr>sy_timeout = 0, sy_work_header = None, sy_sent_getheaders = False, sy_protect = False, sy_sync_started = False,
      sy_best_known = None, sy_last_common = None, sy_best_header_sent = None, sy_num_valid_headers = 0\<rparr>"

record sync_counts =
  sc_node :: "nat \<Rightarrow> sync_node"
  NumProtected :: int
  NumSyncStarted :: int
  NumValidatedDownload :: int

definition sync_counts_new :: sync_counts where
  "sync_counts_new = \<lparr>sc_node = (\<lambda>_. sync_node_new), NumProtected = 0, NumSyncStarted = 0, NumValidatedDownload = 0\<rparr>"

definition set_protect :: "nat \<Rightarrow> bool \<Rightarrow> sync_counts \<Rightarrow> sync_counts" where
  "set_protect i b s =
     (let n = NumProtected s - of_bool (sy_protect (sc_node s i)) in
      s\<lparr>sc_node := (sc_node s)(i := (sc_node s i)\<lparr>sy_protect := b\<rparr>), NumProtected := n + of_bool b\<rparr>)"

definition set_sync_started :: "nat \<Rightarrow> bool \<Rightarrow> sync_counts \<Rightarrow> sync_counts" where
  "set_sync_started i b s =
     (let n = NumSyncStarted s - of_bool (sy_sync_started (sc_node s i)) in
      s\<lparr>sc_node := (sc_node s)(i := (sc_node s i)\<lparr>sy_sync_started := b\<rparr>), NumSyncStarted := n + of_bool b\<rparr>)"

definition set_num_valid_headers :: "nat \<Rightarrow> int \<Rightarrow> sync_counts \<Rightarrow> sync_counts" where
  "set_num_valid_headers i k s =
     (let n = NumValidatedDownload s - of_bool (0 < sy_num_valid_headers (sc_node s i)) in
      s\<lparr>sc_node := (sc_node s)(i := (sc_node s i)\<lparr>sy_num_valid_headers := k\<rparr>), NumValidatedDownload := n + of_bool (0 < k)\<rparr>)"

subsection \<open>A counter of a flag\<close>

locale counted_flag =
  fixes flag :: "'s \<Rightarrow> nat \<Rightarrow> bool" and count :: "'s \<Rightarrow> int" and put :: "nat \<Rightarrow> 'v \<Rightarrow> 's \<Rightarrow> 's" and val :: "'v \<Rightarrow> bool"
  assumes flag_put: "flag (put i v s) j = (if j = i then val v else flag s j)"
    and count_put: "count (put i v s) = count s - of_bool (flag s i) + of_bool (val v)"
begin

lemma flags_put: "{j. flag (put i v s) j} = (if val v then insert i {j. flag s j} else {j. flag s j} - {i})"
  by (auto simp: flag_put)

lemma exact_put:
  assumes "finite {j. flag s j}" "count s = int (card {j. flag s j})"
  shows "finite {j. flag (put i v s) j} \<and> count (put i v s) = int (card {j. flag (put i v s) j})"
proof (cases "val v")
  case True
  then have "card {j. flag (put i v s) j} = (if flag s i then card {j. flag s j} else Suc (card {j. flag s j}))"
    unfolding flags_put using assms(1) by (simp add: card_insert_if)
  then show ?thesis using True assms by (simp add: flags_put count_put)
next
  case False
  have "flag s i \<Longrightarrow> card {j. flag s j} = Suc (card ({j. flag s j} - {i}))"
    by (intro card.remove) (use assms(1) in auto)
  moreover have "\<not> flag s i \<Longrightarrow> {j. flag s j} - {i} = {j. flag s j}" by auto
  ultimately show ?thesis using False assms by (cases "flag s i") (simp_all add: flags_put count_put)
qed

end

interpretation protected: counted_flag "\<lambda>s i. sy_protect (sc_node s i)" NumProtected set_protect "\<lambda>b. b"
  by unfold_locales (auto simp: set_protect_def)

interpretation syncing: counted_flag "\<lambda>s i. sy_sync_started (sc_node s i)" NumSyncStarted set_sync_started "\<lambda>b. b"
  by unfold_locales (auto simp: set_sync_started_def)

interpretation downloading: counted_flag "\<lambda>s i. 0 < sy_num_valid_headers (sc_node s i)" NumValidatedDownload
    set_num_valid_headers "\<lambda>k. 0 < k"
  by unfold_locales (auto simp: set_num_valid_headers_def)

datatype counter_call = SetProtect nat bool | SetSyncStarted nat bool | SetNumValidHeaders nat int

fun sync_call :: "counter_call \<Rightarrow> sync_counts \<Rightarrow> sync_counts" where
  "sync_call (SetProtect i b) s = set_protect i b s"
| "sync_call (SetSyncStarted i b) s = set_sync_started i b s"
| "sync_call (SetNumValidHeaders i k) s = set_num_valid_headers i k s"

definition counts_ok :: "sync_counts \<Rightarrow> bool" where
  [inv_defs]: "counts_ok s =
     (finite {i. sy_protect (sc_node s i)} \<and> NumProtected s = int (card {i. sy_protect (sc_node s i)}) \<and>
      finite {i. sy_sync_started (sc_node s i)} \<and> NumSyncStarted s = int (card {i. sy_sync_started (sc_node s i)}) \<and>
      finite {i. 0 < sy_num_valid_headers (sc_node s i)} \<and>
      NumValidatedDownload s = int (card {i. 0 < sy_num_valid_headers (sc_node s i)}))"

lemma other_fields [simp]:
  "sy_sync_started (sc_node (set_protect i b s) j) = sy_sync_started (sc_node s j)"
  "sy_num_valid_headers (sc_node (set_protect i b s) j) = sy_num_valid_headers (sc_node s j)"
  "sy_protect (sc_node (set_sync_started i b s) j) = sy_protect (sc_node s j)"
  "sy_num_valid_headers (sc_node (set_sync_started i b s) j) = sy_num_valid_headers (sc_node s j)"
  "sy_protect (sc_node (set_num_valid_headers i k s) j) = sy_protect (sc_node s j)"
  "sy_sync_started (sc_node (set_num_valid_headers i k s) j) = sy_sync_started (sc_node s j)"
  "NumSyncStarted (set_protect i b s) = NumSyncStarted s" "NumValidatedDownload (set_protect i b s) = NumValidatedDownload s"
  "NumProtected (set_sync_started i b s) = NumProtected s" "NumValidatedDownload (set_sync_started i b s) = NumValidatedDownload s"
  "NumProtected (set_num_valid_headers i k s) = NumProtected s" "NumSyncStarted (set_num_valid_headers i k s) = NumSyncStarted s"
  by (simp_all add: set_protect_def set_sync_started_def set_num_valid_headers_def Let_def)

lemma counts_ok_call: "counts_ok s \<Longrightarrow> counts_ok (sync_call c s)"
  by (cases c) (simp_all add: counts_ok_def protected.exact_put syncing.exact_put downloading.exact_put)

text \<open>The three counters are exact after any calls, over the nodes ever made: nothing takes a node out of them
  when it is destroyed, so a node that is gone keeps counting.\<close>

theorem counters_exact: "counts_ok (fold sync_call cs sync_counts_new)"
proof -
  have "counts_ok s \<Longrightarrow> counts_ok (fold sync_call cs s)" for s by (induction cs arbitrary: s) (simp_all add: counts_ok_call)
  then show ?thesis by (simp add: counts_ok_def sync_counts_new_def sync_node_new_def)
qed

end
