(* ===== verification/Thread_Pool.thy ===== *)
theory Thread_Pool
  imports Prelude "HOL-Library.Multiset"
begin

text \<open>
  \<^verbatim>\<open>ThreadPool\<close> and \<^verbatim>\<open>ThreadGroup\<close> of \<^verbatim>\<open>src/utility/include/thread.h\<close> and \<^verbatim>\<open>src/utility/src/thread.cpp\<close>.  A task is
  a number.  The part of a worker's round that holds the lock is one step, the end of its task another;
  a worker that waits takes its step as soon as the condition of the wait is true, since both the queue
  and the flag change under the lock and are followed by a notification.  The last three components
  of the state record what happened and are read by no operation.  An exception of a task is kept in its future.
\<close>

subsection \<open>ThreadPool\<close>

datatype worker = Waiting | Running nat | Exited

record pool =
  threads :: "worker list"
  tasks :: "nat list"
  stopped :: bool
  added :: "nat list"
  started :: "nat list"
  finished :: "nat list"

definition ThreadPool_new :: "nat \<Rightarrow> pool" where
  "ThreadPool_new n = \<lparr>threads = replicate n Waiting, tasks = [], stopped = False, added = [], started = [], finished = []\<rparr>"

definition AddTask :: "nat \<Rightarrow> pool \<Rightarrow> pool res" where
  "AddTask t p =
     (if stopped p then Inl RuntimeError else Inr (p\<lparr>tasks := tasks p @ [t], added := added p @ [t]\<rparr>))"

text \<open>A round of a worker up to the call of its task; \<open>None\<close> is blocking in \<^verbatim>\<open>wait\<close>.\<close>

definition worker_round :: "nat \<Rightarrow> pool \<Rightarrow> pool option" where
  "worker_round i p =
     (if \<not> (stopped p \<or> tasks p \<noteq> []) then None
      else if stopped p \<and> tasks p = [] then Some (p\<lparr>threads := (threads p)[i := Exited]\<rparr>)
      else let task = hd (tasks p) in
        Some (p\<lparr>threads := (threads p)[i := Running task], tasks := tl (tasks p), started := started p @ [task]\<rparr>))"

text \<open>The task returns, and the loop starts again.\<close>

definition worker_done :: "nat \<Rightarrow> nat \<Rightarrow> pool \<Rightarrow> pool" where
  "worker_done i task p = p\<lparr>threads := (threads p)[i := Waiting], finished := finished p @ [task]\<rparr>"

text \<open>The destructor sets the flag, and returns when it could join every thread.\<close>

definition ThreadPool_stop :: "pool \<Rightarrow> pool" where
  "ThreadPool_stop p = p\<lparr>stopped := True\<rparr>"

definition joined :: "pool \<Rightarrow> bool" where
  "joined p = list_all (\<lambda>w. w = Exited) (threads p)"

inductive pool_step :: "pool \<Rightarrow> pool \<Rightarrow> bool" where
  add: "AddTask t p = Inr p' \<Longrightarrow> pool_step p p'"
| round: "i < length (threads p) \<Longrightarrow> threads p ! i = Waiting \<Longrightarrow> worker_round i p = Some p' \<Longrightarrow> pool_step p p'"
| returns: "i < length (threads p) \<Longrightarrow> threads p ! i = Running task \<Longrightarrow> pool_step p (worker_done i task p)"
| stop: "\<not> stopped p \<Longrightarrow> pool_step p (ThreadPool_stop p)"

inductive pool_reachable :: "nat \<Rightarrow> pool \<Rightarrow> bool" for n where
  init: "pool_reachable n (ThreadPool_new n)"
| step: "pool_reachable n p \<Longrightarrow> pool_step p p' \<Longrightarrow> pool_reachable n p'"

subsection \<open>No task is lost\<close>

fun task_of :: "worker \<Rightarrow> nat multiset" where
  "task_of (Running t) = {#t#}"
| "task_of _ = {#}"

definition running :: "worker list \<Rightarrow> nat multiset" where
  "running ws = (\<Sum>w\<leftarrow>ws. task_of w)"

definition pool_inv :: "pool \<Rightarrow> bool" where
  [inv_defs]: "pool_inv p =
     (added p = started p @ tasks p \<and> mset (started p) = mset (finished p) + running (threads p) \<and>
      (Exited \<in> set (threads p) \<longrightarrow> stopped p \<and> tasks p = []))"

lemma running_update: "i < length ws \<Longrightarrow> running (ws[i := w]) + task_of (ws ! i) = running ws + task_of w"
  by (induction ws arbitrary: i) (auto simp: running_def nth_Cons' add_ac split: nat.split)

lemma pool_inv_round:
  assumes "pool_inv p" "i < length (threads p)" "threads p ! i = Waiting" "worker_round i p = Some p'"
  shows "pool_inv p'"
proof (cases "tasks p")
  case Nil
  then have "p' = p\<lparr>threads := (threads p)[i := Exited]\<rparr>" "stopped p"
    using assms(4) by (auto simp: worker_round_def split: if_splits)
  then show ?thesis using assms(1) Nil running_update[OF assms(2), of Exited] assms(3) by (auto simp: pool_inv_def)
next
  case (Cons t ts)
  then have p': "p' = p\<lparr>threads := (threads p)[i := Running t], tasks := ts, started := started p @ [t]\<rparr>"
    using assms(4) by (auto simp: worker_round_def Let_def)
  have "Exited \<notin> set (threads p')"
    using assms(1) Cons set_update_subset_insert[of "threads p" i "Running t"] by (auto simp: pool_inv_def p')
  then show ?thesis using assms(1) Cons running_update[OF assms(2), of "Running t"] assms(3) by (simp add: pool_inv_def p')
qed

lemma pool_inv_done:
  assumes "pool_inv p" "i < length (threads p)" "threads p ! i = Running t"
  shows "pool_inv (worker_done i t p)"
proof -
  have "Exited \<in> set (threads (worker_done i t p)) \<Longrightarrow> Exited \<in> set (threads p)"
    using set_update_subset_insert[of "threads p" i Waiting] by (auto simp: worker_done_def)
  then show ?thesis using assms(1) running_update[OF assms(2), of Waiting] assms(3)
    by (auto simp: pool_inv_def worker_done_def)
qed

lemma pool_inv_step: "pool_step p p' \<Longrightarrow> pool_inv p \<Longrightarrow> pool_inv p'"
proof (induction rule: pool_step.induct)
  case (add t p p')
  then show ?case by (auto simp: pool_inv_def AddTask_def split: if_splits)
next
  case (round i p p')
  then show ?case using pool_inv_round by blast
next
  case (returns i p t)
  then show ?case using pool_inv_done by blast
next
  case (stop p)
  then show ?case by (auto simp: pool_inv_def ThreadPool_stop_def)
qed

lemma running_new [simp]: "running (replicate n Waiting) = {#}"
  unfolding running_def by (induction n) simp_all

lemma pool_inv_reachable: "pool_reachable n p \<Longrightarrow> pool_inv p"
proof (induction rule: pool_reachable.induct)
  case init
  then show ?case by (simp add: pool_inv_def ThreadPool_new_def)
qed (rule pool_inv_step)

lemma pool_step_length: "pool_step p p' \<Longrightarrow> length (threads p') = length (threads p)"
  by (induction rule: pool_step.induct)
    (auto simp: AddTask_def worker_round_def worker_done_def ThreadPool_stop_def Let_def split: if_splits)

lemma pool_reachable_length: "pool_reachable n p \<Longrightarrow> length (threads p) = n"
  by (induction rule: pool_reachable.induct) (simp_all add: ThreadPool_new_def pool_step_length)

text \<open>The pool is first in, first out, and runs every task once: in every reachable state the tasks that were added
  are those that were started, in this order, followed by the queue, and each started one is
  finished or running in one worker.\<close>
theorem pool_fifo:
  assumes "pool_reachable n p"
  shows "added p = started p @ tasks p \<and> mset (started p) = mset (finished p) + running (threads p)"
  using pool_inv_reachable[OF assms] by (simp add: pool_inv_def)

subsection \<open>The destructor returns\<close>

fun worker_rank :: "worker \<Rightarrow> nat" where
  "worker_rank Exited = 0"
| "worker_rank Waiting = 1"
| "worker_rank (Running t) = 2"

definition pool_rank :: "pool \<Rightarrow> nat" where
  "pool_rank p = 2 * length (tasks p) + (\<Sum>w\<leftarrow>threads p. worker_rank w)"

lemma rank_update:
  "i < length ws \<Longrightarrow> (\<Sum>v\<leftarrow>ws[i := w]. worker_rank v) + worker_rank (ws ! i) = (\<Sum>v\<leftarrow>ws. worker_rank v) + worker_rank w"
  by (induction ws arbitrary: i) (auto simp: nth_Cons' split: nat.split)

lemma pool_rank_step:
  assumes "pool_step p p'" "stopped p"
  shows "stopped p' \<and> pool_rank p' < pool_rank p"
  using assms
proof (induction rule: pool_step.induct)
  case (round i p p')
  then show ?case
    using rank_update[OF round(1), of Exited] rank_update[OF round(1), of "Running (hd (tasks p))"]
    by (cases "tasks p") (auto simp: worker_round_def pool_rank_def Let_def)
next
  case (returns i p t)
  then show ?case using rank_update[OF returns(1), of Waiting] by (simp add: worker_done_def pool_rank_def)
qed (auto simp: AddTask_def)

lemma pool_steps_bounded: "(pool_step ^^ k) p q \<Longrightarrow> stopped p \<Longrightarrow> stopped q \<and> k + pool_rank q \<le> pool_rank p"
proof (induction k arbitrary: q)
  case (Suc k)
  then obtain r where "(pool_step ^^ k) p r" "pool_step r q" by auto
  then show ?case using Suc.IH[of r] Suc.prems(2) pool_rank_step[of r q] by auto
qed simp

lemma pool_reachable_steps: "pool_reachable n p \<Longrightarrow> (pool_step ^^ k) p q \<Longrightarrow> pool_reachable n q"
proof (induction k arbitrary: q)
  case (Suc k)
  then show ?case by (auto intro: pool_reachable.step)
qed simp

lemma stopped_progress:
  assumes "stopped p" "\<not> joined p"
  shows "\<exists>p'. pool_step p p'"
proof -
  obtain i where i: "i < length (threads p)" "threads p ! i \<noteq> Exited"
    using assms(2) by (auto simp: joined_def list_all_length)
  show ?thesis
  proof (cases "threads p ! i")
    case Waiting
    then show ?thesis using i(1) assms(1) pool_step.round[of i p]
      by (cases "worker_round i p") (auto simp: worker_round_def Let_def split: if_splits)
  next
    case (Running t)
    then show ?thesis using i(1) pool_step.returns by blast
  qed (use i in simp)
qed

lemma pool_steps_added: "(pool_step ^^ k) p q \<Longrightarrow> stopped p \<Longrightarrow> added q = added p"
proof (induction k arbitrary: q)
  case (Suc k)
  then obtain r where r: "(pool_step ^^ k) p r" "pool_step r q" by auto
  have "stopped r" using pool_steps_bounded[OF r(1) Suc.prems(2)] by simp
  with r(2) have "added q = added r"
    by (induction rule: pool_step.induct)
      (auto simp: AddTask_def worker_round_def worker_done_def ThreadPool_stop_def Let_def split: if_splits)
  then show ?case using Suc.IH[OF r(1) Suc.prems(2)] by simp
qed simp

lemma joined_stuck:
  assumes "stopped q" "joined q"
  shows "\<not> pool_step q r"
proof
  assume "pool_step q r"
  then show False using assms
    by (induction rule: pool_step.induct) (auto simp: AddTask_def joined_def list_all_length)
qed

lemma running_joined: "joined q \<Longrightarrow> running (threads q) = {#}"
proof -
  have "list_all (\<lambda>w. w = Exited) ws \<Longrightarrow> running ws = {#}" for ws by (induction ws) (auto simp: running_def)
  then show "joined q \<Longrightarrow> ?thesis" by (simp add: joined_def)
qed

text \<open>C15: Destroying the pool drains it: once the flag is set every run is bounded by the tasks and workers left, it can
  only stop where every worker was joined, and then, in a pool with workers, every task ever added has run.\<close>
theorem pool_drains:
  assumes "pool_reachable n p" "stopped p" "(pool_step ^^ k) p q"
  shows "k \<le> pool_rank p \<and> ((\<nexists>r. pool_step q r) \<longleftrightarrow> joined q) \<and> (joined q \<and> 0 < n \<longrightarrow> mset (finished q) = mset (added p))"
proof -
  have q: "pool_reachable n q" by (rule pool_reachable_steps[OF assms(1,3)])
  have s: "stopped q" "k \<le> pool_rank p" using pool_steps_bounded[OF assms(3,2)] by auto
  have "added q = added p" by (rule pool_steps_added[OF assms(3,2)])
  moreover have "mset (finished q) = mset (added q)" if "joined q" "0 < n"
  proof -
    have "Exited \<in> set (threads q)"
      using that pool_reachable_length[OF q] by (cases "threads q") (auto simp: joined_def)
    then show ?thesis using pool_inv_reachable[OF q] running_joined[OF that(1)] by (simp add: pool_inv_def)
  qed
  moreover have "(\<nexists>r. pool_step q r) \<longleftrightarrow> joined q"
    using stopped_progress[OF s(1)] joined_stuck[OF s(1)] by blast
  ultimately show ?thesis using s(2) by simp
qed

text \<open>A pool of one worker, a task, and the destructor: the task runs before the worker is joined.\<close>

lemma pool_drains_witness:
  "\<exists>p q. stopped p \<and> finished p = [] \<and> (pool_step ^^ 3) p q \<and> joined q \<and> mset (finished q) = {#7#}"
proof -
  define p where "p = ThreadPool_stop (ThreadPool_new 1\<lparr>tasks := [7], added := [7]\<rparr>)"
  define q where "q = p\<lparr>threads := [Exited], tasks := [], started := [7], finished := [7]\<rparr>"
  have r: "pool_reachable 1 p"
    unfolding p_def by (intro pool_reachable.step[OF pool_reachable.step[OF pool_reachable.init add[of 7]] stop])
      (simp_all add: AddTask_def ThreadPool_new_def)
  let ?a = "p\<lparr>threads := [Running 7], tasks := [], started := [7]\<rparr>"
  let ?b = "p\<lparr>threads := [Waiting], tasks := [], started := [7], finished := [7]\<rparr>"
  have "pool_step p ?a" by (rule round[of 0]) (simp_all add: p_def ThreadPool_new_def ThreadPool_stop_def worker_round_def)
  moreover have "pool_step ?a ?b"
    using returns[of 0 ?a 7] by (simp add: worker_done_def p_def ThreadPool_new_def ThreadPool_stop_def)
  moreover have "pool_step ?b q"
    by (rule round[of 0]) (simp_all add: p_def q_def ThreadPool_new_def ThreadPool_stop_def worker_round_def)
  ultimately have s: "(pool_step ^^ 3) p q" by (auto simp: numeral_3_eq_3 relcompp_apply)
  have j: "stopped p" "joined q" "added p = [7]" "finished p = []"
    by (simp_all add: p_def q_def ThreadPool_stop_def ThreadPool_new_def joined_def)
  show ?thesis using pool_drains[OF r j(1) s] s j by auto
qed

lemma pool_fifo_witness: "\<exists>p. pool_reachable 1 p \<and> tasks p = [7] \<and> added p = started p @ [7]"
proof -
  have r: "pool_reachable 1 (ThreadPool_new 1\<lparr>tasks := [7], added := [7]\<rparr>)"
    by (rule pool_reachable.step[OF pool_reachable.init add[of 7]]) (simp add: AddTask_def ThreadPool_new_def)
  show ?thesis using pool_fifo[OF r] r by (intro exI[of _ "ThreadPool_new 1\<lparr>tasks := [7], added := [7]\<rparr>"]) simp
qed

subsection \<open>ThreadGroup\<close>

text \<open>A thread object is a number; \<open>thread_id\<close> is its \<^verbatim>\<open>get_id\<close>, where \<open>None\<close> is the id of objects without a
  running thread, and \<open>me\<close> the id of the caller.  \<open>None\<close> for an object is the null pointer.\<close>

record thread_group =
  g_threads :: "nat list"
  thread_id :: "nat \<Rightarrow> nat option"

definition IsThisThreadIn :: "nat \<Rightarrow> thread_group \<Rightarrow> bool" where
  "IsThisThreadIn me g = list_ex (\<lambda>t. thread_id g t = Some me) (g_threads g)"

definition IsThreadIn :: "nat option \<Rightarrow> thread_group \<Rightarrow> bool" where
  "IsThreadIn thrd g =
     (case thrd of None \<Rightarrow> False | Some x \<Rightarrow> list_ex (\<lambda>t. thread_id g t = thread_id g x) (g_threads g))"

definition CreateThread :: "nat \<Rightarrow> nat \<Rightarrow> thread_group \<Rightarrow> thread_group" where
  "CreateThread x i g = g\<lparr>g_threads := g_threads g @ [x], thread_id := (thread_id g)(x \<mapsto> i)\<rparr>"

definition AddThread :: "nat option \<Rightarrow> thread_group \<Rightarrow> thread_group res" where
  "AddThread thrd g =
     (case thrd of None \<Rightarrow> Inr g
      | Some x \<Rightarrow> if IsThreadIn thrd g then Inl RuntimeError else Inr (g\<lparr>g_threads := g_threads g @ [x]\<rparr>))"

definition RemoveThread :: "nat option \<Rightarrow> thread_group \<Rightarrow> thread_group" where
  "RemoveThread thrd g = (case thrd of None \<Rightarrow> g | Some x \<Rightarrow> g\<lparr>g_threads := remove1 x (g_threads g)\<rparr>)"

text \<open>Joining waits for the thread, whose object has no id after it.\<close>

definition join_thread :: "nat \<Rightarrow> (nat \<Rightarrow> nat option) \<Rightarrow> nat \<Rightarrow> nat option" where
  "join_thread t m = (if m t \<noteq> None then m(t := None) else m)"

definition JoinAll :: "nat \<Rightarrow> thread_group \<Rightarrow> thread_group res" where
  "JoinAll me g =
     (if IsThisThreadIn me g then Inl RuntimeError
      else Inr (g\<lparr>thread_id := fold join_thread (g_threads g) (thread_id g)\<rparr>))"

definition ThreadGroup_Size :: "thread_group \<Rightarrow> nat" where
  "ThreadGroup_Size g = length (g_threads g)"

text \<open>The destructor deletes the objects; a thread that was not joined ends the program (\<^verbatim>\<open>std::terminate\<close>).\<close>

definition ThreadGroup_destroy :: "thread_group \<Rightarrow> unit res" where
  "ThreadGroup_destroy g = (if list_ex (\<lambda>t. thread_id g t \<noteq> None) (g_threads g) then Inl Assertion else Inr ())"

text \<open>Objects are distinct and so are the ids of running ones; joining all of them makes destruction safe.\<close>

definition group_inv :: "thread_group \<Rightarrow> bool" where
  [inv_defs]: "group_inv g =
     (distinct (g_threads g) \<and>
      (\<forall>t\<in>set (g_threads g). \<forall>u\<in>set (g_threads g). \<forall>i. thread_id g t = Some i \<longrightarrow> thread_id g u = Some i \<longrightarrow> t = u))"

lemma AddThread_inv: "group_inv g \<Longrightarrow> AddThread thrd g = Inr g' \<Longrightarrow> group_inv g'"
  by (auto simp: group_inv_def AddThread_def IsThreadIn_def list_ex_iff split: option.splits if_splits)

lemma RemoveThread_inv: "group_inv g \<Longrightarrow> group_inv (RemoveThread thrd g)"
  by (auto simp: group_inv_def RemoveThread_def split: option.split dest: notin_set_remove1)

lemma CreateThread_inv:
  "group_inv g \<Longrightarrow> x \<notin> set (g_threads g) \<Longrightarrow> \<forall>t\<in>set (g_threads g). thread_id g t \<noteq> Some i \<Longrightarrow> group_inv (CreateThread x i g)"
  by (auto simp: group_inv_def CreateThread_def)

lemma join_fold: "fold join_thread ts m u = (if u \<in> set ts then None else m u)"
  by (induction ts arbitrary: m) (auto simp: join_thread_def)

lemma JoinAll_destroy: "JoinAll me g = Inr g' \<Longrightarrow> group_inv g \<Longrightarrow> group_inv g' \<and> ThreadGroup_destroy g' = Inr ()"
  by (auto simp: JoinAll_def ThreadGroup_destroy_def group_inv_def join_fold list_ex_iff split: if_splits)

text \<open>Joining from outside the group never fails.  Ids are compared and not objects, so a second object
  without a thread is refused as a duplicate.\<close>

lemma AddThread_idle_refused:
  "t \<in> set (g_threads g) \<Longrightarrow> thread_id g t = None \<Longrightarrow> thread_id g x = None \<Longrightarrow> AddThread (Some x) g = Inl RuntimeError"
  by (auto simp: AddThread_def IsThreadIn_def list_ex_iff)

subsection \<open>ThreadInterruptor\<close>

text \<open>Times are in milliseconds.  \<open>interrupt\<close> is how long after the start of the sleep the flag is set by another thread,
  if it is; the result is what \<^verbatim>\<open>Sleep_for\<close> returns and how long it took at least.  \<^verbatim>\<open>wait_for\<close> with a predicate
  returns the value of the predicate at the end, so a sleep that is interrupted at its very end counts as such.\<close>

definition Interruptor_Interrupt :: "bool \<Rightarrow> bool" where
  "Interruptor_Interrupt flag = True"

definition Interruptor_Reset :: "bool \<Rightarrow> bool" where
  "Interruptor_Reset flag = False"

definition Sleep_for_ms :: "nat \<Rightarrow> bool \<Rightarrow> nat option \<Rightarrow> bool \<times> nat" where
  "Sleep_for_ms d flag interrupt =
     (if flag then (\<not> flag, 0)
      else case interrupt of None \<Rightarrow> (True, d) | Some t \<Rightarrow> if t \<le> d then (\<not> Interruptor_Interrupt flag, t) else (True, d))"

definition Sleep_for_seconds :: "nat \<Rightarrow> bool \<Rightarrow> nat option \<Rightarrow> bool \<times> nat" where
  "Sleep_for_seconds d = Sleep_for_ms (1000 * d)"

definition Sleep_for_minutes :: "nat \<Rightarrow> bool \<Rightarrow> nat option \<Rightarrow> bool \<times> nat" where
  "Sleep_for_minutes d = Sleep_for_ms (60 * 1000 * d)"

text \<open>A sleep that returns true was slept to its end; one that returns false ends with the interruption.\<close>

lemma Sleep_for_exact:
  "Sleep_for_ms d flag interrupt = (r, t) \<Longrightarrow>
     t \<le> d \<and> (r \<longrightarrow> t = d) \<and> (r \<longleftrightarrow> \<not> flag \<and> (\<forall>u. interrupt = Some u \<longrightarrow> d < u)) \<and> (\<not> r \<longrightarrow> flag \<and> t = 0 \<or> interrupt = Some t)"
  by (auto simp: Sleep_for_ms_def Interruptor_Interrupt_def split: if_splits option.splits)

end
