(* ===== verification/Hashing.thy ===== *)
theory Hashing
  imports Serialize
begin

text \<open>
  \<^verbatim>\<open>src/crypto/include/hash.h\<close> and \<^verbatim>\<open>src/crypto/src/hash.cpp\<close>: the digests and the keyed hash, over the objects of
  Botan, which are parameters with the documented laws \<open>hash_ok\<close> and \<open>mac_ok\<close>.  The other components take
  the digest as a function; \<open>DoubleSha256_of\<close> is what they may assume of it.
\<close>

subsection \<open>Digests\<close>

record 's hash_function =
  h_create :: 's
  h_update :: "bytes \<Rightarrow> 's \<Rightarrow> 's"
  h_final :: "'s \<Rightarrow> bytes \<times> 's"
  h_clear :: "'s \<Rightarrow> 's"

definition Sha256 :: "'s hash_function \<Rightarrow> bytes \<Rightarrow> bytes" where
  "Sha256 h s = fst (h_final h (h_update h s (h_create h)))"

definition DoubleSha256 :: "'s hash_function \<Rightarrow> bytes \<Rightarrow> bytes" where
  "DoubleSha256 h s =
     (let (result, s1) = h_final h (h_update h s (h_create h)) in
      fst (h_final h (h_update h result (h_clear h s1))))"

definition Hasher :: "bytes \<Rightarrow> u64" where
  "Hasher val = from_little_endian (take 8 val)"

text \<open>\<^verbatim>\<open>HashOStream\<close>: the bytes written; an object is given by its serialization.\<close>

definition HashOStream_write :: "bytes \<Rightarrow> bytes \<Rightarrow> bytes" where
  "HashOStream_write obj v = v @ obj"

definition HashOStream_Sha256 :: "'s hash_function \<Rightarrow> bytes \<Rightarrow> bytes" where
  "HashOStream_Sha256 h v = Sha256 h v"

definition HashOStream_DoubleSha256 :: "'s hash_function \<Rightarrow> bytes \<Rightarrow> bytes" where
  "HashOStream_DoubleSha256 h v = DoubleSha256 h v"

definition HashOStream_Clear :: "bytes \<Rightarrow> bytes" where
  "HashOStream_Clear v = []"

definition GetHash_obj :: "'s hash_function \<Rightarrow> bytes \<Rightarrow> bytes" where
  "GetHash_obj h obj = HashOStream_Sha256 h (HashOStream_write obj [])"

definition GetDoubleHash_obj :: "'s hash_function \<Rightarrow> bytes \<Rightarrow> bytes" where
  "GetDoubleHash_obj h obj = HashOStream_DoubleSha256 h (HashOStream_write obj [])"

text \<open>A fresh or cleared object gives the digest of what it was fed.\<close>

definition hash_ok :: "'s hash_function \<Rightarrow> (bytes \<Rightarrow> bytes) \<Rightarrow> bool" where
  "hash_ok h sha =
     (\<forall>s t. fst (h_final h (h_update h s (h_create h))) = sha s \<and> fst (h_final h (h_update h s (h_clear h t))) = sha s)"

lemma Sha256_of: "hash_ok h sha \<Longrightarrow> Sha256 h s = sha s"
  by (simp add: hash_ok_def Sha256_def)

lemma DoubleSha256_of: "hash_ok h sha \<Longrightarrow> DoubleSha256 h s = sha (sha s)"
  by (simp add: hash_ok_def DoubleSha256_def Let_def split_def)

text \<open>The digest of objects written one after the other is that of their serializations in a row.\<close>

lemma HashOStream_writes:
  "hash_ok h sha \<Longrightarrow> HashOStream_DoubleSha256 h (fold HashOStream_write objs []) = sha (sha (concat objs))"
proof -
  have "fold HashOStream_write objs v = v @ concat objs" for v
    by (induction objs arbitrary: v) (simp_all add: HashOStream_write_def)
  then show "hash_ok h sha \<Longrightarrow> ?thesis" by (simp add: HashOStream_DoubleSha256_def DoubleSha256_of)
qed

subsection \<open>SipHasher\<close>

record 's mac =
  m_create :: 's
  m_set_key :: "bytes \<Rightarrow> 's \<Rightarrow> 's"
  m_update :: "bytes \<Rightarrow> 's \<Rightarrow> 's res"
  m_final :: "'s \<Rightarrow> (u64 \<times> 's) res"

record 's sip_hasher =
  sh_mac :: 's
  sh_key :: bytes
  is_set_key :: bool

definition SipHasher_new :: "'s mac \<Rightarrow> bytes \<Rightarrow> 's sip_hasher" where
  "SipHasher_new m random16 = \<lparr>sh_mac = m_create m, sh_key = random16, is_set_key = False\<rparr>"

definition SipHasher_keys :: "'s mac \<Rightarrow> u64 \<Rightarrow> u64 \<Rightarrow> 's sip_hasher" where
  "SipHasher_keys m k0 k1 =
     \<lparr>sh_mac = m_create m, sh_key = to_little_endian 8 k0 @ to_little_endian 8 k1, is_set_key = False\<rparr>"

definition SipHasher_Update :: "'s mac \<Rightarrow> bytes \<Rightarrow> 's sip_hasher \<Rightarrow> 's sip_hasher res" where
  "SipHasher_Update m s h =
     (let h1 = (if \<not> is_set_key h then h\<lparr>sh_mac := m_set_key m (sh_key h) (sh_mac h), is_set_key := True\<rparr> else h) in
      res_bind (m_update m s (sh_mac h1)) (\<lambda>t. Inr (h1\<lparr>sh_mac := t\<rparr>)))"

definition SipHasher_Update64 :: "'s mac \<Rightarrow> u64 \<Rightarrow> 's sip_hasher \<Rightarrow> 's sip_hasher res" where
  "SipHasher_Update64 m x h = SipHasher_Update m (to_little_endian 8 x) h"

definition SipHasher_Final :: "'s mac \<Rightarrow> 's sip_hasher \<Rightarrow> (u64 \<times> 's sip_hasher) res" where
  "SipHasher_Final m h =
     res_bind (m_final m (sh_mac h)) (\<lambda>(ret, t). Inr (ret, h\<lparr>sh_mac := t, is_set_key := False\<rparr>))"

fun updates :: "'s mac \<Rightarrow> bytes list \<Rightarrow> 's \<Rightarrow> 's res" where
  "updates m [] t = Inr t"
| "updates m (s # ss) t = res_bind (m_update m s t) (updates m ss)"

text \<open>With a key set, the tag is that of the key and of all the bytes.\<close>

definition mac_ok :: "'s mac \<Rightarrow> (bytes \<Rightarrow> bytes \<Rightarrow> u64) \<Rightarrow> bool" where
  "mac_ok m tag =
     (\<forall>key t ss. length key = 16 \<longrightarrow>
        (\<exists>u v. updates m ss (m_set_key m key t) = Inr u \<and> m_final m u = Inr (tag key (concat ss), v)))"

fun sip_updates :: "'s mac \<Rightarrow> bytes list \<Rightarrow> 's sip_hasher \<Rightarrow> 's sip_hasher res" where
  "sip_updates m [] h = Inr h"
| "sip_updates m (s # ss) h = res_bind (SipHasher_Update m s h) (sip_updates m ss)"

lemma sip_updates_set:
  "is_set_key h \<Longrightarrow> sip_updates m ss h = res_bind (updates m ss (sh_mac h)) (\<lambda>t. Inr (h\<lparr>sh_mac := t\<rparr>))"
proof (induction ss arbitrary: h)
  case (Cons s ss)
  then show ?case by (cases "m_update m s (sh_mac h)") (simp_all add: SipHasher_Update_def)
qed simp

text \<open>Between two calls of \<^verbatim>\<open>Final\<close> the tag depends on the key and on what was written in between, and on nothing
  older: \<^verbatim>\<open>Final\<close> forgets what was written, although the comment in the header says the object is untouched.\<close>

theorem SipHasher_exact:
  assumes "mac_ok m tag" "length (sh_key h) = 16" "\<not> is_set_key h" "ss \<noteq> []"
  shows "\<exists>h'. res_bind (sip_updates m ss h) (SipHasher_Final m) = Inr (tag (sh_key h) (concat ss), h') \<and>
    sh_key h' = sh_key h \<and> \<not> is_set_key h'"
proof -
  obtain s ss' where ss: "ss = s # ss'" using assms(4) by (cases ss) auto
  let ?t = "m_set_key m (sh_key h) (sh_mac h)"
  obtain u v where u: "updates m ss ?t = Inr u" "m_final m u = Inr (tag (sh_key h) (concat ss), v)"
    using assms(1,2) unfolding mac_ok_def by blast
  then obtain t where t: "m_update m s ?t = Inr t" "updates m ss' t = Inr u" by (auto simp: ss res_bind_eq_Inr)
  have "sip_updates m ss h = Inr (h\<lparr>sh_mac := u, is_set_key := True\<rparr>)"
    using t assms(3) by (simp add: ss SipHasher_Update_def sip_updates_set)
  then show ?thesis using u(2) by (simp add: SipHasher_Final_def)
qed

text \<open>A tag before any update is an error, since the key is only set by an update.\<close>

lemma SipHasher_Final_unset:
  "m_final m (m_create m) = Inl RuntimeError \<Longrightarrow> SipHasher_Final m (SipHasher_new m r) = Inl RuntimeError"
  by (simp add: SipHasher_Final_def SipHasher_new_def)

end
