(* ===== verification/Executor.thy ===== *)
theory Executor
  imports P2P_Start Chain_State Net_Events
begin

text \<open>
  The life of the process: \<^verbatim>\<open>src/fullnode/src/executor.cpp\<close>, the \<^verbatim>\<open>Executor\<close> of \<^verbatim>\<open>src/utility/src/util.cpp\<close>,
  \<^verbatim>\<open>src/chain/src/block_chain.cpp\<close>, the threads of \<^verbatim>\<open>src/network/src/p2p.cpp\<close> and the end of \<^verbatim>\<open>main\<close>.  The first part
  composes the initialisation of the components.  The second one is a step relation on \<open>process\<close>:
  the main thread, the threads of the two event loops, the signals and the promise that the main
  thread waits for; its state holds the \<open>world\<close> of \<open>Net_Events\<close>, whose events are steps of it too.
\<close>

subsection \<open>Initialisation\<close>

text \<open>The result of \<^verbatim>\<open>LoadGenesisBlock\<close> is ignored.\<close>

definition BlockChain_Init :: "(bytes \<Rightarrow> bytes) \<Rightarrow> bytes \<Rightarrow> nat \<Rightarrow> block \<Rightarrow> chain_state \<Rightarrow> (bool \<times> chain_state) res option" where
  "BlockChain_Init sha mem loc g s =
     map_option (\<lambda>r. res_bind r (\<lambda>(_, s1). Inr (True, s1))) (LoadGenesisBlock sha mem loc g s)"

text \<open>\<open>net_init\<close> is \<^verbatim>\<open>P2P_Init\<close> with the arguments of the run.\<close>

definition FullNode_Init ::
  "(bytes \<Rightarrow> bytes) \<Rightarrow> bytes \<Rightarrow> nat \<Rightarrow> block \<Rightarrow> (world \<Rightarrow> (bool \<times> peers option \<times> ban_map option \<times> world) res) \<Rightarrow> chain_state \<Rightarrow> world \<Rightarrow>
   (bool \<times> chain_state \<times> peers option \<times> ban_map option \<times> world) res option" where
  "FullNode_Init sha mem loc g net_init s w =
     map_option (\<lambda>r. res_bind r (\<lambda>(ok, s1).
         if \<not> ok then Inr (False, s1, None, None, w)
         else res_bind (net_init w) (\<lambda>(ok2, pf, bf, w1). Inr (ok2, s1, pf, bf, w1))))
       (BlockChain_Init sha mem loc g s)"

text \<open>The node comes up with the genesis block as its active chain, or reports why it does not, if the detector of lock
  orders is not compiled in; if it is, \<open>LoadGenesisBlock_undefined\<close> holds for the node, too.\<close>

lemma FullNode_Init_genesis:
  assumes "Header_GetHash sha (bheader g) \<noteq> hash_prev_block (bheader g)" "\<not> tl_checked lk"
  shows "\<exists>s. active_chain s = [Some 0] \<and> map_block_index s = [Block_GetHash sha g \<mapsto> 0] \<and>
    FullNode_Init sha mem loc g net_init (chain_state_init cs lk) w =
      Some (res_bind (net_init w) (\<lambda>(ok, pf, bf, w1). Inr (ok, s, pf, bf, w1)))"
proof -
  obtain s e where "LoadGenesisBlock sha mem loc g (chain_state_init cs lk) = Some (Inr (True, s))"
      "active_chain s = [Some 0]" "map_block_index s = [Block_GetHash sha g \<mapsto> 0]"
    using LoadGenesisBlock_loads[OF assms] by blast
  then show ?thesis by (intro exI[of _ s]) (simp add: FullNode_Init_def BlockChain_Init_def)
qed

lemma FullNode_Init_undefined:
  assumes "Header_GetHash sha (bheader g) \<noteq> hash_prev_block (bheader g)" "tl_checked lk" "tl_stack lk = []"
    "loc \<noteq> cs" "(loc, cs) \<notin> set (lock_orders (tl_data lk))"
  shows "FullNode_Init sha mem loc g net_init (chain_state_init cs lk) w = Some (Inl Undefined)"
  using LoadGenesisBlock_undefined[OF assms] by (simp add: FullNode_Init_def BlockChain_Init_def)

subsection \<open>Signals\<close>

text \<open>What is installed for a signal; \<open>Nothing\<close> is the empty handler.\<close>

datatype handler = Default | HandleStop | HandleAbort | Ignore | Nothing

definition "SIGINT = (2 :: int)"
definition "SIGQUIT = (3 :: int)"
definition "SIGABRT = (6 :: int)"
definition "SIGPIPE = (13 :: int)"
definition "SIGTERM = (15 :: int)"

lemmas signals = SIGINT_def SIGQUIT_def SIGABRT_def SIGPIPE_def SIGTERM_def

definition BasicSetup :: "(int \<Rightarrow> handler) \<Rightarrow> int \<Rightarrow> handler" where
  "BasicSetup h =
     h(SIGINT := HandleStop, SIGTERM := HandleStop, SIGQUIT := HandleStop, SIGABRT := HandleAbort, SIGPIPE := Ignore)"

text \<open>An event loop: \<open>lp_base\<close> when its event base was made, \<open>lp_exit\<close> once it was told to exit.  A thread that
  sleeps for ever in a handler is \<open>Hung\<close>.\<close>

datatype loop_thread = NotStarted | Looping | LoopEnded | Hung

record event_loop =
  lp_base :: bool
  lp_exit :: bool
  lp_thread :: loop_thread

text \<open>\<open>Ended\<close>: \<^verbatim>\<open>main\<close> returned.  \<open>Killed\<close>: by a signal.  \<open>Broken\<close>: after undefined behaviour.\<close>

datatype phase = WaitingToStop | Interrupting | JoiningAcceptor | JoiningConnector | Dumping | Ended | Killed | Broken

datatype thread_of = Main | AcceptorLoop | ConnectorLoop | OtherThread

record process =
  pr_phase :: phase
  pr_handlers :: "int \<Rightarrow> handler"
  pr_stopping :: "int option"
  pr_acceptor :: event_loop
  pr_connector :: event_loop
  pr_interrupted :: bool
  pr_timers_stop :: bool
  pr_world :: world
  pr_files :: "(peers option \<times> ban_map option) option"

definition StopOnce :: "int \<Rightarrow> process \<Rightarrow> process" where
  "StopOnce sig p = (if pr_stopping p = None then p\<lparr>pr_stopping := Some sig\<rparr> else p)"

definition sleep_forever :: "thread_of \<Rightarrow> process \<Rightarrow> process" where
  "sleep_forever t p =
     (case t of
        AcceptorLoop \<Rightarrow> p\<lparr>pr_acceptor := (pr_acceptor p)\<lparr>lp_thread := Hung\<rparr>\<rparr>
      | ConnectorLoop \<Rightarrow> p\<lparr>pr_connector := (pr_connector p)\<lparr>lp_thread := Hung\<rparr>\<rparr>
      | _ \<Rightarrow> p)"

text \<open>The flag says whether the handler returns.\<close>

definition AbortHandler :: "int \<Rightarrow> thread_of \<Rightarrow> process \<Rightarrow> bool \<times> process" where
  "AbortHandler sig t p = (if t \<noteq> Main then (False, sleep_forever t (StopOnce sig p)) else (True, p))"

text \<open>A signal other than \<^verbatim>\<open>SIGABRT\<close> that is left to its default is taken to kill the process.\<close>

definition deliver :: "int \<Rightarrow> thread_of \<Rightarrow> process \<Rightarrow> bool \<times> process" where
  "deliver sig t p =
     (case pr_handlers p sig of
        Default \<Rightarrow> (False, p\<lparr>pr_phase := Killed\<rparr>)
      | HandleStop \<Rightarrow> (True, StopOnce sig p)
      | HandleAbort \<Rightarrow> AbortHandler sig t p
      | _ \<Rightarrow> (True, p))"

text \<open>\<^verbatim>\<open>std::abort\<close>, which failed assertions and uncaught exceptions call, ends the process once the handler returns.\<close>

definition abort_in :: "thread_of \<Rightarrow> process \<Rightarrow> process" where
  "abort_in t p = (let (returns, p1) = deliver SIGABRT t p in if returns then p1\<lparr>pr_phase := Killed\<rparr> else p1)"

definition HandleAllocFail :: "thread_of \<Rightarrow> process \<Rightarrow> process" where
  "HandleAllocFail t p = abort_in t (p\<lparr>pr_handlers := (pr_handlers p)(SIGABRT := Nothing)\<rparr>)"

subsection \<open>The main thread and the loops\<close>

definition StartEventLoop :: "event_loop \<Rightarrow> event_loop" where
  "StartEventLoop lp = lp\<lparr>lp_thread := Looping\<rparr>"

definition loop_returns :: "event_loop \<Rightarrow> event_loop option" where
  "loop_returns lp =
     (if lp_thread lp = Looping \<and> (lp_base lp \<longrightarrow> lp_exit lp) then Some (lp\<lparr>lp_thread := LoopEnded\<rparr>) else None)"

definition Acceptor_ExitEventLoop :: "event_loop \<Rightarrow> event_loop" where
  "Acceptor_ExitEventLoop lp = lp\<lparr>lp_exit := True\<rparr>"

definition Connector_ExitEventLoop :: "event_loop \<Rightarrow> event_loop" where
  "Connector_ExitEventLoop lp = (if \<not> lp_base lp then lp else lp\<lparr>lp_exit := True\<rparr>)"

text \<open>\<^verbatim>\<open>main\<close> after the configuration, up to where it waits: the bases that were made, whether \<^verbatim>\<open>Init\<close> returned true
  and whether \<^verbatim>\<open>Start\<close> did, which begins by starting the threads; and the peers, bans and nodes there are by then.\<close>

definition main_until_wait :: "bool \<Rightarrow> bool \<Rightarrow> bool \<Rightarrow> bool \<Rightarrow> world \<Rightarrow> process" where
  "main_until_wait acceptor_base connector_base init start w =
     (let loop = (\<lambda>base. let lp = \<lparr>lp_base = base, lp_exit = False, lp_thread = NotStarted\<rparr> in
            if init then StartEventLoop lp else lp) in
      \<lparr>pr_phase = (if init \<and> start then WaitingToStop else Interrupting),
       pr_handlers = BasicSetup (\<lambda>_. Default), pr_stopping = None,
       pr_acceptor = loop acceptor_base, pr_connector = loop connector_base,
       pr_interrupted = False, pr_timers_stop = False, pr_world = w, pr_files = None\<rparr>)"

definition FullNode_WaitToStop :: "process \<Rightarrow> process option" where
  "FullNode_WaitToStop p = (case pr_stopping p of None \<Rightarrow> None | Some _ \<Rightarrow> Some (p\<lparr>pr_phase := Interrupting\<rparr>))"

definition FullNode_Interrupt :: "process \<Rightarrow> process" where
  "FullNode_Interrupt p =
     p\<lparr>pr_interrupted := True, pr_timers_stop := True, pr_acceptor := Acceptor_ExitEventLoop (pr_acceptor p),
       pr_connector := Connector_ExitEventLoop (pr_connector p), pr_phase := JoiningAcceptor\<rparr>"

text \<open>A thread that was not started is not joinable; joining waits for one that was.\<close>

definition can_join :: "event_loop \<Rightarrow> bool" where
  "can_join lp = (lp_thread lp = NotStarted \<or> lp_thread lp = LoopEnded)"

text \<open>\<open>e\<close> has the time at which the files are written, \<open>ok1\<close> and \<open>ok2\<close> whether that works.  \<open>pr_files\<close> is what is in them
  afterwards, once \<^verbatim>\<open>P2P::Stop\<close> is through.\<close>

definition P2P_Stop_dump :: "tick \<Rightarrow> bool \<Rightarrow> bool \<Rightarrow> process \<Rightarrow> process" where
  "P2P_Stop_dump e ok1 ok2 p =
     (case P2P_Stop e ok1 ok2 (pr_world p) of
        Inl _ \<Rightarrow> p\<lparr>pr_phase := Broken\<rparr>
      | Inr files \<Rightarrow> p\<lparr>pr_files := Some files, pr_phase := Ended\<rparr>)"

fun main_step :: "tick \<Rightarrow> bool \<Rightarrow> bool \<Rightarrow> process \<Rightarrow> process option" where
  "main_step e ok1 ok2 p =
     (case pr_phase p of
        WaitingToStop \<Rightarrow> FullNode_WaitToStop p
      | Interrupting \<Rightarrow> Some (FullNode_Interrupt p)
      | JoiningAcceptor \<Rightarrow> if can_join (pr_acceptor p) then Some (p\<lparr>pr_phase := JoiningConnector\<rparr>) else None
      | JoiningConnector \<Rightarrow> if can_join (pr_connector p) then Some (p\<lparr>pr_phase := Dumping\<rparr>) else None
      | Dumping \<Rightarrow> Some (P2P_Stop_dump e ok1 ok2 p)
      | _ \<Rightarrow> None)"

definition over :: "process \<Rightarrow> bool" where
  "over p = (pr_phase p \<in> {Ended, Killed, Broken})"

definition alive :: "thread_of \<Rightarrow> process \<Rightarrow> bool" where
  "alive t p =
     (\<not> over p \<and>
      (case t of AcceptorLoop \<Rightarrow> lp_thread (pr_acceptor p) = Looping
       | ConnectorLoop \<Rightarrow> lp_thread (pr_connector p) = Looping | _ \<Rightarrow> True))"

text \<open>What the threads do by themselves, and what happens to them.  A signal that changes nothing is not a step.\<close>

inductive internal_step :: "tick \<Rightarrow> bool \<Rightarrow> bool \<Rightarrow> process \<Rightarrow> process \<Rightarrow> bool" for e ok1 ok2 where
  main: "main_step e ok1 ok2 p = Some p' \<Longrightarrow> internal_step e ok1 ok2 p p'"
| acceptor: "\<not> over p \<Longrightarrow> loop_returns (pr_acceptor p) = Some lp \<Longrightarrow> internal_step e ok1 ok2 p (p\<lparr>pr_acceptor := lp\<rparr>)"
| connector: "\<not> over p \<Longrightarrow> loop_returns (pr_connector p) = Some lp \<Longrightarrow> internal_step e ok1 ok2 p (p\<lparr>pr_connector := lp\<rparr>)"

text \<open>Events of the network go on until the process is over: messages are handled by the threads of the pool, which
  nobody joins before the files are written.\<close>

inductive process_step :: "lib \<Rightarrow> process \<Rightarrow> process \<Rightarrow> bool" for l :: lib where
  internal: "internal_step e ok1 ok2 p p' \<Longrightarrow> process_step l p p'"
| traffic: "\<not> over p \<Longrightarrow> net_step l (pr_world p) w \<Longrightarrow> process_step l p (p\<lparr>pr_world := w\<rparr>)"
| signal: "alive t p \<Longrightarrow> deliver sig t p = (b, p') \<Longrightarrow> p' \<noteq> p \<Longrightarrow> process_step l p p'"
| aborts: "alive t p \<Longrightarrow> p' = abort_in t p \<Longrightarrow> p' \<noteq> p \<Longrightarrow> process_step l p p'"
| no_memory: "alive t p \<Longrightarrow> p' = HandleAllocFail t p \<Longrightarrow> process_step l p p'"

inductive process_reachable :: "lib \<Rightarrow> process \<Rightarrow> bool" for l :: lib where
  start: "process_reachable l (main_until_wait ba bc init ok w)"
| step: "process_reachable l p \<Longrightarrow> process_step l p p' \<Longrightarrow> process_reachable l p'"

inductive_cases internal_stepE: "internal_step e ok1 ok2 p p'"
inductive_cases process_stepE: "process_step l p p'"

subsection \<open>The invariant\<close>

definition told_to_exit :: "event_loop \<Rightarrow> bool" where
  "told_to_exit lp = (lp_base lp \<longrightarrow> lp_exit lp)"

definition process_inv :: "process \<Rightarrow> bool" where
  [inv_defs]: "process_inv p =
     ((pr_phase p \<noteq> Killed \<longrightarrow> pr_handlers p = BasicSetup (\<lambda>_. Default)) \<and>
      (pr_phase p \<in> {JoiningAcceptor, JoiningConnector, Dumping, Ended, Broken} \<longrightarrow>
         told_to_exit (pr_acceptor p) \<and> told_to_exit (pr_connector p)) \<and>
      (pr_phase p \<in> {JoiningConnector, Dumping, Ended, Broken} \<longrightarrow> can_join (pr_acceptor p)) \<and>
      (pr_phase p \<in> {Dumping, Ended, Broken} \<longrightarrow> can_join (pr_connector p)) \<and> (pr_files p \<noteq> None) = (pr_phase p = Ended))"

definition hung :: "process \<Rightarrow> bool" where
  "hung p = (lp_thread (pr_acceptor p) = Hung \<or> lp_thread (pr_connector p) = Hung)"

lemma StopOnce_simps [simp]:
  "pr_phase (StopOnce sig p) = pr_phase p" "pr_handlers (StopOnce sig p) = pr_handlers p"
  "pr_acceptor (StopOnce sig p) = pr_acceptor p" "pr_connector (StopOnce sig p) = pr_connector p"
  "pr_files (StopOnce sig p) = pr_files p" "pr_stopping (StopOnce sig p) \<noteq> None"
  by (auto simp: StopOnce_def)

lemma sleep_forever_simps [simp]:
  "pr_phase (sleep_forever t p) = pr_phase p" "pr_handlers (sleep_forever t p) = pr_handlers p"
  "pr_files (sleep_forever t p) = pr_files p" "pr_stopping (sleep_forever t p) = pr_stopping p"
  "pr_acceptor (sleep_forever t p) = (if t = AcceptorLoop then (pr_acceptor p)\<lparr>lp_thread := Hung\<rparr> else pr_acceptor p)"
  "pr_connector (sleep_forever t p) = (if t = ConnectorLoop then (pr_connector p)\<lparr>lp_thread := Hung\<rparr> else pr_connector p)"
  by (auto simp: sleep_forever_def split: thread_of.split)

lemma abort_in_value:
  assumes "process_inv p" "alive t p"
  shows "abort_in t p = (if t = Main then p\<lparr>pr_phase := Killed\<rparr> else sleep_forever t (StopOnce SIGABRT p))"
  using assms
  by (auto simp: abort_in_def deliver_def process_inv_def BasicSetup_def signals AbortHandler_def alive_def over_def)

text \<open>All steps, by what they do to a state of the invariant.\<close>

lemma process_step_effect:
  assumes "process_step l p p'" "process_inv p"
  obtains (internal) e ok1 ok2 where "internal_step e ok1 ok2 p p'"
  | (traffic) w where "\<not> over p" "p' = p\<lparr>pr_world := w\<rparr>"
  | (stops) sig where "\<not> over p" "p' = StopOnce sig p" "p' \<noteq> p"
  | (hangs) sig t where "alive t p" "t \<noteq> Main" "p' = sleep_forever t (StopOnce sig p)" "p' \<noteq> p"
  | (killed) "\<not> over p" "pr_phase p' = Killed" "pr_files p' = pr_files p" "pr_acceptor p' = pr_acceptor p"
      "pr_connector p' = pr_connector p" "pr_stopping p' = pr_stopping p"
  using assms(1)
proof (cases rule: process_step.cases)
  case (signal t sig b)
  then show ?thesis
    using that(3)[of sig] that(4)[of t sig] that(5)
    by (auto simp: deliver_def AbortHandler_def alive_def over_def split: handler.splits if_splits)
next
  case (aborts t)
  then show ?thesis
    using that(4)[of t SIGABRT] that(5) by (auto simp: abort_in_value[OF assms(2)] alive_def split: if_splits)
next
  case (no_memory t)
  then show ?thesis using that(5) by (auto simp: HandleAllocFail_def abort_in_def deliver_def alive_def)
qed (rule that(1) that(2); assumption)+

lemma told_to_exit_loops [simp]:
  "told_to_exit (Acceptor_ExitEventLoop lp)" "told_to_exit (Connector_ExitEventLoop lp)"
  by (simp_all add: told_to_exit_def Acceptor_ExitEventLoop_def Connector_ExitEventLoop_def)

lemma P2P_Stop_dump_value:
  "P2P_Stop_dump e ok1 ok2 p =
     (if unexpired (t_now e) (w_bans (pr_world p))
      then p\<lparr>pr_files := Some (if ok1 then Some (w_peers (pr_world p)) else None, if ok2 then Some (w_bans (pr_world p)) else None),
             pr_phase := Ended\<rparr>
      else p\<lparr>pr_phase := Broken\<rparr>)"
  by (simp add: P2P_Stop_dump_def P2P_Stop_def DumpPeers_def DumpBanList_unexpired)

lemma process_inv_main:
  assumes "main_step e ok1 ok2 p = Some p'" "process_inv p"
  shows "process_inv p'"
proof (cases "pr_phase p")
  case WaitingToStop
  then have "p' = p\<lparr>pr_phase := Interrupting\<rparr>" using assms(1) by (simp add: FullNode_WaitToStop_def split: option.splits)
  then show ?thesis using assms(2) WaitingToStop by (simp add: process_inv_def)
next
  case Interrupting
  then have "p' = FullNode_Interrupt p" using assms(1) by simp
  then show ?thesis using assms(2) Interrupting by (simp add: process_inv_def FullNode_Interrupt_def)
next
  case JoiningAcceptor
  then have "p' = p\<lparr>pr_phase := JoiningConnector\<rparr> \<and> can_join (pr_acceptor p)" using assms(1) by (simp split: if_splits)
  then show ?thesis using assms(2) JoiningAcceptor by (simp add: process_inv_def)
next
  case JoiningConnector
  then have "p' = p\<lparr>pr_phase := Dumping\<rparr> \<and> can_join (pr_connector p)" using assms(1) by (simp split: if_splits)
  then show ?thesis using assms(2) JoiningConnector by (simp add: process_inv_def)
next
  case Dumping
  then have "p' = P2P_Stop_dump e ok1 ok2 p" using assms(1) by simp
  then show ?thesis using assms(2) Dumping by (simp add: process_inv_def P2P_Stop_dump_value)
qed (use assms(1) in simp_all)

lemma loop_returns_simps:
  assumes "loop_returns lp = Some lp'"
  shows "told_to_exit lp' = told_to_exit lp" "lp_thread lp = Looping" "lp_thread lp' = LoopEnded" "can_join lp'"
  using assms by (auto simp: loop_returns_def told_to_exit_def can_join_def split: if_splits)

lemma process_inv_internal: "internal_step e ok1 ok2 p p' \<Longrightarrow> process_inv p \<Longrightarrow> process_inv p'"
proof (induction rule: internal_step.induct)
  case (acceptor p lp)
  then show ?case by (simp add: process_inv_def loop_returns_simps)
next
  case (connector p lp)
  then show ?case by (simp add: process_inv_def loop_returns_simps)
qed (rule process_inv_main)

lemma process_inv_step:
  assumes "process_step l p p'" "process_inv p"
  shows "process_inv p'"
  using assms
proof (cases rule: process_step_effect)
  case (internal e ok1 ok2)
  then show ?thesis using assms(2) by (rule process_inv_internal)
next
  case (traffic w)
  then show ?thesis using assms(2) by (simp add: process_inv_def)
next
  case (stops sig)
  then show ?thesis using assms(2) by (simp add: process_inv_def)
next
  case (hangs sig t)
  then show ?thesis using assms(2)
    by (auto simp: process_inv_def alive_def over_def told_to_exit_def can_join_def split: thread_of.splits)
next
  case killed
  then show ?thesis using assms(2) by (auto simp: process_inv_def over_def)
qed

lemma process_inv_reachable: "process_reachable l p \<Longrightarrow> process_inv p"
proof (induction rule: process_reachable.induct)
  case (start ba bc init ok w)
  show ?case by (auto simp: process_inv_def main_until_wait_def Let_def)
qed (rule process_inv_step)

lemma process_reachable_steps: "(process_step l)\<^sup>*\<^sup>* p q \<Longrightarrow> process_reachable l p \<Longrightarrow> process_reachable l q"
  by (induction rule: rtranclp_induct) (auto intro: process_reachable.step)

fun phase_rank :: "phase \<Rightarrow> nat" where
  "phase_rank WaitingToStop = 5"
| "phase_rank Interrupting = 4"
| "phase_rank JoiningAcceptor = 3"
| "phase_rank JoiningConnector = 2"
| "phase_rank Dumping = 1"
| "phase_rank _ = 0"

text \<open>The main thread never touches the threads of the loops.\<close>

lemma main_step_effect:
  assumes "main_step e ok1 ok2 p = Some p'"
  shows "lp_thread (pr_acceptor p') = lp_thread (pr_acceptor p)" "lp_thread (pr_connector p') = lp_thread (pr_connector p)"
    "phase_rank (pr_phase p') < phase_rank (pr_phase p)" "pr_phase p' \<noteq> Killed" "pr_phase p' \<noteq> WaitingToStop"
  using assms
  by (cases "pr_phase p"; auto simp: P2P_Stop_dump_value FullNode_WaitToStop_def FullNode_Interrupt_def Acceptor_ExitEventLoop_def
      Connector_ExitEventLoop_def split: option.splits if_splits)+

subsection \<open>Shutting down\<close>

definition process_rank :: "process \<Rightarrow> nat" where
  "process_rank p =
     phase_rank (pr_phase p) + of_bool (lp_thread (pr_acceptor p) = Looping) + of_bool (lp_thread (pr_connector p) = Looping)"

lemma process_rank_max: "process_rank p \<le> 7"
  by (cases "pr_phase p") (simp_all add: process_rank_def)

lemma internal_step_rank: "internal_step e ok1 ok2 p p' \<Longrightarrow> process_rank p' < process_rank p"
  by (induction rule: internal_step.induct) (simp_all add: process_rank_def loop_returns_simps main_step_effect del: main_step.simps)

definition stopping :: "process \<Rightarrow> bool" where
  "stopping p = (\<not> over p \<and> (pr_phase p = WaitingToStop \<longrightarrow> pr_stopping p \<noteq> None) \<and> \<not> hung p)"

text \<open>The end of the process: the files hold what there is to write, if no ban has expired.\<close>

definition written_out :: "tick \<Rightarrow> bool \<Rightarrow> bool \<Rightarrow> process \<Rightarrow> bool" where
  "written_out e ok1 ok2 q =
     (if unexpired (t_now e) (w_bans (pr_world q))
      then pr_phase q = Ended \<and>
        pr_files q = Some (if ok1 then Some (w_peers (pr_world q)) else None, if ok2 then Some (w_bans (pr_world q)) else None)
      else pr_phase q = Broken)"

text \<open>A run to the end: \<open>k\<close> steps of the main thread and the loops, with any traffic in between.\<close>

inductive shutdown_run :: "lib \<Rightarrow> tick \<Rightarrow> bool \<Rightarrow> bool \<Rightarrow> process \<Rightarrow> nat \<Rightarrow> process \<Rightarrow> bool" for l e ok1 ok2 p where
  none: "shutdown_run l e ok1 ok2 p 0 p"
| own: "shutdown_run l e ok1 ok2 p k q \<Longrightarrow> internal_step e ok1 ok2 q r \<Longrightarrow> shutdown_run l e ok1 ok2 p (Suc k) r"
| traffic: "shutdown_run l e ok1 ok2 p k q \<Longrightarrow> \<not> over q \<Longrightarrow> net_step l (pr_world q) w \<Longrightarrow>
    shutdown_run l e ok1 ok2 p k (q\<lparr>pr_world := w\<rparr>)"

lemma internal_step_hung: "internal_step e ok1 ok2 p p' \<Longrightarrow> hung p' = hung p"
  by (induction rule: internal_step.induct) (auto simp: hung_def loop_returns_simps main_step_effect simp del: main_step.simps)

lemma main_step_stopping:
  assumes "main_step e ok1 ok2 p = Some p'"
  shows "\<not> over p' \<or> written_out e ok1 ok2 p'"
  using assms
  by (cases "pr_phase p")
    (auto simp: FullNode_WaitToStop_def FullNode_Interrupt_def over_def written_out_def P2P_Stop_dump_value split: option.splits if_splits)

lemma internal_step_stopping:
  assumes "internal_step e ok1 ok2 p p'" "stopping p"
  shows "stopping p' \<or> written_out e ok1 ok2 p'"
proof -
  have h: "hung p' = hung p" by (rule internal_step_hung[OF assms(1)])
  from assms(1) show ?thesis
  proof (cases rule: internal_step.cases)
    case main
    then show ?thesis using h assms(2) main_step_stopping[OF main] main_step_effect(5)[OF main] by (auto simp: stopping_def)
  qed (use h assms(2) in \<open>auto simp: stopping_def over_def\<close>)
qed

lemma over_stuck: "over q \<Longrightarrow> \<not> internal_step e ok1 ok2 q r"
  by (auto elim!: internal_step.cases simp: over_def)

lemma written_out_over: "written_out e ok1 ok2 q \<Longrightarrow> over q"
  by (auto simp: written_out_def over_def split: if_splits)

lemma shutdown_run_inv:
  assumes "shutdown_run l e ok1 ok2 p k q" "process_inv p" "stopping p"
  shows "process_inv q \<and> (stopping q \<or> written_out e ok1 ok2 q) \<and> k + process_rank q \<le> process_rank p"
  using assms
proof (induction rule: shutdown_run.induct)
  case (own k q r)
  note q = own.IH[OF own.prems]
  have "\<not> over q" using own.hyps(2) over_stuck by blast
  then have "stopping q" using q written_out_over by blast
  then show ?case
    using q process_inv_internal[OF own.hyps(2)] internal_step_stopping[OF own.hyps(2)] internal_step_rank[OF own.hyps(2)] by linarith
next
  case (traffic k q w)
  note q = traffic.IH[OF traffic.prems]
  have "stopping q" using q traffic.hyps(2) written_out_over by blast
  moreover have "stopping (q\<lparr>pr_world := w\<rparr>) = stopping q" "process_inv (q\<lparr>pr_world := w\<rparr>) = process_inv q"
      "process_rank (q\<lparr>pr_world := w\<rparr>) = process_rank q"
    by (simp_all add: stopping_def over_def hung_def process_inv_def process_rank_def)
  ultimately show ?case using q by simp
qed simp

text \<open>Whoever is waited for can go on.\<close>

lemma stopping_progress:
  assumes "process_inv q" "stopping q"
  shows "\<exists>r. internal_step e ok1 ok2 q r"
proof -
  have o: "\<not> over q" using assms(2) by (simp add: stopping_def)
  have l: "can_join lp \<or> lp_thread lp = Hung \<or> (told_to_exit lp \<longrightarrow> loop_returns lp \<noteq> None)" for lp
    by (cases "lp_thread lp") (auto simp: can_join_def told_to_exit_def loop_returns_def)
  have "(\<exists>r. main_step e ok1 ok2 q = Some r) \<or> loop_returns (pr_acceptor q) \<noteq> None \<or> loop_returns (pr_connector q) \<noteq> None"
    using assms l[of "pr_acceptor q"] l[of "pr_connector q"]
    by (cases "pr_phase q") (auto simp: stopping_def over_def process_inv_def hung_def FullNode_WaitToStop_def)
  then show ?thesis using internal_step.intros[where e = e and ?ok1.0 = ok1 and ?ok2.0 = ok2] o by blast
qed

text \<open>C16: Once a signal asks the node to stop, or its start failed, and as long as no loop is stuck in a handler, at most
  seven steps of the main thread and the two loops are left, whatever the network does meanwhile, and
  they can only stop at the end of \<^verbatim>\<open>P2P::Stop\<close>: if no ban has expired by then \<^verbatim>\<open>main\<close> returns, and the peers and the
  bans of that moment are in those of the two files that could be written; if one has, the behaviour is undefined.\<close>
theorem shutdown_completes:
  assumes "process_reachable l p" "stopping p" "shutdown_run l e ok1 ok2 p k q"
  shows "k \<le> 7 \<and> ((\<nexists>r. internal_step e ok1 ok2 q r) \<longleftrightarrow> over q) \<and>
    (over q \<longrightarrow>
      (if unexpired (t_now e) (w_bans (pr_world q))
       then pr_phase q = Ended \<and>
         pr_files q = Some (if ok1 then Some (w_peers (pr_world q)) else None, if ok2 then Some (w_bans (pr_world q)) else None)
       else pr_phase q = Broken))"
proof -
  have q: "process_inv q" "stopping q \<or> written_out e ok1 ok2 q" "k + process_rank q \<le> process_rank p"
    using shutdown_run_inv[OF assms(3) process_inv_reachable[OF assms(1)] assms(2)] by auto
  have "k \<le> 7" using q(3) process_rank_max[of p] by simp
  moreover have "(\<nexists>r. internal_step e ok1 ok2 q r) \<longleftrightarrow> over q"
    using q(2) stopping_progress[OF q(1)] over_stuck written_out_over by blast
  moreover have "over q \<longrightarrow> written_out e ok1 ok2 q" using q(2) by (auto simp: stopping_def)
  ultimately show ?thesis by (simp add: written_out_def)
qed

text \<open>A running node, a \<^verbatim>\<open>SIGTERM\<close>, and the seven steps, with a ban that runs until 50 and an end at 10 or at 100.\<close>

abbreviation running_node :: "world \<Rightarrow> process" where
  "running_node w \<equiv> main_until_wait True True True True w"

lemma running_node_signal: "process_reachable l (StopOnce SIGTERM (running_node w))"
  by (rule process_reachable.step[OF start[of _ True True True True] signal[of OtherThread _ SIGTERM True]])
    (simp_all add: alive_def over_def main_until_wait_def deliver_def BasicSetup_def signals StopOnce_def)

lemma running_node_run:
  "\<exists>q. shutdown_run l e ok1 ok2 (StopOnce SIGTERM (running_node w)) 7 q \<and> over q \<and> pr_world q = w"
proof -
  define p where "p = StopOnce SIGTERM (running_node w)"
  define a where "a = p\<lparr>pr_phase := Interrupting\<rparr>"
  define b where "b = FullNode_Interrupt a"
  define c where "c = b\<lparr>pr_acceptor := (pr_acceptor b)\<lparr>lp_thread := LoopEnded\<rparr>\<rparr>"
  define d where "d = c\<lparr>pr_phase := JoiningConnector\<rparr>"
  define f where "f = d\<lparr>pr_connector := (pr_connector d)\<lparr>lp_thread := LoopEnded\<rparr>\<rparr>"
  define g where "g = f\<lparr>pr_phase := Dumping\<rparr>"
  define q where "q = P2P_Stop_dump e ok1 ok2 g"
  have start: "p = running_node w\<lparr>pr_stopping := Some SIGTERM\<rparr>" by (simp add: p_def StopOnce_def main_until_wait_def)
  note vals = start a_def b_def c_def d_def f_def g_def main_until_wait_def FullNode_Interrupt_def StartEventLoop_def
    Acceptor_ExitEventLoop_def Connector_ExitEventLoop_def
  let ?S = "internal_step e ok1 ok2"
  have s1: "?S p a" by (rule internal_step.main) (simp add: vals FullNode_WaitToStop_def)
  have s2: "?S a b" by (rule internal_step.main) (simp add: b_def, simp add: vals)
  have s3: "?S b c" unfolding c_def by (rule internal_step.acceptor) (simp_all add: vals over_def loop_returns_def)
  have s4: "?S c d" by (rule internal_step.main) (simp add: vals can_join_def)
  have s5: "?S d f" unfolding f_def by (rule internal_step.connector) (simp_all add: vals over_def loop_returns_def)
  have s6: "?S f g" by (rule internal_step.main) (simp add: vals can_join_def)
  have s7: "?S g q" by (rule internal_step.main) (simp add: q_def, simp add: vals)
  note S = shutdown_run.own[where l = l and e = e and p = p]
  have "shutdown_run l e ok1 ok2 p (Suc (Suc (Suc (Suc (Suc (Suc (Suc 0))))))) q"
    by (rule S[OF _ s7], rule S[OF _ s6], rule S[OF _ s5], rule S[OF _ s4], rule S[OF _ s3], rule S[OF _ s2],
      rule S[OF _ s1], rule shutdown_run.none)
  then have r: "shutdown_run l e ok1 ok2 p 7 q" by (simp only: eval_nat_numeral One_nat_def BitM.simps)
  have "pr_world g = w" by (simp add: vals)
  then show ?thesis using r by (intro exI[of _ q]) (simp add: p_def[symmetric] q_def P2P_Stop_dump_value over_def)
qed

lemma shutdown_completes_witness:
  "\<exists>l w e q. w_bans w = [(''1.2.3.4/32'', \<lparr>be_version = 1, create_time = 0, ban_until = 50, ban_reason = 0\<rparr>)] \<and>
    shutdown_run l (e\<lparr>t_now := 10\<rparr>) True False (StopOnce SIGTERM (running_node w)) 7 q \<and>
    pr_phase q = Ended \<and> pr_files q = Some (Some (w_peers w), None) \<and>
    (\<exists>q. shutdown_run l (e\<lparr>t_now := 100\<rparr>) True True (StopOnce SIGTERM (running_node w)) 7 q \<and> pr_phase q = Broken)"
proof -
  fix l :: lib and e :: tick and v :: world
  define w where "w = v\<lparr>w_bans := [(''1.2.3.4/32'', \<lparr>be_version = 1, create_time = 0, ban_until = 50, ban_reason = 0\<rparr>)]\<rparr>"
  have s: "stopping (StopOnce SIGTERM (running_node w))"
    by (simp add: stopping_def over_def hung_def StopOnce_def main_until_wait_def StartEventLoop_def)
  note S = shutdown_completes[OF running_node_signal s]
  obtain q1 q2 where q: "shutdown_run l (e\<lparr>t_now := 10\<rparr>) True False (StopOnce SIGTERM (running_node w)) 7 q1" "over q1" "pr_world q1 = w"
      "shutdown_run l (e\<lparr>t_now := 100\<rparr>) True True (StopOnce SIGTERM (running_node w)) 7 q2" "over q2" "pr_world q2 = w"
    using running_node_run[of l "e\<lparr>t_now := 10\<rparr>" True False w] running_node_run[of l "e\<lparr>t_now := 100\<rparr>" True True w] by blast
  show ?thesis
    by (intro exI[of _ l] exI[of _ w] exI[of _ e] exI[of _ q1] conjI exI[of _ q2])
      (use q S[OF q(1)] S[OF q(4)] in \<open>auto simp: w_def unexpired_def\<close>)
qed

lemma hung_step: "process_step l p p' \<Longrightarrow> process_inv p \<Longrightarrow> hung p \<Longrightarrow> hung p'"
  by (erule process_step_effect, assumption) (simp add: internal_step_hung, auto simp: hung_def)

lemma hung_steps: "(process_step l)\<^sup>*\<^sup>* p q \<Longrightarrow> process_inv p \<Longrightarrow> hung p \<Longrightarrow> process_inv q \<and> hung q"
  by (induction rule: rtranclp_induct) (auto intro: hung_step process_inv_step)

lemma hung_not_ended:
  assumes "process_inv q" "hung q"
  shows "pr_phase q \<noteq> Ended \<and> pr_files q = None"
proof -
  have "\<not> (can_join (pr_acceptor q) \<and> can_join (pr_connector q))"
    using assms(2) unfolding hung_def can_join_def by (elim disjE) simp_all
  then show ?thesis using assms(1) unfolding process_inv_def by blast
qed

text \<open>C36: A failed assertion or an uncaught exception in the thread of an event loop, which accepts, connects and reads,
  asks the node to stop and then prevents it: the handler never returns, so the main thread waits
  for that thread for ever, the peers and bans are not written, and \<^verbatim>\<open>main\<close> never returns.\<close>
theorem abort_in_loop_hangs:
  assumes "process_reachable l p" "t = AcceptorLoop \<or> t = ConnectorLoop" "alive t p"
  shows "process_step l p (abort_in t p) \<and> pr_stopping (abort_in t p) \<noteq> None \<and>
    (\<forall>q. (process_step l)\<^sup>*\<^sup>* (abort_in t p) q \<longrightarrow> pr_phase q \<noteq> Ended \<and> pr_files q = None)"
proof -
  note i = process_inv_reachable[OF assms(1)]
  have a: "abort_in t p = sleep_forever t (StopOnce SIGABRT p)" using abort_in_value[OF i assms(3)] assms(2) by auto
  have h: "hung (abort_in t p)" using assms(2) by (auto simp: a hung_def)
  have "hung (abort_in t p) \<noteq> hung p \<or> process_rank (abort_in t p) \<noteq> process_rank p"
    using assms(2,3) by (auto simp: a process_rank_def alive_def)
  then have "abort_in t p \<noteq> p" by auto
  then have s: "process_step l p (abort_in t p)" using assms(3) by (auto intro: process_step.aborts)
  show ?thesis
    using s hung_steps[OF _ process_inv_step[OF s i] h] hung_not_ended by (auto simp: a)
qed

lemma abort_in_loop_hangs_witness:
  "\<exists>l w. process_reachable l (running_node w) \<and> pr_stopping (abort_in AcceptorLoop (running_node w)) \<noteq> None \<and>
   (\<nexists>q. (process_step l)\<^sup>*\<^sup>* (abort_in AcceptorLoop (running_node w)) q \<and> pr_files q \<noteq> None)"
proof -
  fix l :: lib and w :: world
  have "alive AcceptorLoop (running_node w)" by (simp add: alive_def over_def main_until_wait_def StartEventLoop_def)
  then have "pr_stopping (abort_in AcceptorLoop (running_node w)) \<noteq> None \<and>
      (\<forall>q. (process_step l)\<^sup>*\<^sup>* (abort_in AcceptorLoop (running_node w)) q \<longrightarrow> pr_phase q \<noteq> Ended \<and> pr_files q = None)"
    using abort_in_loop_hangs[OF start[of l True True True True w], of AcceptorLoop] by simp
  then show ?thesis using start[of l True True True True w] by (intro exI[of _ l] exI[of _ w]) simp
qed

end
