(* ===== verification/Addr_Order.thy ===== *)
theory Addr_Order
  imports Net_Addr
begin

text \<open>
  The rest of \<^verbatim>\<open>NetAddr\<close>: the constructors from \<^verbatim>\<open>sockaddr_storage\<close> and from a protobuf message, and \<^verbatim>\<open>operator<\<close>,
  which compares the sixteen bytes and, unlike \<^verbatim>\<open>operator==\<close>, not the port.
\<close>

text \<open>Every family but \<^verbatim>\<open>AF_INET\<close> is read as a \<^verbatim>\<open>sockaddr_in6\<close>; \<open>raw\<close> is how the storage of another family reads as one.\<close>

definition NetAddr_storage :: "bytes \<times> u16 \<times> u32 \<Rightarrow> sock_addr \<Rightarrow> net_addr res" where
  "NetAddr_storage raw s =
     (case s of
        SockIn w p \<Rightarrow> NetAddr_in w p
      | SockIn6 b p sc \<Rightarrow> NetAddr_in6 b p sc
      | SockOther \<Rightarrow> (case raw of (b, p, sc) \<Rightarrow> NetAddr_in6 b p sc))"

text \<open>A message is adopted as it is, whatever the number of its words.\<close>

definition NetAddr_proto :: "net_addr \<Rightarrow> net_addr" where
  "NetAddr_proto m = m"

fun memcmp_less :: "bytes \<Rightarrow> bytes \<Rightarrow> bool" where
  "memcmp_less (x # xs) (y # ys) = (x < y \<or> x = y \<and> memcmp_less xs ys)"
| "memcmp_less _ _ = False"

definition NetAddr_less :: "net_addr \<Rightarrow> net_addr \<Rightarrow> bool" where
  "NetAddr_less a b = memcmp_less (take kIpByteSize (ip a)) (take kIpByteSize (ip b))"

text \<open>What the ordered containers of the standard library ask of a comparison.\<close>

locale strict_weak_order =
  fixes less :: "'a \<Rightarrow> 'a \<Rightarrow> bool" and eqv :: "'a \<Rightarrow> 'a \<Rightarrow> bool" and valid :: "'a \<Rightarrow> bool"
  assumes irrefl: "\<not> less a a"
    and trans: "less a b \<Longrightarrow> less b c \<Longrightarrow> less a c"
    and neither: "valid a \<Longrightarrow> valid b \<Longrightarrow> \<not> less a b \<and> \<not> less b a \<longleftrightarrow> eqv a b"
begin

lemma asym: "less a b \<Longrightarrow> \<not> less b a"
  using irrefl trans by blast

lemma exactly_one:
  "valid a \<Longrightarrow> valid b \<Longrightarrow> (less a b \<and> \<not> less b a \<and> \<not> eqv a b) \<or> (less b a \<and> \<not> less a b \<and> \<not> eqv a b) \<or>
     (eqv a b \<and> \<not> less a b \<and> \<not> less b a)"
  using neither[of a b] asym[of a b] by blast

end

lemma memcmp_less_irrefl: "\<not> memcmp_less xs xs"
  by (induction xs) auto

lemma memcmp_less_trans: "memcmp_less xs ys \<Longrightarrow> memcmp_less ys zs \<Longrightarrow> memcmp_less xs zs"
  by (induction xs ys arbitrary: zs rule: memcmp_less.induct) (case_tac zs; auto)+

lemma memcmp_less_neither: "length xs = length ys \<Longrightarrow> \<not> memcmp_less xs ys \<Longrightarrow> \<not> memcmp_less ys xs \<Longrightarrow> xs = ys"
  by (induction xs ys rule: list_induct2) auto

interpretation addr_order: strict_weak_order NetAddr_less "\<lambda>a b. ip a = ip b" addr_wf
  by unfold_locales
    (auto simp: NetAddr_less_def memcmp_less_irrefl inv_defs intro: memcmp_less_neither dest: memcmp_less_trans)

text \<open>Two addresses of one host with different ports are told apart by \<^verbatim>\<open>==\<close> and not by \<^verbatim>\<open><\<close>.\<close>

lemma less_ignores_port:
  assumes "addr_wf a" "addr_wf b"
  shows "NetAddr_eq a b \<longleftrightarrow> \<not> NetAddr_less a b \<and> \<not> NetAddr_less b a \<and> na_port a = na_port b"
  using addr_order.neither[OF assms] assms by (auto simp: NetAddr_eq_def inv_defs)

text \<open>The constructor and \<^verbatim>\<open>FromSockAddr\<close> agree on the two families of the internet.\<close>

lemma NetAddr_storage_FromSockAddr:
  "s \<noteq> SockOther \<Longrightarrow> FromSockAddr s a = res_bind (NetAddr_storage raw s) (\<lambda>b. Inr (True, b))"
  by (cases s) (simp_all add: FromSockAddr_def NetAddr_storage_def)

end
