(* ===== verification/Outbound_Timer.thy ===== *)
theory Outbound_Timer
  imports Executor Net_Events
begin

text \<open>
  The event loops are made and the search for outbound peers is started: \<^verbatim>\<open>InitEvent\<close> of
  \<^verbatim>\<open>src/network/src/acceptor.cpp\<close> and \<^verbatim>\<open>src/network/src/connector.cpp\<close>, \<^verbatim>\<open>Connector::StartOutboundTimer\<close>, and the timers it
  makes as a step relation together with the events of \<open>Net_Events\<close>.  The program has one manager of
  timers; the timers of the connector are kept apart from those of the nodes here, since no timer
  reads another one.
\<close>

subsection \<open>The event loops\<close>

text \<open>The arguments are whether the context is valid and what the calls of libevent and \<^verbatim>\<open>setsockopt\<close> return.\<close>

definition Acceptor_InitEvent :: "bool \<Rightarrow> bool \<Rightarrow> bool \<Rightarrow> bool \<Rightarrow> event_loop \<Rightarrow> bool \<times> event_loop" where
  "Acceptor_InitEvent ctx base listener no_delay lp =
     (if \<not> ctx then (False, lp)
      else
        let lp1 = lp\<lparr>lp_base := base\<rparr> in
        if \<not> base then (False, lp1)
        else if \<not> listener then (False, lp1)
        else if \<not> no_delay then (False, lp1)
        else (True, lp1))"

definition NewSocketEvent :: "nat option \<Rightarrow> nat option" where
  "NewSocketEvent bev = (case bev of None \<Rightarrow> None | Some b \<Rightarrow> Some b)"

definition Connector_InitEvent :: "bool \<Rightarrow> nat option \<Rightarrow> event_loop \<Rightarrow> bool \<times> event_loop" where
  "Connector_InitEvent base bev lp =
     (let lp1 = lp\<lparr>lp_base := base\<rparr> in
      if \<not> base then (False, lp1)
      else if NewSocketEvent bev = None then (False, lp1)
      else (True, lp1))"

text \<open>A loop whose initialisation succeeded runs until it is told to exit.\<close>

lemma initialised_loop_runs:
  assumes "Acceptor_InitEvent ctx base listener no_delay lp = (True, lp') \<or> Connector_InitEvent base bev lp = (True, lp')"
  shows "loop_returns (StartEventLoop lp') \<noteq> None \<longleftrightarrow> lp_exit lp"
  using assms
  by (auto simp: Acceptor_InitEvent_def Connector_InitEvent_def Let_def loop_returns_def StartEventLoop_def split: if_splits)

subsection \<open>The timers of the connector\<close>

datatype connector_cb = SeedLookup | OutboundSearch

record connector =
  cn_timers :: "connector_cb timer_mng"
  cn_pool :: "connector_cb list"
  cn_outbound_timer :: "nat option"

definition Connector_new :: connector where
  "Connector_new = \<lparr>cn_timers = tm_init, cn_pool = [], cn_outbound_timer = None\<rparr>"

definition start_connector_timer :: "int \<Rightarrow> u32 \<Rightarrow> u32 \<Rightarrow> connector_cb \<Rightarrow> connector \<Rightarrow> nat option \<times> connector" where
  "start_connector_timer now timeout interval cb cn =
     (let (t, m) = StartTimer now timeout interval cb (cn_timers cn) in (t, cn\<lparr>cn_timers := m\<rparr>))"

definition StartOutboundTimer :: "bool \<Rightarrow> int \<Rightarrow> world \<Rightarrow> connector \<Rightarrow> bool \<times> connector" where
  "StartOutboundTimer ctx now w cn =
     (if \<not> ctx then (False, cn)
      else
        let cn1 = (if ShouldDnsLookup (w_outbounds w) w then
                     if \<not> Peers_IsEmpty (w_peers w) then snd (start_connector_timer now 11000 0 SeedLookup cn)
                     else cn\<lparr>cn_pool := cn_pool cn @ [SeedLookup]\<rparr>
                   else cn);
            (t, cn2) = start_connector_timer now 500 500 OutboundSearch cn1 in
        (t \<noteq> None, cn2\<lparr>cn_outbound_timer := t\<rparr>))"

text \<open>What a call of a callback depends on.\<close>

record connector_call =
  cc_tick :: tick
  cc_rnds :: "nat \<Rightarrow> nat \<Rightarrow> nat"
  cc_stops :: "nat \<Rightarrow> bool"
  cc_base :: bool
  cc_bev :: "nat option"
  cc_connected :: bool
  cc_seeds :: "(bytes \<times> bool \<times> net_addr list option \<times> (nat \<Rightarrow> nat)) list"

definition run_connector_cb :: "lib \<Rightarrow> connector_call \<Rightarrow> connector_cb \<Rightarrow> world \<times> connector \<Rightarrow> (world \<times> connector) res" where
  "run_connector_cb l c cb s =
     (case cb of
        SeedLookup \<Rightarrow> res_bind (DnsLookup l (cc_tick c) (cc_seeds c) (fst s)) (\<lambda>(_, w). Inr (w, snd s))
      | OutboundSearch \<Rightarrow>
          res_bind (OutboundTimeOutCb l (cc_tick c) (cc_rnds c) (cc_stops c) (cc_base c) (cc_bev c) (cc_connected c) (fst s))
            (\<lambda>(_, w). Inr (w, snd s)))"

definition run_connector_timer :: "lib \<Rightarrow> connector_call \<Rightarrow> nat \<Rightarrow> world \<times> connector \<Rightarrow> (world \<times> connector) res" where
  "run_connector_timer l c t s =
     InvokeTimerCb (run_connector_cb l c) (\<lambda>(w, cn). cn_timers cn) (\<lambda>m (w, cn). (w, cn\<lparr>cn_timers := m\<rparr>)) (t_ms (cc_tick c)) t s"

text \<open>The states hold the clock in milliseconds, an \<^verbatim>\<open>int64_t\<close> that is taken not to go back; checks and callbacks read it.\<close>

type_synonym connector_state = "int \<times> world \<times> connector"

inductive connector_step :: "lib \<Rightarrow> connector_state \<Rightarrow> connector_state \<Rightarrow> bool" for l :: lib where
  clock: "now \<le> now' \<Longrightarrow> now' < 2 ^ 63 \<Longrightarrow> connector_step l (now, w, cn) (now', w, cn)"
| net: "net_step l w w' \<Longrightarrow> connector_step l (now, w, cn) (now, w', cn)"
| check: "connector_step l (now, w, cn) (now, w, cn\<lparr>cn_timers := CheckTimers (of_int now) (cn_timers cn)\<rparr>)"
| timer: "t \<in> set (tm_tasks (cn_timers cn)) \<Longrightarrow> fresh_bev (cc_bev c) w \<Longrightarrow> t_ms (cc_tick c) = now \<Longrightarrow>
    run_connector_timer l c t (w, cn\<lparr>cn_timers := (cn_timers cn)\<lparr>tm_tasks := remove1 t (tm_tasks (cn_timers cn))\<rparr>\<rparr>) = Inr s' \<Longrightarrow>
    connector_step l (now, w, cn) (now, s')"
| task: "cn_pool cn = cb # cbs \<Longrightarrow> fresh_bev (cc_bev c) w \<Longrightarrow>
    run_connector_cb l c cb (w, cn\<lparr>cn_pool := cbs\<rparr>) = Inr s' \<Longrightarrow> connector_step l (now, w, cn) (now, s')"

inductive connector_reachable :: "lib \<Rightarrow> connector_state \<Rightarrow> bool" for l :: lib where
  start: "0 \<le> now \<Longrightarrow> now < 2 ^ 63 \<Longrightarrow> reachable l w \<Longrightarrow> StartOutboundTimer True now w Connector_new = (ok, cn) \<Longrightarrow>
    connector_reachable l (now, w, cn)"
| step: "connector_reachable l s \<Longrightarrow> connector_step l s s' \<Longrightarrow> connector_reachable l s'"

subsection \<open>The search goes on\<close>

text \<open>The timer of the search is never erased; it is with the pool or expires within half a second.\<close>

lemma uint_later: "0 \<le> now \<Longrightarrow> now < 2 ^ 63 \<Longrightarrow> uint (later now 500) = now + 500"
  by (simp add: later_def uint_word_of_int del: of_int_add)

definition search_timer :: "int \<Rightarrow> nat \<Rightarrow> connector_cb timer_cfg \<Rightarrow> connector_cb timer_mng \<Rightarrow> bool" where
  "search_timer now t c m =
     (tm_inv m \<and> t \<in> set (tm_timers m) \<and> tm_cfg m t = Some c \<and> tc_cb c = OutboundSearch \<and> tc_interval c = 500 \<and>
      \<not> tc_suspended c \<and> (t \<in> set (tm_tasks m) \<or> uint (tc_expire c) \<le> now + 500))"

definition search_armed :: "int \<Rightarrow> connector \<Rightarrow> bool" where
  "search_armed now cn =
     (0 \<le> now \<and> now < 2 ^ 63 \<and> (\<exists>t c. cn_outbound_timer cn = Some t \<and> search_timer now t c (cn_timers cn)))"

lemma search_armed_later: "search_armed now cn \<Longrightarrow> now \<le> now' \<Longrightarrow> now' < 2 ^ 63 \<Longrightarrow> search_armed now' cn"
  by (fastforce simp: search_armed_def search_timer_def)

lemma StartOutboundTimer_armed:
  assumes "StartOutboundTimer True now w Connector_new = (ok, cn)" "0 \<le> now" "now < 2 ^ 63"
  shows "ok" "search_armed now cn"
proof -
  have "ok \<and> search_armed now cn"
    using assms
    by (cases "ShouldDnsLookup (w_outbounds w) w"; cases "Peers_IsEmpty (w_peers w)")
      (auto simp: StartOutboundTimer_def start_connector_timer_def Connector_new_def StartTimer_def tm_init_def tm_inv_def
        search_armed_def search_timer_def uint_later)
  then show "ok" "search_armed now cn" by simp_all
qed

lemma search_timer_check:
  assumes "search_timer n t c m"
  shows "\<exists>c'. search_timer n t c' (CheckTimers now m)"
proof -
  have m: "tm_inv m" "t \<in> set (tm_timers m)" "tm_cfg m t = Some c" using assms by (simp_all add: search_timer_def)
  note s = CheckTimers_spec[OF m, of now]
  have "count_list (tm_tasks (CheckTimers now m)) t \<noteq> 0 \<longleftrightarrow> t \<in> set (tm_tasks (CheckTimers now m))"
    by (simp add: count_list_0_iff)
  moreover have "count_list (tm_tasks m) t \<noteq> 0 \<longleftrightarrow> t \<in> set (tm_tasks m)" by (simp add: count_list_0_iff)
  ultimately show ?thesis
    using assms s tm_inv_check[OF m(1), of now] by (auto simp: search_timer_def split: if_splits)
qed

lemma search_timer_remove:
  "search_timer now t c m \<Longrightarrow> s \<noteq> t \<Longrightarrow> search_timer now t c (m\<lparr>tm_tasks := remove1 s (tm_tasks m)\<rparr>)"
  by (auto simp: search_timer_def)

text \<open>Running any timer keeps the one of the search; running that one arms it again.\<close>

lemma Invoke_after_search:
  assumes "search_timer now t c m" "Invoke_after now s (m\<lparr>tm_tasks := remove1 s (tm_tasks m)\<rparr>) = Inr m'"
    "0 \<le> now" "now < 2 ^ 63"
  shows "\<exists>c'. search_timer now t c' m'"
proof (cases "s = t")
  case True
  then show ?thesis using assms
    by (auto simp: Invoke_after_def search_timer_def tm_inv_upd uint_later split: option.splits if_splits)
next
  case False
  let ?m = "m\<lparr>tm_tasks := remove1 s (tm_tasks m)\<rparr>"
  have m: "search_timer now t c ?m" using assms(1) False by (rule search_timer_remove)
  then have "tm_inv m'" using tm_inv_after[OF _ assms(2)] by (simp add: search_timer_def)
  then show ?thesis using assms(2) False m
    by (auto simp: Invoke_after_def search_timer_def erase_timer_def split: option.splits if_splits)
qed

lemma run_connector_cb_keeps: "run_connector_cb l c cb (w, cn) = Inr (w', cn') \<Longrightarrow> cn' = cn"
  by (auto simp: run_connector_cb_def res_bind_eq_Inr split: connector_cb.splits)

lemma run_connector_cb_net:
  "run_connector_cb l c cb (w, cn) = Inr (w', cn') \<Longrightarrow> fresh_bev (cc_bev c) w \<Longrightarrow> net_step l w w'"
  by (auto simp: run_connector_cb_def res_bind_eq_Inr split: connector_cb.splits intro: net_step.outbound net_step.seeds)

lemma run_connector_timer_cases:
  assumes "run_connector_timer l c t (w, cn) = Inr (w', cn')"
  obtains "tm_cfg (cn_timers cn) t = None" "w' = w" "cn' = cn"
  | cb m where "run_connector_cb l c cb (w, cn) = Inr (w', cn)" "Invoke_after (t_ms (cc_tick c)) t (cn_timers cn) = Inr m"
      "cn' = cn\<lparr>cn_timers := m\<rparr>"
proof (cases "tm_cfg (cn_timers cn) t")
  case None
  then have "w' = w" "cn' = cn" using assms by (simp_all add: run_connector_timer_def InvokeTimerCb_def)
  with None show ?thesis by (rule that(1))
next
  case (Some cf)
  then obtain w1 cn1 m where m: "run_connector_cb l c (tc_cb cf) (w, cn) = Inr (w1, cn1)"
      "Invoke_after (t_ms (cc_tick c)) t (cn_timers cn1) = Inr m" "w' = w1" "cn' = cn1\<lparr>cn_timers := m\<rparr>"
    using assms by (auto simp: run_connector_timer_def InvokeTimerCb_def res_bind_eq_Inr)
  have "cn1 = cn" using m(1) by (rule run_connector_cb_keeps)
  then show ?thesis using m that(2) by blast
qed

lemma connector_step_armed:
  assumes "connector_step l s s'" "search_armed (fst s) (snd (snd s))"
  shows "search_armed (fst s') (snd (snd s'))"
  using assms
proof (induction rule: connector_step.induct)
  case (clock now now' w cn)
  then show ?case by (simp add: search_armed_later)
next
  case (check now w cn)
  then show ?case using search_timer_check by (fastforce simp: search_armed_def)
next
  case (timer t cn c w now s')
  obtain w' cn' where s': "s' = (w', cn')" by fastforce
  let ?m = "(cn_timers cn)\<lparr>tm_tasks := remove1 t (tm_tasks (cn_timers cn))\<rparr>"
  obtain r cf where r: "cn_outbound_timer cn = Some r" "search_timer now r cf (cn_timers cn)" "0 \<le> now" "now < 2 ^ 63"
    using timer(5) by (auto simp: search_armed_def)
  from timer(4)[unfolded s'] show ?case
  proof (cases rule: run_connector_timer_cases)
    case 1
    then have "t \<noteq> r" using r(2) by (auto simp: search_timer_def)
    then show ?thesis using 1 r search_timer_remove[OF r(2)] by (auto simp: s' search_armed_def)
  next
    case (2 cb m)
    then have "Invoke_after now t ?m = Inr m" using timer(3) by simp
    from Invoke_after_search[OF r(2) this r(3,4)] show ?thesis using 2 r by (auto simp: s' search_armed_def)
  qed
next
  case (task cn cb cbs c w s' now)
  obtain w' cn' where s': "s' = (w', cn')" by fastforce
  have "cn' = cn\<lparr>cn_pool := cbs\<rparr>" using task(3) unfolding s' by (rule run_connector_cb_keeps)
  then show ?case using task(4) by (simp add: s' search_armed_def)
qed simp

lemma connector_step_net:
  assumes "connector_step l s s'" "reachable l (fst (snd s))"
  shows "reachable l (fst (snd s'))"
  using assms
proof (induction rule: connector_step.induct)
  case (timer t cn c w now s')
  obtain w' cn' where s': "s' = (w', cn')" by fastforce
  from timer(4)[unfolded s'] show ?case
  proof (cases rule: run_connector_timer_cases)
    case (2 cb m)
    then show ?thesis using run_connector_cb_net[OF 2(1) timer(2)] timer(5) by (auto simp: s')
  qed (use timer(5) in \<open>simp add: s'\<close>)
next
  case (task cn cb cbs c w s' now)
  then show ?case by (cases s') (auto dest: run_connector_cb_net)
qed auto

lemma connector_reachable_inv: "connector_reachable l s \<Longrightarrow> search_armed (fst s) (snd (snd s)) \<and> reachable l (fst (snd s))"
  by (induction rule: connector_reachable.induct)
    (auto simp: StartOutboundTimer_armed(2) intro: connector_step_armed connector_step_net)

text \<open>C17: The search for outbound peers never stops by itself: whatever events, checks and callbacks there were since it was
  started, while the clock does not go back, at every moment its timer is with the pool of threads, or it
  expires at most half a second from now and exactly the checks from then on hand it over; and the
  callbacks leave the layer in a state its events reach, so its invariants hold.\<close>
theorem outbound_search_goes_on:
  assumes "connector_reachable l (now, w, cn)"
  shows "\<exists>t c. cn_outbound_timer cn = Some t \<and> tm_cfg (cn_timers cn) t = Some c \<and> tc_cb c = OutboundSearch \<and>
    (t \<in> set (tm_tasks (cn_timers cn)) \<or>
      (uint (tc_expire c) \<le> now + 500 \<and>
        (\<forall>n. (t \<in> set (tm_tasks (CheckTimers n (cn_timers cn)))) = (uint (tc_expire c) \<le> uint n)))) \<and> reachable l w"
proof -
  obtain t c where t: "cn_outbound_timer cn = Some t" "search_timer now t c (cn_timers cn)" "reachable l w"
    using connector_reachable_inv[OF assms] by (auto simp: search_armed_def)
  have m: "tm_inv (cn_timers cn)" "t \<in> set (tm_timers (cn_timers cn))" "tm_cfg (cn_timers cn) t = Some c" "\<not> tc_suspended c"
    using t(2) by (simp_all add: search_timer_def)
  have "t \<in> set (tm_tasks (CheckTimers n (cn_timers cn))) \<longleftrightarrow> uint (tc_expire c) \<le> uint n" if "t \<notin> set (tm_tasks (cn_timers cn))" for n
    using CheckTimers_spec(2)[OF m(1-3), of n] that m(4) count_list_0_iff[of "tm_tasks (CheckTimers n (cn_timers cn))" t]
      count_list_0_iff[of "tm_tasks (cn_timers cn)" t]
    by (auto simp: word_le_def split: if_splits)
  then show ?thesis using t m by (auto simp: search_timer_def)
qed

text \<open>The search is started at 0, the clock goes on to 700 and a check hands the timer over.\<close>

lemma outbound_search_goes_on_witness:
  "\<exists>l w cn. connector_reachable l (700, w, cn) \<and> cn_pool cn = [SeedLookup] \<and> tm_tasks (cn_timers cn) = [0] \<and>
    (\<exists>t c. cn_outbound_timer cn = Some t \<and> tm_cfg (cn_timers cn) t = Some c \<and> tc_cb c = OutboundSearch)"
proof -
  fix l :: lib
  define w where "w = (world_init [])\<lparr>w_local_addrs := []\<rparr>"
  define cn where "cn = snd (StartOutboundTimer True 0 w Connector_new)"
  define cn1 where "cn1 = cn\<lparr>cn_timers := CheckTimers (of_int 700) (cn_timers cn)\<rparr>"
  have "connector_reachable l (0, w, cn)"
    unfolding w_def cn_def by (rule connector_reachable.start[OF _ _ reachable.init]) (simp, simp, rule prod.collapse[symmetric])
  then have "connector_reachable l (700, w, cn)" by (rule connector_reachable.step[OF _ connector_step.clock]) simp_all
  then have r: "connector_reachable l (700, w, cn1)"
    unfolding cn1_def by (rule connector_reachable.step[OF _ connector_step.check])
  have "cn_pool cn1 = [SeedLookup] \<and> tm_tasks (cn_timers cn1) = [0]"
    by (simp add: cn1_def cn_def w_def StartOutboundTimer_def start_connector_timer_def Connector_new_def StartTimer_def tm_init_def
      world_init_def ShouldDnsLookup_def Peers_IsEmpty_def Peers_new_def Let_def CheckTimers_def is_due_def later_def)
  then show ?thesis using outbound_search_goes_on[OF r] r by blast
qed

end
