(* ===== verification/Socket.thy ===== *)
theory Socket
  imports Prelude
begin

unbundle bit_operations_syntax

text \<open>
  Sockets: \<^verbatim>\<open>src/network/include/socket.h\<close> and \<^verbatim>\<open>src/network/src/socket.cpp\<close>.  \<open>os\<close> is the set of open descriptors
  of the process and what the system calls answer; POSIX is what is known of them: \<^verbatim>\<open>socket\<close> returns
  \<open>-1\<close> or the smallest descriptor that is not open, \<^verbatim>\<open>close\<close> of an open descriptor that succeeds closes it.
\<close>

record sock =
  sock_fd :: int

record sys =
  open_fds :: "int list"
  may_create :: bool
  may_close :: bool
  setsockopt_ok :: bool
  getfl :: "32 word"
  setfl_ok :: "32 word \<Rightarrow> bool"

definition Socket_new :: sock where
  "Socket_new = \<lparr>sock_fd = 0\<rparr>"

definition Socket_of :: "int \<Rightarrow> sock" where
  "Socket_of fd = \<lparr>sock_fd = fd\<rparr>"

subsection \<open>System calls\<close>

fun lowest_from :: "nat \<Rightarrow> int \<Rightarrow> int list \<Rightarrow> int" where
  "lowest_from 0 k fds = k"
| "lowest_from (Suc n) k fds = (if k \<in> set fds then lowest_from n (k + 1) fds else k)"

definition lowest_free :: "int list \<Rightarrow> int" where
  "lowest_free fds = lowest_from (length fds) 0 fds"

definition sys_socket :: "sys \<Rightarrow> int \<times> sys" where
  "sys_socket os =
     (if may_create os then let fd = lowest_free (open_fds os) in (fd, os\<lparr>open_fds := fd # open_fds os\<rparr>) else (- 1, os))"

definition sys_close :: "int \<Rightarrow> sys \<Rightarrow> int \<times> sys" where
  "sys_close fd os =
     (if may_close os \<and> fd \<in> set (open_fds os) then (0, os\<lparr>open_fds := removeAll fd (open_fds os)\<rparr>) else (- 1, os))"

subsection \<open>The operations\<close>

definition Socket_Close :: "sock \<Rightarrow> sys \<Rightarrow> bool \<times> sock \<times> sys" where
  "Socket_Close s os =
     (if sock_fd s = - 1 then (True, s, os)
      else let (r, os1) = sys_close (sock_fd s) os in
        if r = - 1 then (False, s, os1) else (True, s\<lparr>sock_fd := - 1\<rparr>, os1))"

definition SetSockNoDelay :: "sock \<Rightarrow> sys \<Rightarrow> bool" where
  "SetSockNoDelay s os = setsockopt_ok os"

text \<open>The answer of \<^verbatim>\<open>F_GETFL\<close> is not checked; \<^verbatim>\<open>O_NONBLOCK\<close> is 2048 on Linux.\<close>

definition O_NONBLOCK :: "32 word" where
  "O_NONBLOCK = 2048"

definition SetSockNonBlocking :: "sock \<Rightarrow> sys \<Rightarrow> bool" where
  "SetSockNonBlocking s os = setfl_ok os (getfl os OR O_NONBLOCK)"

definition Socket_Create :: "sock \<Rightarrow> sys \<Rightarrow> bool \<times> sock \<times> sys" where
  "Socket_Create s os =
     (if 0 < sock_fd s then (True, s, os)
      else
        let (fd, os1) = sys_socket os; s1 = s\<lparr>sock_fd := fd\<rparr> in
        if fd = - 1 then (False, s1, os1)
        else if \<not> SetSockNoDelay s1 os1 then (let (_, s2, os2) = Socket_Close s1 os1 in (False, s2, os2))
        else if \<not> SetSockNonBlocking s1 os1 then (let (_, s2, os2) = Socket_Close s1 os1 in (False, s2, os2))
        else (True, s1, os1))"

text \<open>\<open>answer\<close> is what the call returns; a length of the queue passed to \<^verbatim>\<open>Listen\<close> is ignored.\<close>

definition Socket_Bind :: "int \<Rightarrow> bool" where
  "Socket_Bind answer = (answer \<noteq> - 1)"

definition Socket_Listen :: "int \<Rightarrow> int \<Rightarrow> bool" where
  "Socket_Listen back_log answer = (answer \<noteq> - 1)"

definition Socket_Accept :: "int \<Rightarrow> int" where
  "Socket_Accept answer = answer"

definition Socket_Connect :: "int \<Rightarrow> bool" where
  "Socket_Connect answer = (answer \<noteq> - 1)"

text \<open>\<open>name\<close> is the answer of \<^verbatim>\<open>getsockname\<close>, \<open>from\<close> is \<^verbatim>\<open>NetAddr::FromSockAddr\<close>.\<close>

definition GetBindAddr :: "('s \<Rightarrow> 'a option) \<Rightarrow> 's option \<Rightarrow> sock \<Rightarrow> 'a option" where
  "GetBindAddr from name s =
     (if 0 < sock_fd s then (case name of Some n \<Rightarrow> from n | None \<Rightarrow> None) else None)"

subsection \<open>Descriptors\<close>

lemma lowest_from_free:
  assumes "card (set fds \<inter> {k..}) \<le> n"
  shows "k \<le> lowest_from n k fds \<and> lowest_from n k fds \<notin> set fds \<and> (\<forall>j. k \<le> j \<and> j < lowest_from n k fds \<longrightarrow> j \<in> set fds)"
  using assms
proof (induction n arbitrary: k)
  case (Suc n)
  have e: "set fds \<inter> {k..} = insert k (set fds \<inter> {k + 1..})" if "k \<in> set fds" using that by auto
  have "card (set fds \<inter> {k + 1..}) \<le> n" if "k \<in> set fds"
    using Suc.prems unfolding e[OF that] by (subst (asm) card_insert_disjoint) auto
  then show ?case using Suc.IH[of "k + 1"] by (auto simp: order.order_iff_strict[of k])
next
  case 0
  then have "set fds \<inter> {k..} = {}" by simp
  then show ?case by auto
qed

lemma lowest_free_spec: "0 \<le> lowest_free fds \<and> lowest_free fds \<notin> set fds \<and> (\<forall>j. 0 \<le> j \<and> j < lowest_free fds \<longrightarrow> j \<in> set fds)"
proof -
  have "card (set fds \<inter> {0..}) \<le> card (set fds)" by (rule card_mono) auto
  also have "\<dots> \<le> length fds" by (rule card_length)
  finally show ?thesis unfolding lowest_free_def by (rule lowest_from_free)
qed

text \<open>A socket owns its descriptor when it is open and not one of the standard streams.\<close>

definition owns :: "sock \<Rightarrow> sys \<Rightarrow> bool" where
  "owns s os = (0 < sock_fd s \<and> sock_fd s \<in> set (open_fds os))"

text \<open>Making a socket, on every branch.  While standard input is open and \<^verbatim>\<open>close\<close> works, it either owns a new descriptor
  or has none and nothing is left open.\<close>

lemma Socket_Create_exact:
  assumes "sock_fd s \<le> 0" "0 \<in> set (open_fds os)" "may_close os" "Socket_Create s os = (ok, s', os')"
  shows "ok = (may_create os \<and> setsockopt_ok os \<and> setfl_ok os (getfl os OR O_NONBLOCK))"
    "if ok then owns s' os' \<and> sock_fd s' \<notin> set (open_fds os) \<and> set (open_fds os') = insert (sock_fd s') (set (open_fds os))
     else sock_fd s' = - 1 \<and> os' = os"
proof -
  note fd = lowest_free_spec[of "open_fds os"]
  have "lowest_free (open_fds os) \<noteq> 0" using fd assms(2) by metis
  then have "0 < lowest_free (open_fds os)" using fd by linarith
  then show "ok = (may_create os \<and> setsockopt_ok os \<and> setfl_ok os (getfl os OR O_NONBLOCK))"
    "if ok then owns s' os' \<and> sock_fd s' \<notin> set (open_fds os) \<and> set (open_fds os') = insert (sock_fd s') (set (open_fds os))
     else sock_fd s' = - 1 \<and> os' = os"
    using assms fd
    by (auto simp: Socket_Create_def sys_socket_def Socket_Close_def sys_close_def SetSockNoDelay_def SetSockNonBlocking_def
      owns_def Let_def split: if_splits)
qed

lemma Socket_Close_exact:
  assumes "owns s os" "may_close os"
  shows "Socket_Close s os = (True, s\<lparr>sock_fd := - 1\<rparr>, os\<lparr>open_fds := removeAll (sock_fd s) (open_fds os)\<rparr>)"
  using assms by (auto simp: owns_def Socket_Close_def sys_close_def)

text \<open>Closing twice is harmless, and so is making a socket twice.\<close>

lemma Socket_Close_twice: "Socket_Close s os = (True, s', os') \<Longrightarrow> Socket_Close s' os' = (True, s', os')"
  by (auto simp: Socket_Close_def split: prod.splits if_splits)

lemma Socket_Create_twice: "owns s os \<Longrightarrow> Socket_Create s os = (True, s, os)"
  by (simp add: owns_def Socket_Create_def)

text \<open>Zero stands for no socket, but it is a descriptor: a socket that was never made closes standard input.
  With standard input closed, a second \<^verbatim>\<open>Create\<close> loses the descriptor of the first.\<close>

lemma Socket_new_closes_stdin:
  "0 \<in> set (open_fds os) \<Longrightarrow> may_close os \<Longrightarrow>
     Socket_Close Socket_new os = (True, \<lparr>sock_fd = - 1\<rparr>, os\<lparr>open_fds := removeAll 0 (open_fds os)\<rparr>)"
  by (simp add: Socket_Close_def Socket_new_def sys_close_def)

lemma Socket_zero_leaks:
  assumes "open_fds os = [1, 2]" "may_create os" "setsockopt_ok os" "\<And>fl. setfl_ok os fl"
  shows "\<exists>s1 os1 s2 os2. Socket_Create Socket_new os = (True, s1, os1) \<and> Socket_Create s1 os1 = (True, s2, os2) \<and>
    sock_fd s1 = 0 \<and> sock_fd s2 = 3 \<and> 0 \<in> set (open_fds os2)"
  using assms
  by (simp add: Socket_Create_def Socket_new_def sys_socket_def lowest_free_def SetSockNoDelay_def SetSockNonBlocking_def
    numeral_eq_Suc)

text \<open>When \<^verbatim>\<open>F_GETFL\<close> fails, all flags are asked for.\<close>

lemma getfl_failure_sets_all_flags: "getfl os = - 1 \<Longrightarrow> SetSockNonBlocking s os = setfl_ok os (- 1)"
  by (simp add: SetSockNonBlocking_def)

end
