(* ===== verification/Tx_Text.thy ===== *)
theory Tx_Text
  imports Block String_Encoding
begin

text \<open>
  The texts of transactions and blocks: the operations \<^verbatim>\<open>ToString\<close> of \<^verbatim>\<open>src/consensus/src/transaction.cpp\<close> and
  \<^verbatim>\<open>src/consensus/src/block.cpp\<close>.  A text is a byte list.  The hash of a transaction is cached when it is asked
  for, so these operations return the object as well.
\<close>

subsection \<open>Numbers in streams\<close>

fun digits :: "nat \<Rightarrow> nat \<Rightarrow> bytes" where
  "digits b n = (if b < 2 \<or> n < b then [hexmap ! n] else digits b (n div b) @ [hexmap ! (n mod b)])"

declare digits.simps [simp del]

definition dec_text :: "nat \<Rightarrow> bytes" where
  "dec_text = digits 10"

definition hex_text :: "nat \<Rightarrow> bytes" where
  "hex_text = digits 16"

text \<open>\<^verbatim>\<open>std::setw(8) << std::setfill('0')\<close>\<close>

definition pad8 :: "bytes \<Rightarrow> bytes" where
  "pad8 s = replicate (8 - length s) 48 @ s"

text \<open>\<^verbatim>\<open>EncodeHex\<close> of the reversed bytes, cut after \<open>k\<close> characters.\<close>

definition hash_text :: "nat \<Rightarrow> bytes \<Rightarrow> bytes" where
  "hash_text k h = take k (EncodeHex (rev h))"

subsection \<open>The texts\<close>

definition OutPoint_ToString :: "outpoint \<Rightarrow> bytes" where
  "OutPoint_ToString p =
     ascii ''OutPoint('' @ hash_text 10 (prev_hash p) @ ascii '', '' @ dec_text (unat (out_index p)) @ ascii '')''"

definition TxIn_ToString :: "txin \<Rightarrow> bytes" where
  "TxIn_ToString i =
     ascii ''TxIn('' @ OutPoint_ToString (prevout i) @ ascii '', '' @ ascii ''scriptsig='' @
     (if OutPoint_IsNull (prevout i) then EncodeHex (script_sig i) else take 24 (EncodeHex (script_sig i))) @
     (if sequence_no i \<noteq> default_sequence_no then ascii '', sequence_no='' @ dec_text (unat (sequence_no i)) else []) @
     ascii '')''"

definition TxOut_ToString :: "txout \<Rightarrow> bytes" where
  "TxOut_ToString out =
     ascii ''TxOut(value='' @ dec_text (unat (out_value out div kSatoshiPerBitcoin)) @ ascii ''.'' @
     pad8 (dec_text (unat (out_value out mod kSatoshiPerBitcoin))) @ ascii '', '' @ ascii ''scriptPubKey='' @
     EncodeHex (script_pub_key out) @ ascii '')''"

definition Tx_ToString :: "(bytes \<Rightarrow> bytes) \<Rightarrow> tx \<Rightarrow> bytes \<times> tx" where
  "Tx_ToString sha t =
     (let (h, t1) = Tx_GetHash sha t in
      (ascii ''Transaction(hash='' @ hash_text 10 h @ ascii '', '' @
       ascii ''ver='' @ dec_text (unat (tx_version t1)) @ ascii '', '' @
       ascii ''inputs.size='' @ dec_text (length (inputs t1)) @ ascii '', '' @
       ascii ''outputs.size='' @ dec_text (length (outputs t1)) @ ascii '', '' @
       ascii ''lock_time='' @ dec_text (unat (lock_time t1)) @ ascii '')'' @ [10] @
       concat (map (\<lambda>i. ascii ''    '' @ TxIn_ToString i @ [10]) (inputs t1)) @
       concat (map (\<lambda>out. ascii ''    '' @ TxOut_ToString out @ [10]) (outputs t1)), t1))"

fun txs_text :: "(bytes \<Rightarrow> bytes) \<Rightarrow> tx list \<Rightarrow> bytes \<times> tx list" where
  "txs_text sha [] = ([], [])"
| "txs_text sha (t # ts) =
     (let (s, t1) = Tx_ToString sha t; (r, ts1) = txs_text sha ts in (ascii ''  '' @ s @ [10] @ r, t1 # ts1))"

definition Block_ToString :: "(bytes \<Rightarrow> bytes) \<Rightarrow> block \<Rightarrow> bytes \<times> block" where
  "Block_ToString sha b =
     (let h = bheader b; (txs, ts1) = txs_text sha (transactions b) in
      (ascii ''Block(hash='' @ hash_text 12 (Header_GetHash sha h) @ ascii '', '' @
       ascii ''ver='' @ ascii ''0x'' @ pad8 (hex_text (unat (hversion h))) @ ascii '', '' @
       ascii ''hashPrevBlock='' @ hash_text 12 (hash_prev_block h) @ ascii '', '' @
       ascii ''hashMerkleRoot='' @ hash_text 12 (hash_merkle_root h) @ ascii '', '' @
       ascii ''nTime='' @ dec_text (unat (htime h)) @ ascii '', '' @
       ascii ''bits='' @ pad8 (hex_text (unat (hbits h))) @ ascii '', '' @
       ascii ''nNonce='' @ dec_text (unat (hnonce h)) @ ascii '', '' @
       ascii ''tx.size='' @ dec_text (length (transactions b)) @ ascii '')'' @ [10] @ txs, b\<lparr>transactions := ts1\<rparr>))"

subsection \<open>What a text says\<close>

lemma digit_value:
  assumes "d < 10"
  shows "isdigit (hexmap ! d)" "uint (hexmap ! d - 48) = int d"
proof -
  from assms have "d = 0 \<or> d = 1 \<or> d = 2 \<or> d = 3 \<or> d = 4 \<or> d = 5 \<or> d = 6 \<or> d = 7 \<or> d = 8 \<or> d = 9" by arith
  then show "isdigit (hexmap ! d)" "uint (hexmap ! d - 48) = int d"
    by (elim disjE; simp add: hexmap_def isdigit_def)+
qed

lemma decimal_snoc: "decimal (ds @ [d]) = 10 * decimal ds + int (unat (d - 48))"
  by (simp add: decimal_def)

text \<open>A number is printed as digits that have its value, without a needless zero.\<close>

lemma decimal_dec_text: "decimal (dec_text n) = int n \<and> list_all isdigit (dec_text n)"
proof (induction n rule: less_induct)
  case (less n)
  show ?case
  proof (cases "n < 10")
    case True
    then show ?thesis by (simp add: dec_text_def digits.simps decimal_def digit_value)
  next
    case False
    have d: "n mod 10 < 10" by simp
    have "dec_text n = dec_text (n div 10) @ [hexmap ! (n mod 10)]" using False by (simp add: dec_text_def digits.simps[of 10 n])
    moreover have "decimal (dec_text (n div 10)) = int (n div 10)" "list_all isdigit (dec_text (n div 10))"
      using less.IH[of "n div 10"] False by auto
    ultimately show ?thesis using digit_value[OF d] by (simp add: decimal_snoc zdiv_int zmod_int)
  qed
qed

lemma length_dec_text: "0 < k \<Longrightarrow> n < 10 ^ k \<Longrightarrow> length (dec_text n) \<le> k"
proof (induction k arbitrary: n)
  case (Suc k)
  show ?case
  proof (cases "n < 10")
    case True
    then show ?thesis by (simp add: dec_text_def digits.simps)
  next
    case False
    then have "k \<noteq> 0" using Suc.prems by (cases k) auto
    then have "length (dec_text (n div 10)) \<le> k"
      using Suc.IH[of "n div 10"] Suc.prems(2) by (simp add: less_mult_imp_div_less mult.commute)
    then show ?thesis using False by (simp add: dec_text_def digits.simps[of 10 n])
  qed
qed simp

lemma decimal_zeros: "decimal (replicate n 48 @ ds) = decimal ds"
proof -
  have "foldl (\<lambda>v d. 10 * v + int (unat (d - 48))) 0 (replicate n (48 :: u8)) = 0" by (induction n) simp_all
  then show ?thesis by (simp add: decimal_def)
qed

lemma pad8_dec_text:
  assumes "n < 10 ^ 8"
  shows "length (pad8 (dec_text n)) = 8" "decimal (pad8 (dec_text n)) = int n"
  using length_dec_text[of 8 n] assms by (auto simp: pad8_def decimal_zeros decimal_dec_text)

text \<open>The text of an output says its value and its script: two outputs with the same text are equal.  The text of an
  input or of a transaction does not, since hashes and scripts are cut.\<close>

lemma TxOut_ToString_inj:
  assumes "TxOut_ToString a = TxOut_ToString b"
  shows "a = b"
proof -
  let ?C = "kSatoshiPerBitcoin"
  let ?w = "\<lambda>x :: txout. dec_text (unat (out_value x div ?C))" and ?f = "\<lambda>x :: txout. pad8 (dec_text (unat (out_value x mod ?C)))"
  let ?h = "\<lambda>x. EncodeHex (script_pub_key x)"
  have f: "unat (out_value x mod ?C) < 10 ^ 8" for x :: txout
    by (simp add: unat_mod kSatoshiPerBitcoin_def)
  have e: "?w a @ 46 # ?f a @ ascii '', scriptPubKey='' @ ?h a @ ascii '')'' =
      ?w b @ 46 # ?f b @ ascii '', scriptPubKey='' @ ?h b @ ascii '')''"
    using assms by (simp add: TxOut_ToString_def ascii_def)
  have tw: "takeWhile isdigit (?w x @ 46 # r) = ?w x" for x :: txout and r
    using decimal_dec_text[of "unat (out_value x div ?C)"] by (simp add: list_all_iff isdigit_def)
  have w: "?w a = ?w b" using arg_cong[OF e, of "takeWhile isdigit"] by (simp only: tw)
  then have fe: "?f a = ?f b" and "?h a = ?h b" using e pad8_dec_text(1)[OF f] by auto
  then have s: "script_pub_key a = script_pub_key b" by (metis hex_roundtrip sum.inject(2))
  have "unat (out_value a div ?C) = unat (out_value b div ?C)"
    using w decimal_dec_text by (metis of_nat_eq_iff)
  moreover have "unat (out_value a mod ?C) = unat (out_value b mod ?C)"
    using fe pad8_dec_text(2)[OF f] by (metis of_nat_eq_iff)
  ultimately have "out_value a = out_value b" by (metis word_mod_div_equality word_unat_eq_iff)
  with s show ?thesis by simp
qed

text \<open>Printing changes nothing but the caches, and those only to what they would be anyway.\<close>

lemma Tx_ToString_snd: "snd (Tx_ToString sha t) = snd (Tx_GetHash sha t)"
  by (simp add: Tx_ToString_def case_prod_beta)

lemma Block_ToString_snd:
  "snd (Block_ToString sha b) = b\<lparr>transactions := map (\<lambda>t. snd (Tx_GetHash sha t)) (transactions b)\<rparr>"
proof -
  have "snd (txs_text sha ts) = map (\<lambda>t. snd (Tx_GetHash sha t)) ts" for ts
    by (induction ts) (simp_all add: case_prod_beta Tx_ToString_snd)
  then show ?thesis by (simp add: Block_ToString_def case_prod_beta Let_def)
qed

end
