(* ===== verification/Spec2Isabelle.thy ===== *)
theory Spec2Isabelle
  imports Prelude Constants Circular_Buffer Endian Serialize Compact Script Transaction
    String_Encoding Block Block_Index Active_Chain Chain_State Sub_Net Ban_List Peers Messages
    Time_Data Timer Orphans Node Local_Service Msg_Process Effects Msg_Frames Disconnecting
    Connections Net_Events Net_Safety Addr_Text Net_Addr Proto_Map Fast_Random Lock_Order
    Semaphore Configuration Hash_Text Net_Lookup P2P_Start Sync_Counters Thread_Pool Hashing
    Executor Addr_Order Outbound_Timer Socket Tx_Text
begin

text \<open>
  \<^bold>\<open>btclite\<close>: a verification of the C++ program under \<^verbatim>\<open>src/src\<close> (paths below are relative to it).

  The program is a Bitcoin node: it keeps addresses of peers and a list of banned ones, connects to
  peers and accepts connections (\<^verbatim>\<open>network\<close>), speaks the handshake and the message formats of the
  protocol, reads and writes transactions and blocks (\<^verbatim>\<open>consensus\<close>), and keeps a tree of block
  headers with an active chain (\<^verbatim>\<open>chain\<close>), on a library of its own (\<^verbatim>\<open>utility\<close>).

  \<^bold>\<open>How it is modelled.\<close>  A class is a record of its data members, an enumeration a datatype, an operation a
  function of the same name that returns the new state; where two operations share a name, the class
  is a prefix (\<open>Tx_\<close>, \<open>NetAddr_\<close>, \<open>cb_\<close>).  Integers have their width.  A result \<open>'a res\<close> is \<open>Inl\<close> of a
  failure -- an exception, undefined behaviour, an indeterminate value -- or \<open>Inr\<close> of a value.  A loop
  that may not end is a partial function into \<open>option\<close>, so that returning is something to prove.
  Digests, base32, libevent, \<^verbatim>\<open>getopt_long\<close>, \<^verbatim>\<open>getaddrinfo\<close>, files, the clock, random numbers and the system are parameters; their needed
  properties are named hypotheses (\<open>libevent_ok\<close>, \<open>collision_free\<close>, \<open>opt_ok\<close>, \<open>resolver_ok\<close>, \<open>hash_ok\<close>, \<open>mac_ok\<close>).  What the
  readers take from unset locals and from a function without a return statement is a parameter too, the record
  \<open>compiler\<close>: \<open>standard\<close> says that flowing off the end of that function is undefined, as the language has it, and \<open>clean\<close>
  what a compiled program has to do for the readers to work at all, which nothing guarantees.  \<open>Prelude\<close> has the
  result type, the collections of hints and lemmas on lists and words; \<open>Constants\<close> the constants.

  \<^bold>\<open>Utility.\<close>
  \<open>Circular_Buffer\<close> (\<^verbatim>\<open>circular_buffer.h\<close>): the ring refines a bounded queue (locale \<open>bounded_fifo\<close> of the
  contract, interpreted on the ring).
  \<open>Endian\<close>, \<open>Serialize\<close> (\<^verbatim>\<open>util_endian.h\<close>, \<^verbatim>\<open>serialize.h\<close>, \<^verbatim>\<open>stream.h\<close>): byte order, the readers and writers,
  and the locale of a codec, interpreted for every type that is written.
  \<open>String_Encoding\<close> (\<^verbatim>\<open>string_encoding\<close>): hexadecimal and decimal text.
  \<open>Time_Data\<close> (\<^verbatim>\<open>util_time.cpp\<close>): the offset of the network time is the clipped median of the samples.
  \<open>Timer\<close> (\<^verbatim>\<open>timer.h\<close>, \<^verbatim>\<open>timer.cpp\<close>): timers, the check of due ones, the call of a callback.
  \<open>Fast_Random\<close> (\<^verbatim>\<open>random.cpp\<close>): random numbers of any width from a generator of bytes; rejection sampling.
  \<open>Lock_Order\<close> (\<^verbatim>\<open>sync.h\<close>, \<^verbatim>\<open>sync.cpp\<close>): the detector of lock orders, with threads as a step relation: which
  deadlocks it excludes and which not.  \<open>Semaphore\<close> (same files): semaphores and their grants.
  \<open>Thread_Pool\<close> (\<^verbatim>\<open>thread.h\<close>, \<^verbatim>\<open>thread.cpp\<close>): the pool as a step relation of its workers, first in first out, drained
  when it is destroyed; groups of threads.  \<open>Hash_Text\<close> (\<^verbatim>\<open>arithmetic.cpp\<close>, \<^verbatim>\<open>chain/src/params.cpp\<close>): the text of a hash.
  \<open>Hashing\<close> (\<^verbatim>\<open>crypto\<close>): digests and keyed hashes over the objects of Botan, and their documented laws.
  \<open>Configuration\<close> (\<^verbatim>\<open>util.cpp\<close>, \<^verbatim>\<open>config.cpp\<close>, \<^verbatim>\<open>logging.cpp\<close>, \<^verbatim>\<open>network/src/params.cpp\<close>, \<^verbatim>\<open>main.cpp\<close>): the command line
  and what a start makes of it.

  \<^bold>\<open>Consensus.\<close>
  \<open>Compact\<close>, \<open>Script\<close>, \<open>Transaction\<close>, \<open>Block\<close> (files of these names): compact targets against their exact
  value, script numbers and pushes, wire formats, the cache of a transaction's hash, Merkle roots,
  the proof of work of a block.  \<open>Tx_Text\<close>: the texts of transactions and blocks, and that an output can be read off
  its text.

  \<^bold>\<open>Chain.\<close>
  \<open>Block_Index\<close>, \<open>Active_Chain\<close>, \<open>Chain_State\<close> (\<^verbatim>\<open>chain\<close>): the tree of headers as a store of addresses, its
  skip pointers, ancestors, the chain of the tip, forks and locators, loading the genesis block, which with the
  detector of lock orders is undefined; what follows in the life of a node is modelled for runs that get past it.

  \<^bold>\<open>Addresses.\<close>
  \<open>Net_Addr\<close>, \<open>Addr_Order\<close>, \<open>Addr_Text\<close>, \<open>Sub_Net\<close> (\<^verbatim>\<open>network_address\<close>): classes of addresses, groups, reachability, text,
  subnets.  \<open>Proto_Map\<close>: the maps of the protobuf messages, a locale of map laws with its
  interpretation.  \<open>Ban_List\<close> (\<^verbatim>\<open>banlist\<close>) and \<open>Peers\<close> (\<^verbatim>\<open>peers\<close>): the list of bans and the tables of known
  peers, with the invariant that every sequence of calls keeps.  \<open>Net_Lookup\<close> (\<^verbatim>\<open>net_base.cpp\<close>): names and texts
  of hosts and subnets.

  \<^bold>\<open>Connections.\<close>
  \<open>Messages\<close> (\<^verbatim>\<open>network/include/protocol\<close>): the header and the payload of every message.
  \<open>Orphans\<close> (\<^verbatim>\<open>block_sync.h\<close>, \<^verbatim>\<open>block_sync.cpp\<close>): the pool of orphan transactions.
  \<open>Node\<close> (\<^verbatim>\<open>node.h\<close>, \<^verbatim>\<open>node.cpp\<close>): a connected peer, and the state \<open>world\<close> of the whole layer: the nodes by
  number, the lists of the acceptor and the connector, timers, peers, bans, network time.
  \<open>Local_Service\<close> (\<^verbatim>\<open>net.cpp\<close>), \<open>Msg_Process\<close> (\<^verbatim>\<open>msg_process\<close>, the handlers of \<^verbatim>\<open>protocol\<close>), \<open>Connections\<close>
  (\<^verbatim>\<open>acceptor.cpp\<close>, \<^verbatim>\<open>connector.cpp\<close>, \<^verbatim>\<open>libevent.cpp\<close>): the operations on that state.
  \<open>Effects\<close>: the locale \<open>untouched\<close> of observations that handlers and callbacks leave alone, with its
  interpretations.  \<open>Msg_Frames\<close>: what is sent is what is handled, in order.  \<open>Disconnecting\<close>: when
  disconnecting is defined and what it does.  \<open>Net_Events\<close>: all events as a step relation
  \<open>net_step\<close>, the reachable states and their invariant \<open>net_inv\<close>.  \<open>Net_Safety\<close>: what follows for
  connections, the handshake, pings and bans; that a call of \<^verbatim>\<open>ParseMsg\<close> is a sequence of steps.
  \<open>P2P_Start\<close> (\<^verbatim>\<open>p2p.cpp\<close>): starting and stopping, and what a restart keeps.  \<open>Executor\<close>
  (\<^verbatim>\<open>executor.cpp\<close>, \<^verbatim>\<open>util.cpp\<close>, \<^verbatim>\<open>main.cpp\<close>): initialisation composed of the parts, signals, the threads of the event
  loops and the shutdown, with the files that are written, as a step relation \<open>process_step\<close> over the events of the
  network.  \<open>Outbound_Timer\<close> (\<^verbatim>\<open>acceptor.cpp\<close>, \<^verbatim>\<open>connector.cpp\<close>): making the
  loops, and the timers of the connector as steps over the events, with the clock.  \<open>Socket\<close> (\<^verbatim>\<open>socket.cpp\<close>): sockets over the
  table of descriptors.  \<open>Sync_Counters\<close> (\<^verbatim>\<open>node.h\<close>): the
  static counters of block download (locale \<open>counted_flag\<close>).

  The steps are atomic: each is a handler, a callback or the handling of one message, which in the
  program run in a pool of threads and lock each object for the time of a call.  A message may be
  handled after its node was disconnected.  A step that runs into undefined behaviour has no
  successor; the theorems of \<open>Disconnecting\<close> say when that is.

  \<^bold>\<open>Bounds.\<close>  No fuel is used: the search for an outbound peer counts to the 101 of the source, the loop
  over the input buffer is shown to return because every round drains a header, and the loops of the
  chain because heights decrease.

  \<^bold>\<open>Not modelled.\<close>  Code inside \<^verbatim>\<open>#if 0\<close> or comments (most of \<^verbatim>\<open>block_sync.cpp\<close> and \<^verbatim>\<open>block_sync.h\<close>), which is not
  compiled; \<^verbatim>\<open>ScriptWitness\<close>, a vector nothing reads; libevent and the system calls, the objects of Botan and the
  classes that protobuf generates, which are parameters; logging and the texts of errors;
  copies and moves of objects, plain getters and setters; destructors of static objects; the logarithm of
  \<^verbatim>\<open>IntervalNextSend\<close>; the unit tests.
\<close>

end
